(* ===== verification/Calod_Prelude.thy ===== *)
theory Calod_Prelude
  imports Main "HOL-Library.Word" "HOL-Library.AList" "HOL-Library.Char_ord"
    "HOL-Library.List_Lexorder" "HOL-Library.Product_Lexorder" "HOL-Library.Sublist"
begin

text \<open>
  Prelude of the development: the type names and the generic lemmas the components share.

  \<^item> A byte is a \<^typ>\<open>char\<close> (a HOL character is exactly eight bits), so a Rust \<open>Vec<u8>\<close>
    and a Rust \<open>String\<close> (its UTF-8 bytes, which is what \<open>len()\<close> counts) are both
    \<^typ>\<open>char list\<close>, and a byte literal reads as in the source.
  \<^item> A UUID is its 128-bit value, the number \<open>Uuid::as_u128\<close> that the code sorts by.
  \<^item> A \<open>DashMap\<close> is an association list with distinct keys: the list order stands for the
    map's unspecified iteration order.  \<open>dm_get\<close>, \<open>dm_insert\<close> and \<open>dm_remove\<close> are its
    operations, and the locale \<open>hash_map\<close> is the contract its clients use.
  \<^item> A \<open>Result<T, E>\<close> is \<open>'e + 'a\<close>, the error on the left.
\<close>

section \<open>Type names\<close>

type_synonym bytes = "char list"
type_synonym uuid = "128 word"
type_synonym ('k, 'v) dashmap = "('k \<times> 'v) list"

named_theorems dm_simps \<open>lookup and update laws of the concurrent map model\<close>
named_theorems inv_intros \<open>preservation lemmas of the invariants\<close>

section \<open>Options and results\<close>

definition is_none_or :: "'a option \<Rightarrow> ('a \<Rightarrow> bool) \<Rightarrow> bool" where
  "is_none_or x p = (case x of None \<Rightarrow> True | Some a \<Rightarrow> p a)"

definition is_some_and :: "'a option \<Rightarrow> ('a \<Rightarrow> bool) \<Rightarrow> bool" where
  "is_some_and x p = (case x of None \<Rightarrow> False | Some a \<Rightarrow> p a)"

definition unwrap_or :: "'a option \<Rightarrow> 'a \<Rightarrow> 'a" where
  "unwrap_or x d = (case x of None \<Rightarrow> d | Some a \<Rightarrow> a)"

lemma is_none_or_simps [simp]: "is_none_or None p" "is_none_or (Some a) p = p a"
  by (simp_all add: is_none_or_def)

lemma is_some_and_simps [simp]: "\<not> is_some_and None p" "is_some_and (Some a) p = p a"
  by (simp_all add: is_some_and_def)

lemma unwrap_or_simps [simp]: "unwrap_or None d = d" "unwrap_or (Some a) d = a"
  by (simp_all add: unwrap_or_def)

section \<open>Concurrent maps\<close>

definition dm_get :: "('k, 'v) dashmap \<Rightarrow> 'k \<Rightarrow> 'v option" where
  "dm_get m k = map_of m k"

definition dm_insert :: "'k \<Rightarrow> 'v \<Rightarrow> ('k, 'v) dashmap \<Rightarrow> ('k, 'v) dashmap" where
  "dm_insert k v m = AList.update k v m"

definition dm_remove :: "'k \<Rightarrow> ('k, 'v) dashmap \<Rightarrow> ('k, 'v) dashmap" where
  "dm_remove k m = AList.delete k m"

definition dm_values :: "('k, 'v) dashmap \<Rightarrow> 'v list" where
  "dm_values m = map snd m"

definition dm_ok :: "('k, 'v) dashmap \<Rightarrow> bool" where
  "dm_ok m = distinct (map fst m)"

lemma dm_get_empty [simp, dm_simps]: "dm_get [] k = None"
  by (simp add: dm_get_def)

lemma dm_get_insert [dm_simps]: "dm_get (dm_insert k v m) k' = (if k' = k then Some v else dm_get m k')"
  by (simp add: dm_get_def dm_insert_def update_conv)

lemma dm_get_remove [dm_simps]: "dm_get (dm_remove k m) k' = (if k' = k then None else dm_get m k')"
  by (simp add: dm_get_def dm_remove_def delete_conv)

lemma dm_ok_empty [simp]: "dm_ok []"
  by (simp add: dm_ok_def)

lemma dm_ok_insert [simp, inv_intros]: "dm_ok m \<Longrightarrow> dm_ok (dm_insert k v m)"
  by (simp add: dm_ok_def dm_insert_def distinct_update)

lemma dm_ok_remove [simp, inv_intros]: "dm_ok m \<Longrightarrow> dm_ok (dm_remove k m)"
  by (simp add: dm_ok_def dm_remove_def distinct_delete)

lemma dm_values_iff: "dm_ok m \<Longrightarrow> v \<in> set (dm_values m) \<longleftrightarrow> (\<exists>k. dm_get m k = Some v)"
  by (force simp: dm_ok_def dm_values_def dm_get_def)

lemma dm_get_in_set: "dm_ok m \<Longrightarrow> dm_get m k = Some v \<longleftrightarrow> (k, v) \<in> set m"
  by (simp add: dm_ok_def dm_get_def)

lemma dm_get_None_iff: "dm_get m k = None \<longleftrightarrow> k \<notin> fst ` set m"
  by (simp add: dm_get_def map_of_eq_None_iff)

text \<open>
  The contract of a map that a component indexes its records with.  The clients are the
  lemmas inside: what a lookup sees after a sequence of removals or insertions.
\<close>

locale hash_map =
  fixes get :: "'m \<Rightarrow> 'k \<Rightarrow> 'v option"
    and insert_at :: "'k \<Rightarrow> 'v \<Rightarrow> 'm \<Rightarrow> 'm"
    and remove_at :: "'k \<Rightarrow> 'm \<Rightarrow> 'm"
    and ok :: "'m \<Rightarrow> bool"
  assumes get_insert: "get (insert_at k v m) k' = (if k' = k then Some v else get m k')"
    and get_remove: "get (remove_at k m) k' = (if k' = k then None else get m k')"
    and ok_insert: "ok m \<Longrightarrow> ok (insert_at k v m)"
    and ok_remove: "ok m \<Longrightarrow> ok (remove_at k m)"
begin

lemma get_remove_all: "get (fold remove_at ks m) k' = (if k' \<in> set ks then None else get m k')"
  by (induction ks arbitrary: m) (auto simp: get_remove)

lemma ok_remove_all: "ok m \<Longrightarrow> ok (fold remove_at ks m)"
  by (induction ks arbitrary: m) (auto simp: ok_remove)

lemma get_insert_all_notin:
  "k' \<notin> key ` set vs \<Longrightarrow> get (fold (\<lambda>v. insert_at (key v) (val v)) vs m) k' = get m k'"
  by (induction vs arbitrary: m) (auto simp: get_insert)

lemma get_insert_all:
  assumes "distinct (map key vs)" and "v \<in> set vs"
  shows "get (fold (\<lambda>v. insert_at (key v) (val v)) vs m) (key v) = Some (val v)"
  using assms
proof (induction vs arbitrary: m)
  case Nil
  then show ?case by simp
next
  case (Cons a vs)
  show ?case
  proof (cases "v = a")
    case True
    with Cons.prems have "key a \<notin> key ` set vs" by auto
    with True show ?thesis
      by (simp add: get_insert_all_notin get_insert)
  next
    case False
    with Cons show ?thesis by simp
  qed
qed

lemma ok_insert_all: "ok m \<Longrightarrow> ok (fold (\<lambda>v. insert_at (key v) (val v)) vs m)"
  by (induction vs arbitrary: m) (auto simp: ok_insert)

end

interpretation dm: hash_map "dm_get :: ('k, 'v) dashmap \<Rightarrow> 'k \<Rightarrow> 'v option" dm_insert dm_remove dm_ok
  by unfold_locales (simp_all add: dm_simps)

section \<open>Lists\<close>

lemma last_map_or:
  "(case map f xs of [] \<Rightarrow> d | _ \<Rightarrow> last (map f xs)) = (if xs = [] then d else f (last xs))"
  by (cases xs) (simp_all add: last_map)

lemma take_append_exact: "n = length xs \<Longrightarrow> take n (xs @ ys) = xs"
  by simp

lemma drop_append_exact: "n = length xs \<Longrightarrow> drop n (xs @ ys) = ys"
  by simp

end
