(* ===== verification/Rust_Std.thy ===== *)
theory Rust_Std
  imports Calod_Prelude
begin

text \<open>
  The parts of the Rust standard library the modelled sources call: \<open>i64\<close> arithmetic at
  its width, integer rendering and parsing in a radix and \<open>str\<close> helpers.
  The release profile of \<open>Cargo.toml\<close> leaves overflow checks off, so \<open>+\<close>
  and \<open>+=\<close> on \<open>i64\<close> wrap.
\<close>

section \<open>64-bit signed integers\<close>

definition i64_min :: int where "i64_min = - 9223372036854775808"
definition i64_max :: int where "i64_max = 9223372036854775807"

definition in_i64 :: "int \<Rightarrow> bool" where
  "in_i64 x \<longleftrightarrow> i64_min \<le> x \<and> x \<le> i64_max"

definition wrap_i64 :: "int \<Rightarrow> int" where
  "wrap_i64 x = (x + 9223372036854775808) mod 18446744073709551616 - 9223372036854775808"

definition i64_add :: "int \<Rightarrow> int \<Rightarrow> int" where
  "i64_add a b = wrap_i64 (a + b)"

definition i64_sub :: "int \<Rightarrow> int \<Rightarrow> int" where
  "i64_sub a b = wrap_i64 (a - b)"

definition i64_saturating_sub :: "int \<Rightarrow> int \<Rightarrow> int" where
  "i64_saturating_sub a b = max i64_min (min i64_max (a - b))"

text \<open>\<open>len() as i64\<close>: the length of an in-memory list, read as a signed number.\<close>

definition len_i64 :: "'a list \<Rightarrow> int" where
  "len_i64 xs = wrap_i64 (int (length xs))"

lemma wrap_i64_range: "in_i64 (wrap_i64 x)"
  by (simp add: in_i64_def wrap_i64_def i64_min_def i64_max_def)

lemma wrap_i64_id [simp]: "in_i64 x \<Longrightarrow> wrap_i64 x = x"
  by (simp add: in_i64_def wrap_i64_def i64_min_def i64_max_def)

lemma i64_add_eq: "in_i64 (a + b) \<Longrightarrow> i64_add a b = a + b"
  by (simp add: i64_add_def)

lemma i64_add_one: "in_i64 a \<Longrightarrow> i64_add a 1 = (if a = i64_max then i64_min else a + 1)"
  by (simp add: i64_add_def in_i64_def wrap_i64_def i64_min_def i64_max_def)

lemma len_i64_eq: "int (length xs) \<le> i64_max \<Longrightarrow> len_i64 xs = int (length xs)"
  by (simp add: len_i64_def in_i64_def i64_min_def)

section \<open>Digits in a radix\<close>

text \<open>Rendering: \<open>to_string\<close> is radix 10, the formats \<open>{:x}\<close> and \<open>{:016x}\<close> radix 16.\<close>

fun radix_digits :: "nat \<Rightarrow> nat \<Rightarrow> nat list" where
  "radix_digits b n = (if b \<le> 1 \<or> n < b then [n] else radix_digits b (n div b) @ [n mod b])"

declare radix_digits.simps [simp del]

definition digit_char :: "nat \<Rightarrow> char" where
  "digit_char d = (if d < 10 then char_of (48 + d) else char_of (87 + d))"

text \<open>\<open>char::to_digit\<close>: digits and letters of either case, below the radix.\<close>

definition to_digit :: "nat \<Rightarrow> char \<Rightarrow> nat option" where
  "to_digit b c =
     (let n = (of_char c :: nat);
          d = (if 48 \<le> n \<and> n \<le> 57 then n - 48
               else if 97 \<le> n \<and> n \<le> 122 then n - 87
               else if 65 \<le> n \<and> n \<le> 90 then n - 55 else b)
      in if d < b then Some d else None)"

definition nat_to_radix :: "nat \<Rightarrow> nat \<Rightarrow> string" where
  "nat_to_radix b n = map digit_char (radix_digits b n)"

definition nat_to_string :: "nat \<Rightarrow> string" where
  "nat_to_string n = nat_to_radix 10 n"

definition int_to_string :: "int \<Rightarrow> string" where
  "int_to_string i = (if i < 0 then CHR ''-'' # nat_to_string (nat (- i)) else nat_to_string (nat i))"

text \<open>Zero padding of the width formats \<open>{:04}\<close>, \<open>{:08}\<close>, \<open>{:016x}\<close>.\<close>

definition pad_zero :: "nat \<Rightarrow> string \<Rightarrow> string" where
  "pad_zero w s = replicate (w - length s) (CHR ''0'') @ s"

fun digits_value :: "nat \<Rightarrow> string \<Rightarrow> nat \<Rightarrow> nat option" where
  "digits_value b [] acc = Some acc"
| "digits_value b (c # cs) acc =
     (case to_digit b c of None \<Rightarrow> None | Some d \<Rightarrow> digits_value b cs (acc * b + d))"

text \<open>
  \<open>i64::from_str_radix\<close> (and \<open>parse::<i64>\<close>, radix 10): an optional sign, at least one
  digit, nothing else, and the value in range.
\<close>

definition parse_i64_radix :: "nat \<Rightarrow> string \<Rightarrow> int option" where
  "parse_i64_radix b s =
     (let neg = (case s of c # _ \<Rightarrow> c = CHR ''-'' | [] \<Rightarrow> False);
          body = (case s of c # cs \<Rightarrow> (if c = CHR ''-'' \<or> c = CHR ''+'' then cs else s) | [] \<Rightarrow> [])
      in if body = [] then None
         else case digits_value b body 0 of None \<Rightarrow> None
              | Some n \<Rightarrow> (let v = (if neg then - int n else int n)
                         in if in_i64 v then Some v else None))"

definition parse_i64 :: "string \<Rightarrow> int option" where
  "parse_i64 s = parse_i64_radix 10 s"

lemma of_char_digit_char:
  "d < 36 \<Longrightarrow> (of_char (digit_char d) :: nat) = (if d < 10 then 48 + d else 87 + d)"
  by (simp add: digit_char_def)

lemma to_digit_digit_char: "d < b \<Longrightarrow> b \<le> 36 \<Longrightarrow> to_digit b (digit_char d) = Some d"
  by (cases "d < 10") (simp_all add: to_digit_def Let_def of_char_digit_char del: of_char_eq_iff)

lemma digit_char_inj: "d < 36 \<Longrightarrow> d' < 36 \<Longrightarrow> digit_char d = digit_char d' \<Longrightarrow> d = d'"
  by (metis le_refl option.inject to_digit_digit_char)

lemma radix_digits_less: "2 \<le> b \<Longrightarrow> d \<in> set (radix_digits b n) \<Longrightarrow> d < b"
proof (induction b n rule: radix_digits.induct)
  case (1 b n)
  show ?case
  proof (cases "b \<le> 1 \<or> n < b")
    case True
    with 1 show ?thesis by (auto simp: radix_digits.simps [of b n])
  next
    case False
    with 1 show ?thesis by (auto simp: radix_digits.simps [of b n])
  qed
qed

lemma radix_digits_nonempty [simp]: "radix_digits b n \<noteq> []"
  by (subst radix_digits.simps) simp

lemma nat_to_radix_nonempty [simp]: "nat_to_radix b n \<noteq> []"
  by (simp add: nat_to_radix_def)

lemma digits_value_append:
  "digits_value b (xs @ ys) acc =
     (case digits_value b xs acc of None \<Rightarrow> None | Some a \<Rightarrow> digits_value b ys a)"
  by (induction xs arbitrary: acc) (auto split: option.splits)

lemma digits_value_radix:
  "2 \<le> b \<Longrightarrow> b \<le> 36 \<Longrightarrow> digits_value b (nat_to_radix b n) 0 = Some n"
proof (induction b n rule: radix_digits.induct)
  case (1 b n)
  show ?case
  proof (cases "n < b")
    case True
    with 1 show ?thesis
      by (simp add: nat_to_radix_def radix_digits.simps [of b n] to_digit_digit_char)
  next
    case False
    with 1 have "digits_value b (nat_to_radix b (n div b)) 0 = Some (n div b)" by simp
    with False 1 show ?thesis
      by (simp add: nat_to_radix_def radix_digits.simps [of b n] digits_value_append
          to_digit_digit_char)
  qed
qed

lemma digits_value_zeros: "2 \<le> b \<Longrightarrow> digits_value b (replicate k (CHR ''0'') @ s) 0 = digits_value b s 0"
  by (induction k) (simp_all add: to_digit_def)

lemma digit_char_not_sign:
  assumes "d < 36"
  shows "digit_char d \<noteq> CHR ''-'' \<and> digit_char d \<noteq> CHR ''+''"
proof -
  have "(of_char (digit_char d) :: nat) \<ge> 48"
    using assms by (simp add: of_char_digit_char)
  then show ?thesis by auto
qed

lemma nat_to_radix_chars:
  assumes "2 \<le> b" "b \<le> 36" "c \<in> set (nat_to_radix b n)"
  shows "\<exists>d<b. c = digit_char d"
  using assms radix_digits_less [of b _ n] by (auto simp: nat_to_radix_def)

lemma nat_to_radix_no_sign:
  assumes "2 \<le> b" "b \<le> 36"
  shows "CHR ''-'' \<notin> set (nat_to_radix b n)" and "CHR ''+'' \<notin> set (nat_to_radix b n)"
  using nat_to_radix_chars [OF assms] digit_char_not_sign assms(2)
  by (metis less_le_trans)+

lemma parse_unsigned:
  assumes "s \<noteq> []" "CHR ''-'' \<notin> set s" "CHR ''+'' \<notin> set s"
    and "digits_value b s 0 = Some n" and "in_i64 (int n)"
  shows "parse_i64_radix b s = Some (int n)"
  using assms by (cases s) (auto simp: parse_i64_radix_def Let_def)

lemma parse_negative:
  assumes "s \<noteq> []" and "digits_value b s 0 = Some n" and "in_i64 (- int n)"
  shows "parse_i64_radix b (CHR ''-'' # s) = Some (- int n)"
  using assms by (simp add: parse_i64_radix_def Let_def)

lemma parse_i64_to_string [simp]: "in_i64 i \<Longrightarrow> parse_i64 (int_to_string i) = Some i"
  using parse_unsigned [of "nat_to_string (nat i)" 10 "nat i"]
    parse_negative [of "nat_to_string (nat (- i))" 10 "nat (- i)"]
  by (auto simp: parse_i64_def int_to_string_def nat_to_string_def nat_to_radix_no_sign
      digits_value_radix)

lemma parse_i64_nat_to_string:
  "int n \<le> i64_max \<Longrightarrow> parse_i64 (nat_to_string n) = Some (int n)"
  using parse_i64_to_string [of "int n"]
  by (simp add: int_to_string_def in_i64_def i64_min_def)

text \<open>The rendering of a number is a token: none of its characters is a separator.\<close>

lemma nat_to_radix_char_code:
  assumes "2 \<le> b" "b \<le> 36" "c \<in> set (nat_to_radix b n)"
  shows "(of_char c :: nat) \<in> {48..57} \<union> {97..122}"
  using nat_to_radix_chars [OF assms] assms(2)
  by (auto simp: of_char_digit_char split: if_splits)

lemma int_to_string_char_code:
  "c \<in> set (int_to_string i) \<Longrightarrow> (of_char c :: nat) \<in> {45} \<union> {48..57} \<union> {97..122}"
  using nat_to_radix_char_code [of 10 c] 
  by (auto simp: int_to_string_def nat_to_string_def split: if_splits)

lemma nat_to_radix_inj:
  "2 \<le> b \<Longrightarrow> b \<le> 36 \<Longrightarrow> nat_to_radix b m = nat_to_radix b n \<longleftrightarrow> m = n"
  by (metis digits_value_radix option.inject)

lemma pad_zero_value: "digits_value 10 (pad_zero w (nat_to_string n)) 0 = Some n"
  by (simp add: pad_zero_def digits_value_zeros nat_to_string_def digits_value_radix)

lemma pad_zero_digits: "c \<in> set (pad_zero w (nat_to_string n)) \<Longrightarrow> 48 \<le> (of_char c :: nat) \<and> of_char c \<le> (57 :: nat)"
  using nat_to_radix_chars [of 10 c n] by (auto simp: pad_zero_def nat_to_string_def of_char_digit_char)

section \<open>Unsigned words and slices\<close>

text \<open>\<open>u64\<close> addition wraps; \<open>to_le_bytes\<close> and \<open>from_le_bytes\<close> put the low byte first.\<close>

definition u64_add :: "nat \<Rightarrow> nat \<Rightarrow> nat" where
  "u64_add a b = (a + b) mod 18446744073709551616"

primrec le_bytes :: "nat \<Rightarrow> nat \<Rightarrow> bytes" where
  "le_bytes 0 v = []"
| "le_bytes (Suc n) v = char_of (v mod 256) # le_bytes n (v div 256)"

fun from_le :: "bytes \<Rightarrow> nat" where
  "from_le [] = 0"
| "from_le (b # bs) = of_char b + 256 * from_le bs"

definition slice :: "'a list \<Rightarrow> nat \<Rightarrow> nat \<Rightarrow> 'a list" where
  "slice xs i j = take (j - i) (drop i xs)"

text \<open>\<open>str::strip_prefix\<close>, \<open>str::strip_suffix\<close> and \<open>u8::is_ascii_digit\<close>.\<close>

definition strip_prefix :: "string \<Rightarrow> string \<Rightarrow> string option" where
  "strip_prefix p s = (if take (length p) s = p then Some (drop (length p) s) else None)"

definition strip_suffix :: "string \<Rightarrow> string \<Rightarrow> string option" where
  "strip_suffix q s =
     (if length q \<le> length s \<and> drop (length s - length q) s = q
      then Some (take (length s - length q) s) else None)"

definition is_ascii_digit :: "char \<Rightarrow> bool" where
  "is_ascii_digit c \<longleftrightarrow> 48 \<le> (of_char c :: nat) \<and> of_char c \<le> (57 :: nat)"

text \<open>\<open>str::parse::<u64>\<close> on a string already known to be ASCII digits.\<close>

definition parse_u64_digits :: "string \<Rightarrow> nat option" where
  "parse_u64_digits s =
     (case digits_value 10 s 0 of None \<Rightarrow> None
      | Some n \<Rightarrow> if n < 18446744073709551616 then Some n else None)"

lemma length_le_bytes [simp]: "length (le_bytes n v) = n"
  by (induction n arbitrary: v) auto

lemma from_le_bytes: "from_le (le_bytes n v) = v mod 256 ^ n"
proof (induction n arbitrary: v)
  case (Suc n)
  have "v mod 256 ^ Suc n = v mod 256 + 256 * (v div 256 mod 256 ^ n)"
    by (simp add: mod_mult2_eq)
  with Suc show ?case by simp
qed simp

lemma strip_prefix_append [simp]: "strip_prefix p (p @ s) = Some s"
  by (simp add: strip_prefix_def)

lemma strip_suffix_append [simp]: "strip_suffix q (s @ q) = Some s"
  by (simp add: strip_suffix_def)

lemma slice_append: "slice (xs @ ys) (length xs) (length xs + n) = take n ys"
  by (simp add: slice_def)

end
