(* ===== verification/External.thy ===== *)
theory External
  imports Rust_Std
begin

text \<open>
  The third-party crates the sources call, as parameters of the model.  The record \<open>ext\<close>
  carries one field per external function; every definition that reaches one of them takes
  the record as its first argument \<open>X\<close>.

  \<^item> \<open>sha2\<close>: \<open>sha256\<close>;
  \<^item> \<open>crc32c\<close>: \<open>crc32c\<close>, \<open>crc32c_append\<close>;
  \<^item> \<open>serde_json\<close>: the value type \<open>json\<close>, \<open>Number::to_string\<close> and the rendering of a
    string as a JSON string literal;
  \<^item> \<open>uuid\<close>: the hyphenated and the simple rendering and \<open>Uuid::parse_str\<close>.

  What the code relies on is stated as named predicates on the record (\<open>sha256_ok\<close>,
  \<open>json_tokens_ok\<close>, \<open>uuid_ok\<close>).  \<open>demo_ext\<close> is a concrete record that satisfies them, at
  which the witnesses evaluate.
\<close>

section \<open>JSON values (\<open>serde_json::Value\<close>)\<close>

datatype json_number = NumInt int | NumFloat "64 word"

datatype json =
    JNull
  | JBool bool
  | JNumber json_number
  | JString string
  | JArray "json list"
  | JObject "(string \<times> json) list"

section \<open>The external functions\<close>

record ext =
  sha256 :: "bytes \<Rightarrow> bytes"
  crc32c :: "bytes \<Rightarrow> 32 word"
  crc32c_append :: "32 word \<Rightarrow> bytes \<Rightarrow> 32 word"
  number_to_string :: "json_number \<Rightarrow> string"
  json_string :: "string \<Rightarrow> string"
  uuid_to_string :: "uuid \<Rightarrow> string"
  uuid_simple :: "uuid \<Rightarrow> string"
  uuid_parse_str :: "string \<Rightarrow> uuid option"

section \<open>What the code relies on\<close>

text \<open>SHA-256 digests are 32 bytes long.\<close>

definition sha256_ok :: "ext \<Rightarrow> bool" where
  "sha256_ok X \<longleftrightarrow> (\<forall>b. length (sha256 X b) = 32)"

text \<open>Two inputs with one digest.  Tamper evidence holds up to such a pair.\<close>

definition sha256_collision :: "ext \<Rightarrow> bool" where
  "sha256_collision X \<longleftrightarrow> (\<exists>a b. a \<noteq> b \<and> sha256 X a = sha256 X b)"

text \<open>Numbers a \<open>serde_json::Number\<close> can hold: integers and finite doubles.\<close>

fun number_ok :: "json_number \<Rightarrow> bool" where
  "number_ok (NumInt i) = True"
| "number_ok (NumFloat w) = (take_bit 11 (drop_bit 52 w) \<noteq> 2047)"

definition number_char :: "char \<Rightarrow> bool" where
  "number_char c \<longleftrightarrow> (let n = (of_char c :: nat) in 48 \<le> n \<and> n \<le> 57 \<or> n \<in> {43, 45, 46, 69, 101})"

text \<open>
  Rendered numbers are nonempty, use only the characters of a JSON number and determine the
  number; rendered strings start with a quote and are self-delimiting.
\<close>

definition json_tokens_ok :: "ext \<Rightarrow> bool" where
  "json_tokens_ok X \<longleftrightarrow>
     (\<forall>n. number_ok n \<longrightarrow> number_to_string X n \<noteq> [] \<and> list_all number_char (number_to_string X n)) \<and>
     (\<forall>m n. number_ok m \<longrightarrow> number_ok n \<longrightarrow> number_to_string X m = number_to_string X n \<longrightarrow> m = n) \<and>
     (\<forall>s. \<exists>t. json_string X s = CHR 0x22 # t) \<and>
     (\<forall>s s' r r'. json_string X s @ r = json_string X s' @ r' \<longrightarrow> s = s' \<and> r = r')"

text \<open>The simple rendering of a UUID has no underscore and parses back; renderings are unique.\<close>

definition uuid_ok :: "ext \<Rightarrow> bool" where
  "uuid_ok X \<longleftrightarrow>
     (\<forall>u. CHR ''_'' \<notin> set (uuid_simple X u) \<and> uuid_parse_str X (uuid_simple X u) = Some u) \<and>
     inj (uuid_to_string X)"

lemma sha256_len: "sha256_ok X \<Longrightarrow> length (sha256 X b) = 32"
  by (simp add: sha256_ok_def)

lemma number_token:
  "json_tokens_ok X \<Longrightarrow> number_ok n \<Longrightarrow>
     number_to_string X n \<noteq> [] \<and> list_all number_char (number_to_string X n)"
  unfolding json_tokens_ok_def by blast

lemma number_token_inj:
  "json_tokens_ok X \<Longrightarrow> number_ok m \<Longrightarrow> number_ok n \<Longrightarrow>
     number_to_string X m = number_to_string X n \<Longrightarrow> m = n"
  unfolding json_tokens_ok_def by blast

lemma string_token_hd: "json_tokens_ok X \<Longrightarrow> \<exists>t. json_string X s = CHR 0x22 # t"
  unfolding json_tokens_ok_def by blast

lemma string_token_split:
  "json_tokens_ok X \<Longrightarrow> json_string X s @ r = json_string X s' @ r' \<Longrightarrow> s = s' \<and> r = r'"
  unfolding json_tokens_ok_def by blast

section \<open>A concrete instance for evaluation\<close>

text \<open>
  A record that satisfies the hypotheses: a 32-byte checksum in place of the hash, decimal
  integers, doubles rendered as \<open>e\<close> and their bits, strings with quote and backslash
  escaped, and UUIDs in hexadecimal.
\<close>

fun escape_chars :: "string \<Rightarrow> string" where
  "escape_chars [] = []"
| "escape_chars (c # cs) =
     (if c = CHR 0x22 \<or> c = CHR 0x5C then CHR 0x5C # c # escape_chars cs else c # escape_chars cs)"

fun demo_number :: "json_number \<Rightarrow> string" where
  "demo_number (NumInt i) = int_to_string i"
| "demo_number (NumFloat w) = CHR ''e'' # nat_to_string (unat w)"

definition demo_sum :: "bytes \<Rightarrow> nat" where
  "demo_sum b = foldl (\<lambda>acc c. (acc * 257 + of_char c + 1) mod 65521) 7 b"

definition demo_sha256 :: "bytes \<Rightarrow> bytes" where
  "demo_sha256 b = char_of (demo_sum b div 256) # char_of (demo_sum b) # replicate 30 (char_of (length b))"

definition demo_uuid_string :: "uuid \<Rightarrow> string" where
  "demo_uuid_string u = nat_to_radix 16 (unat u)"

definition demo_uuid_parse :: "string \<Rightarrow> uuid option" where
  "demo_uuid_parse s = (case digits_value 16 s 0 of None \<Rightarrow> None | Some n \<Rightarrow> Some (of_nat n))"

definition demo_ext :: ext where
  "demo_ext = \<lparr>sha256 = demo_sha256,
     crc32c = (\<lambda>b. of_nat (demo_sum b)),
     crc32c_append = (\<lambda>c b. of_nat (foldl (\<lambda>acc x. (acc * 257 + of_char x + 1) mod 65521) (unat c) b)),
     number_to_string = demo_number,
     json_string = (\<lambda>s. CHR 0x22 # escape_chars s @ [CHR 0x22]),
     uuid_to_string = demo_uuid_string,
     uuid_simple = demo_uuid_string,
     uuid_parse_str = demo_uuid_parse\<rparr>"

lemma escape_chars_split:
  "escape_chars s @ CHR 0x22 # r = escape_chars s' @ CHR 0x22 # r' \<Longrightarrow> s = s' \<and> r = r'"
proof (induction s arbitrary: s')
  case Nil
  then show ?case by (cases s') (auto split: if_splits)
next
  case (Cons c cs)
  then show ?case by (cases s') (auto split: if_splits)
qed

lemma nat_to_string_code: "c \<in> set (nat_to_string n) \<Longrightarrow> 48 \<le> (of_char c :: nat) \<and> of_char c \<le> (57 :: nat)"
  using nat_to_radix_chars [of 10 c n] by (auto simp: nat_to_string_def of_char_digit_char)

lemma int_to_string_code:
  "c \<in> set (int_to_string i) \<Longrightarrow> (of_char c :: nat) = 45 \<or> 48 \<le> (of_char c :: nat) \<and> of_char c \<le> (57 :: nat)"
  by (auto simp: int_to_string_def dest: nat_to_string_code split: if_splits)

lemma nat_to_string_hd: "CHR ''-'' # s \<noteq> nat_to_string n"
proof
  assume "CHR ''-'' # s = nat_to_string n"
  then have "CHR ''-'' \<in> set (nat_to_string n)" by (metis list.set_intros(1))
  then show False using nat_to_string_code [of "CHR ''-''" n] by simp
qed

lemma int_to_string_inj: "int_to_string i = int_to_string j \<Longrightarrow> i = j"
  using nat_to_string_hd nat_to_string_hd [symmetric]
  by (auto simp: int_to_string_def nat_to_string_def nat_to_radix_inj split: if_splits)

lemma int_to_string_no_e: "CHR ''e'' # s \<noteq> int_to_string i"
proof
  assume "CHR ''e'' # s = int_to_string i"
  then have "CHR ''e'' \<in> set (int_to_string i)" by (metis list.set_intros(1))
  then show False using int_to_string_code [of "CHR ''e''" i] by simp
qed

lemma int_to_string_nonempty [simp]: "int_to_string i \<noteq> []"
  by (simp add: int_to_string_def nat_to_string_def)

lemma demo_number_token: "demo_number n \<noteq> [] \<and> list_all number_char (demo_number n)"
  by (cases n) (auto simp: list_all_iff number_char_def Let_def dest!: int_to_string_code nat_to_string_code)

lemma demo_number_inj: "demo_number m = demo_number n \<Longrightarrow> m = n"
  using int_to_string_no_e int_to_string_no_e [symmetric] int_to_string_inj
  by (cases m; cases n) (auto simp: nat_to_string_def nat_to_radix_inj word_unat_eq_iff)

lemma demo_json_tokens_ok: "json_tokens_ok demo_ext"
  unfolding json_tokens_ok_def
proof (intro conjI allI impI)
  fix s s' r r'
  assume "json_string demo_ext s @ r = json_string demo_ext s' @ r'"
  then have "escape_chars s @ CHR 0x22 # r = escape_chars s' @ CHR 0x22 # r'"
    by (simp add: demo_ext_def)
  then show "s = s'" and "r = r'" using escape_chars_split by blast+
qed (use demo_number_token demo_number_inj in \<open>simp_all add: demo_ext_def\<close>)

lemma demo_sha256_ok: "sha256_ok demo_ext"
  by (simp add: sha256_ok_def demo_ext_def demo_sha256_def)

lemma demo_uuid_no_underscore: "CHR ''_'' \<notin> set (demo_uuid_string u)"
  using nat_to_radix_char_code [of 16 "CHR ''_''" "unat u"] by (auto simp: demo_uuid_string_def)

lemma demo_uuid_ok: "uuid_ok demo_ext"
  unfolding uuid_ok_def
proof (intro conjI allI injI)
  fix u v :: uuid
  show "CHR ''_'' \<notin> set (uuid_simple demo_ext u)"
    by (simp add: demo_ext_def demo_uuid_no_underscore)
  show "uuid_parse_str demo_ext (uuid_simple demo_ext u) = Some u"
    by (simp add: demo_ext_def demo_uuid_parse_def demo_uuid_string_def digits_value_radix)
  assume "uuid_to_string demo_ext u = uuid_to_string demo_ext v"
  then show "u = v"
    by (simp add: demo_ext_def demo_uuid_string_def nat_to_radix_inj word_unat_eq_iff)
qed

lemmas demo_ok = demo_json_tokens_ok demo_sha256_ok demo_uuid_ok

end
