(* ===== verification/Digest.thy ===== *)
theory Digest
  imports External "HOL-Library.Multiset"
begin

text \<open>
  \<open>calod-ledger/src/digest.rs\<close>: canonical JSON bytes, hexadecimal and SHA-256 renderings.

  The canonical form is what the idempotency digest, the event hash chain and checkpoint
  digests commit to.  \<open>canonical_json_into\<close> follows the source's loops over the output
  buffer; \<open>canon\<close> is the declarative form it is shown equal to.  The main results are that
  the canonical form depends on an object's entries and not on their order, and that it is
  injective up to that order.
\<close>

section \<open>Canonical JSON\<close>

definition GENESIS_HASH :: string where
  "GENESIS_HASH = ''sha256:e3b0c44298fc1c149afbf4c8996fb92427ae41e4649b934ca495991b7852b855''"

lemma size_map_of: "map_of m k = Some v \<Longrightarrow> size v \<le> size_list (size_prod (\<lambda>_. 0) size) m"
  by (induction m) (auto split: if_splits)

function canonical_json_into :: "ext \<Rightarrow> json \<Rightarrow> bytes \<Rightarrow> bytes"
  and canonical_items :: "ext \<Rightarrow> nat \<Rightarrow> json list \<Rightarrow> bytes \<Rightarrow> bytes"
  and canonical_entries :: "ext \<Rightarrow> nat \<Rightarrow> string list \<Rightarrow> (string \<times> json) list \<Rightarrow> bytes \<Rightarrow> bytes" where
  "canonical_json_into X JNull out = out @ ''null''"
| "canonical_json_into X (JBool b) out = out @ (if b then ''true'' else ''false'')"
| "canonical_json_into X (JNumber n) out = out @ number_to_string X n"
| "canonical_json_into X (JString s) out = out @ json_string X s"
| "canonical_json_into X (JArray items) out = canonical_items X 0 items (out @ ''['') @ '']''"
| "canonical_json_into X (JObject m) out =
     canonical_entries X 0 (sort (map fst m)) m (out @ ''{'') @ ''}''"
| "canonical_items X i [] out = out"
| "canonical_items X i (item # items) out =
     canonical_items X (Suc i) items
       (canonical_json_into X item (if 0 < i then out @ '','' else out))"
| "canonical_entries X i [] m out = out"
| "canonical_entries X i (k # ks) m out =
     canonical_entries X (Suc i) ks m
       (case map_of m k of
          None \<Rightarrow> out \<comment> \<open>\<open>map[*key]\<close> would panic; the keys come from the map itself\<close>
        | Some v \<Rightarrow> canonical_json_into X v
            ((if 0 < i then out @ '','' else out) @ json_string X k @ '':''))"
  by pat_completeness auto
termination
  by (relation "measures [\<lambda>a. case a of Inl (X, v, out) \<Rightarrow> 2 * size v
        | Inr (Inl (X, i, xs, out)) \<Rightarrow> 2 * size_list size xs
        | Inr (Inr (X, i, ks, m, out)) \<Rightarrow> Suc (2 * size_list (size_prod (\<lambda>_. 0) size) m),
      \<lambda>a. case a of Inl _ \<Rightarrow> 0
        | Inr (Inl (X, i, xs, out)) \<Rightarrow> length xs
        | Inr (Inr (X, i, ks, m, out)) \<Rightarrow> length ks]")
    (auto dest!: size_map_of)

definition canonical_json :: "ext \<Rightarrow> json \<Rightarrow> bytes" where
  "canonical_json X v = canonical_json_into X v []"

section \<open>The declarative form\<close>

fun join_comma :: "bytes list \<Rightarrow> bytes" where
  "join_comma [] = []"
| "join_comma [x] = x"
| "join_comma (x # y # zs) = x @ CHR '','' # join_comma (y # zs)"

definition canon_entry :: "ext \<Rightarrow> string \<times> bytes \<Rightarrow> bytes" where
  "canon_entry X e = json_string X (fst e) @ '':'' @ snd e"

fun canon :: "ext \<Rightarrow> json \<Rightarrow> bytes" where
  "canon X JNull = ''null''"
| "canon X (JBool b) = (if b then ''true'' else ''false'')"
| "canon X (JNumber n) = number_to_string X n"
| "canon X (JString s) = json_string X s"
| "canon X (JArray items) = ''['' @ join_comma (map (canon X) items) @ '']''"
| "canon X (JObject m) =
     ''{'' @ join_comma (map (canon_entry X) (sort_key fst (map (\<lambda>(k, v). (k, canon X v)) m))) @ ''}''"

text \<open>A value as \<open>serde_json\<close> holds it: finite numbers, one entry per object key.\<close>

fun json_ok :: "json \<Rightarrow> bool" where
  "json_ok (JNumber n) = number_ok n"
| "json_ok (JArray items) = (\<forall>v \<in> set items. json_ok v)"
| "json_ok (JObject m) = (distinct (map fst m) \<and> (\<forall>e \<in> set m. json_ok (snd e)))"
| "json_ok _ = True"

text \<open>The value with every object's entries in key order: what the value means as JSON.\<close>

fun norm_json :: "json \<Rightarrow> json" where
  "norm_json (JArray items) = JArray (map norm_json items)"
| "norm_json (JObject m) = JObject (sort_key fst (map (\<lambda>(k, v). (k, norm_json v)) m))"
| "norm_json v = v"

lemma sort_key_map_snd:
  "sort_key fst (map (\<lambda>(k, v). (k, f v)) m) = map (\<lambda>(k, v). (k, f v)) (sort_key fst m)"
proof (induction m)
  case (Cons e m)
  have ins: "insort_key fst (fst e, f (snd e)) (map (\<lambda>(k, v). (k, f v)) xs) =
      map (\<lambda>(k, v). (k, f v)) (insort_key fst e xs)" for xs
    by (induction xs) (auto split: prod.splits)
  from Cons ins [of "sort_key fst m"] show ?case
    by (auto split: prod.splits)
qed simp

lemma map_fst_sort_key: "map fst (sort_key fst m) = sort (map fst m)"
proof -
  have ins: "map fst (insort_key fst e xs) = insort (fst e) (map fst xs)" for e and xs :: "('a \<times> 'b) list"
    by (induction xs) auto
  show ?thesis by (induction m) (auto simp: ins)
qed

lemma set_sort_key_entries: "set (sort_key fst m) = set m"
  by simp

lemma lookup_sort_key:
  assumes "distinct (map fst m)"
  shows "map (\<lambda>k. (k, the (map_of m k))) (sort (map fst m)) = sort_key fst m"
proof -
  have "map (\<lambda>k. (k, the (map_of m k))) (map fst (sort_key fst m)) = map id (sort_key fst m)"
    unfolding map_map by (rule map_cong) (use assms in auto)
  then show ?thesis by (simp add: map_fst_sort_key)
qed

text \<open>The loops append the declarative form to the buffer.\<close>

definition lead_comma :: "nat \<Rightarrow> bytes list \<Rightarrow> bytes" where
  "lead_comma i bs = (if 0 < i \<and> bs \<noteq> [] then CHR '','' # join_comma bs else join_comma bs)"

lemma lead_comma_Cons: "lead_comma i (b # bs) = (if 0 < i then '','' else []) @ b @ lead_comma (Suc i) bs"
  by (cases bs) (auto simp: lead_comma_def)

lemma lead_comma_Nil [simp]: "lead_comma i [] = []"
  by (simp add: lead_comma_def)

lemma lead_comma_0 [simp]: "lead_comma 0 bs = join_comma bs"
  by (simp add: lead_comma_def)

lemma canonical_into_canon:
  shows "json_ok v \<Longrightarrow> canonical_json_into X v out = out @ canon X v"
    and "(\<forall>v \<in> set items. json_ok v) \<Longrightarrow>
      canonical_items X i items out = out @ lead_comma i (map (canon X) items)"
    and "(\<forall>e \<in> set m. json_ok (snd e)) \<Longrightarrow> set ks \<subseteq> fst ` set m \<Longrightarrow>
      canonical_entries X i ks m out =
        out @ lead_comma i (map (\<lambda>k. canon_entry X (k, canon X (the (map_of m k)))) ks)"
proof (induction X v out and X i items out and X i ks m out
    rule: canonical_json_into_canonical_items_canonical_entries.induct)
  case (6 X m out)
  have "map (\<lambda>k. canon_entry X (k, canon X (the (map_of m k)))) (sort (map fst m)) =
      map (canon_entry X) (map (\<lambda>(k, v). (k, canon X v)) (map (\<lambda>k. (k, the (map_of m k))) (sort (map fst m))))"
    by simp
  also have "\<dots> = map (canon_entry X) (sort_key fst (map (\<lambda>(k, v). (k, canon X v)) m))"
    using 6(2) by (simp only: lookup_sort_key json_ok.simps sort_key_map_snd)
  finally show ?case
    using 6 by simp
next
  case (10 X i k ks m out)
  then have "map_of m k \<noteq> None" by (simp add: map_of_eq_None_iff)
  then obtain v where v: "map_of m k = Some v" by blast
  then have "json_ok v" using 10(3) map_of_SomeD by fastforce
  with 10(1) v have "canonical_json_into X v out' = out' @ canon X v"
    if "out' = (if 0 < i then out @ '','' else out) @ json_string X k @ '':''" for out'
    using that by blast
  with 10(2-4) v show ?case by (simp add: lead_comma_Cons canon_entry_def)
qed (simp_all add: lead_comma_Cons)

lemma canonical_json_canon: "json_ok v \<Longrightarrow> canonical_json X v = canon X v"
  by (simp add: canonical_json_def canonical_into_canon)

section \<open>Injectivity\<close>

text \<open>What may follow a value inside a document: nothing, or a separator or closing bracket.\<close>

definition delimited :: "bytes \<Rightarrow> bool" where
  "delimited r \<longleftrightarrow> (case r of [] \<Rightarrow> True | c # _ \<Rightarrow> c \<in> {CHR '','', CHR '']'', CHR ''}''})"

lemma delimited_simps [simp]:
  "delimited []" "delimited (CHR '','' # r)" "delimited (CHR '']'' # r)" "delimited (CHR ''}'' # r)"
  by (simp_all add: delimited_def)

lemma number_split:
  assumes "list_all number_char s" "list_all number_char s'" "delimited r" "delimited r'"
    and "s @ r = s' @ r'"
  shows "s = s' \<and> r = r'"
proof -
  have tw: "takeWhile number_char (t @ q) = t" if "list_all number_char t" "delimited q" for t q
    using that by (cases q) (auto simp: delimited_def list_all_iff number_char_def Let_def takeWhile_append2)
  from assms tw [of s r] tw [of s' r'] have "s = s'" by simp
  with assms(5) show ?thesis by simp
qed

lemma join_comma_split:
  assumes "\<And>x y r r'. x \<in> set xs \<Longrightarrow> y \<in> set ys \<Longrightarrow> delimited r \<Longrightarrow> delimited r' \<Longrightarrow>
      enc x @ r = enc y @ r' \<Longrightarrow> nf x = nf y \<and> r = r'"
    and "\<And>x. x \<in> set xs \<union> set ys \<Longrightarrow> \<exists>c t. enc x = c # t \<and> c \<noteq> cl"
    and "cl \<in> {CHR '']'', CHR ''}''}"
    and "join_comma (map enc xs) @ cl # r = join_comma (map enc ys) @ cl # r'"
  shows "map nf xs = map nf ys \<and> r = r'"
  using assms
proof (induction xs arbitrary: ys)
  case Nil
  have "ys = []"
  proof (cases ys)
    case (Cons y ys')
    then obtain c t where "enc y = c # t" "c \<noteq> cl" using Nil(2) [of y] by auto
    with Nil(4) Cons show ?thesis by (cases ys') auto
  qed
  with Nil(4) show ?case by simp
next
  case (Cons x xs)
  obtain c t where cx: "enc x = c # t" "c \<noteq> cl" using Cons.prems(2) [of x] by auto
  with Cons.prems(4) have "ys \<noteq> []" by (cases xs) auto
  then obtain y ys' where ys: "ys = y # ys'" by (cases ys) auto
  define tl where "tl zs q = (case zs of [] \<Rightarrow> cl # q | _ \<Rightarrow> CHR '','' # join_comma (map enc zs) @ cl # q)"
    for zs and q
  have jc: "join_comma (map enc (z # zs)) @ cl # q = enc z @ tl zs q" for z zs q
    by (cases zs) (auto simp: tl_def)
  have del: "delimited (tl zs q)" for zs q
    using Cons.prems(3) by (cases zs) (auto simp: tl_def)
  from Cons.prems(4) have "enc x @ tl xs r = enc y @ tl ys' r'"
    unfolding ys jc .
  with Cons.prems(1) [of x y "tl xs r" "tl ys' r'"] del ys
  have nf: "nf x = nf y" and eq: "tl xs r = tl ys' r'" by auto
  from eq Cons.prems(3) have "join_comma (map enc xs) @ cl # r = join_comma (map enc ys') @ cl # r'"
    by (cases xs; cases ys') (auto simp: tl_def)
  then have "map nf xs = map nf ys' \<and> r = r'"
    using Cons.prems(1-3) ys by (intro Cons.IH) auto
  with nf ys show ?case by simp
qed

text \<open>The first byte tells the kinds of value apart.\<close>

fun json_tag :: "json \<Rightarrow> nat" where
  "json_tag JNull = 0"
| "json_tag (JBool b) = (if b then 1 else 2)"
| "json_tag (JNumber n) = 3"
| "json_tag (JString s) = 4"
| "json_tag (JArray xs) = 5"
| "json_tag (JObject m) = 6"

definition byte_tag :: "char \<Rightarrow> nat" where
  "byte_tag c = (if c = CHR ''n'' then 0 else if c = CHR ''t'' then 1 else if c = CHR ''f'' then 2
     else if number_char c then 3 else if c = CHR 0x22 then 4 else if c = CHR ''['' then 5
     else if c = CHR ''{'' then 6 else 7)"

lemma canon_tag:
  assumes "json_tokens_ok X" "json_ok v"
  shows "\<exists>c t. canon X v = c # t \<and> byte_tag c = json_tag v"
proof (cases v)
  case (JNumber n)
  with assms number_token [of X n] show ?thesis
    by (cases "number_to_string X n") (auto simp: number_char_def Let_def byte_tag_def)
next
  case (JString s)
  with string_token_hd [OF assms(1), of s] show ?thesis by (auto simp: byte_tag_def number_char_def)
qed (auto simp: byte_tag_def number_char_def)

lemma canon_hd:
  assumes "json_tokens_ok X" "json_ok v" "cl \<in> {CHR '']'', CHR ''}''}"
  shows "\<exists>c t. canon X v = c # t \<and> c \<noteq> cl"
proof -
  obtain c t where "canon X v = c # t" "byte_tag c = json_tag v"
    using canon_tag [OF assms(1,2)] by blast
  moreover have "byte_tag cl = 7"
    using assms(3) by (auto simp: byte_tag_def number_char_def)
  moreover have "json_tag v < 7" by (cases v) simp_all
  ultimately show ?thesis by auto
qed

lemma canon_same_tag:
  assumes "json_tokens_ok X" "json_ok v" "json_ok w" "canon X v @ r = canon X w @ r'"
  shows "json_tag v = json_tag w"
  using canon_tag [OF assms(1,2)] canon_tag [OF assms(1,3)] assms(4) by auto

lemma canon_object:
  "canon X (JObject m) @ r =
     CHR ''{'' # join_comma (map (\<lambda>e. canon_entry X (fst e, canon X (snd e))) (sort_key fst m)) @ CHR ''}'' # r"
  by (simp add: sort_key_map_snd case_prod_beta comp_def)

lemma norm_object:
  "norm_json (JObject m) = JObject (map (\<lambda>e. (fst e, norm_json (snd e))) (sort_key fst m))"
  by (simp add: sort_key_map_snd case_prod_beta)

lemma canon_split:
  assumes X: "json_tokens_ok X"
  shows "json_ok v \<Longrightarrow> json_ok w \<Longrightarrow> delimited r \<Longrightarrow> delimited r' \<Longrightarrow>
    canon X v @ r = canon X w @ r' \<Longrightarrow> norm_json v = norm_json w \<and> r = r'"
proof (induction v arbitrary: w r r')
  case (JNumber n)
  obtain n' where w: "w = JNumber n'"
    using canon_same_tag [OF X JNumber(1,2,5)] by (cases w) (auto split: if_splits)
  with JNumber number_token [OF X, of n] number_token [OF X, of n'] number_token_inj [OF X, of n n']
    number_split [of "number_to_string X n" "number_to_string X n'" r r']
  show ?case by auto
next
  case (JString s)
  obtain s' where w: "w = JString s'"
    using canon_same_tag [OF X JString(1,2,5)] by (cases w) (auto split: if_splits)
  with JString string_token_split [OF X, of s r s' r'] show ?case by simp
next
  case (JArray xs)
  obtain ys where w: "w = JArray ys"
    using canon_same_tag [OF X JArray.prems(1,2,5)] by (cases w) (auto split: if_splits)
  have "map norm_json xs = map norm_json ys \<and> r = r'"
  proof (rule join_comma_split [where enc = "canon X" and cl = "CHR '']''"])
    fix x y q q'
    assume "x \<in> set xs" "y \<in> set ys" "delimited q" "delimited q'" "canon X x @ q = canon X y @ q'"
    with w JArray.prems(1,2) show "norm_json x = norm_json y \<and> q = q'"
      by (intro JArray.IH) auto
  qed (use JArray.prems w canon_hd [OF X] in auto)
  with w show ?case by simp
next
  case (JObject m)
  obtain m' where w: "w = JObject m'"
    using canon_same_tag [OF X JObject.prems(1,2,5)] by (cases w) (auto split: if_splits)
  let ?enc = "\<lambda>e. canon_entry X (fst e, canon X (snd e))"
  let ?nf = "\<lambda>e. (fst e, norm_json (snd e))"
  have "map ?nf (sort_key fst m) = map ?nf (sort_key fst m') \<and> r = r'"
  proof (rule join_comma_split [where enc = ?enc and cl = "CHR ''}''"])
    fix e e' q q'
    assume e: "e \<in> set (sort_key fst m)" "e' \<in> set (sort_key fst m')" "delimited q" "delimited q'"
      and eq: "?enc e @ q = ?enc e' @ q'"
    from eq have "fst e = fst e' \<and> canon X (snd e) @ q = canon X (snd e') @ q'"
      using string_token_split [OF X, of "fst e" _ "fst e'"] by (fastforce simp: canon_entry_def)
    with e JObject w show "?nf e = ?nf e' \<and> q = q'"
      by (metis (no_types, lifting) json_ok.simps(3) set_sort snds.intros surjective_pairing)
  next
    fix e show "\<exists>c t. ?enc e = c # t \<and> c \<noteq> CHR ''}''"
      using string_token_hd [OF X, of "fst e"] by (auto simp: canon_entry_def)
  next
    show "join_comma (map ?enc (sort_key fst m)) @ CHR ''}'' # r = join_comma (map ?enc (sort_key fst m')) @ CHR ''}'' # r'"
      using JObject.prems(5) unfolding w canon_object by simp
  qed simp
  with w show ?case unfolding w norm_object by blast
next
  case JNull
  then have "w = JNull"
    using canon_same_tag [OF X JNull(1,2,5)] by (cases w) (auto split: if_splits)
  with JNull show ?case by simp
next
  case (JBool b)
  then have "w = JBool b"
    using canon_same_tag [OF X JBool(1,2,5)] by (cases w) (auto split: if_splits)
  with JBool show ?case by simp
qed

lemma canon_norm: "canon X (norm_json v) = canon X v"
proof (induction v)
  case (JArray xs)
  then show ?case by (simp add: comp_def cong: map_cong)
next
  case (JObject m)
  from JObject have IH: "\<And>e. e \<in> set m \<Longrightarrow> canon X (norm_json (snd e)) = canon X (snd e)"
    by (metis snds.intros)
  have srt: "sort_key fst (map (\<lambda>e. (fst e, norm_json (snd e))) (sort_key fst m)) =
      map (\<lambda>e. (fst e, norm_json (snd e))) (sort_key fst m)"
    by (rule sort_key_id_if_sorted) (simp add: comp_def)
  have "map (\<lambda>e. canon_entry X (fst e, canon X (norm_json (snd e)))) (sort_key fst m) =
      map (\<lambda>e. canon_entry X (fst e, canon X (snd e))) (sort_key fst m)"
    by (rule map_cong) (use IH in auto)
  then have "canon X (norm_json (JObject m)) @ [] = canon X (JObject m) @ []"
    unfolding norm_object canon_object srt map_map by (simp only: comp_def fst_conv snd_conv)
  then show ?case by simp
qed simp_all

text \<open>Entry order does not matter to the meaning of a value.\<close>

lemma norm_json_perm:
  assumes "mset m = mset m'" "distinct (map fst m)"
  shows "norm_json (JObject m) = norm_json (JObject m')"
proof -
  have "sort_key fst m = sort_key fst m'"
    using assms by (intro sort_key_inj_key_eq) (auto simp: distinct_map)
  then show ?thesis by (simp add: norm_object del: norm_json.simps)
qed

section \<open>Hexadecimal and digests\<close>

fun hex_encode :: "bytes \<Rightarrow> string" where
  "hex_encode [] = []"
| "hex_encode (b # bs) =
     ''0123456789abcdef'' ! ((of_char b :: nat) div 16) #
     ''0123456789abcdef'' ! ((of_char b :: nat) mod 16) # hex_encode bs"

fun hex_pairs :: "string \<Rightarrow> bytes option" where
  "hex_pairs (h # l # cs) =
     (case to_digit 16 h of None \<Rightarrow> None
      | Some hi \<Rightarrow> (case to_digit 16 l of None \<Rightarrow> None
         | Some lo \<Rightarrow> (case hex_pairs cs of None \<Rightarrow> None
            | Some bs \<Rightarrow> Some (char_of (hi * 16 + lo) # bs))))"
| "hex_pairs _ = Some []"

definition hex_decode_32 :: "string \<Rightarrow> bytes option" where
  "hex_decode_32 hex = (if length hex \<noteq> 64 then None else hex_pairs hex)"

definition sha256_digest :: "ext \<Rightarrow> bytes \<Rightarrow> string" where
  "sha256_digest X bs = ''sha256:'' @ hex_encode (sha256 X bs)"

definition digest_bytes :: "string \<Rightarrow> bytes option" where
  "digest_bytes rendered =
     (case strip_prefix ''sha256:'' rendered of None \<Rightarrow> None | Some hex \<Rightarrow> hex_decode_32 hex)"

definition input_digest :: "ext \<Rightarrow> json \<Rightarrow> string" where
  "input_digest X v = sha256_digest X (canonical_json X v)"

lemma hex_char: "n < 16 \<Longrightarrow> ''0123456789abcdef'' ! n = digit_char n"
proof -
  assume "n < 16"
  then have "n \<in> set [0..<16]" by simp
  moreover have "\<forall>n \<in> set [0..<16]. ''0123456789abcdef'' ! n = digit_char n" by code_simp
  ultimately show ?thesis by blast
qed

lemma length_hex_encode [simp]: "length (hex_encode bs) = 2 * length bs"
  by (induction bs) auto

lemma hex_pairs_encode [simp]: "hex_pairs (hex_encode bs) = Some bs"
proof (induction bs)
  case (Cons b bs)
  have n: "(of_char b :: nat) < 256" by simp
  then have "(of_char b :: nat) div 16 < 16" by arith
  then show ?case
    using Cons by (simp add: hex_char to_digit_digit_char del: of_char_mod_256)
qed simp

lemma hex_encode_inj: "hex_encode a = hex_encode b \<longleftrightarrow> a = b"
  by (metis hex_pairs_encode option.inject)

text \<open>A rendered digest decodes to the digest's raw bytes.\<close>

lemma digest_bytes_sha256: "sha256_ok X \<Longrightarrow> digest_bytes (sha256_digest X bs) = Some (sha256 X bs)"
  by (simp add: digest_bytes_def sha256_digest_def strip_prefix_def hex_decode_32_def sha256_len)

lemma sha256_digest_inj: "sha256_digest X a = sha256_digest X b \<Longrightarrow> a = b \<or> sha256_collision X"
  by (auto simp: sha256_digest_def hex_encode_inj sha256_collision_def)

lemma canonical_json_inj:
  assumes "json_tokens_ok X" "json_ok v" "json_ok w"
  shows "canonical_json X v = canonical_json X w \<longleftrightarrow> norm_json v = norm_json w"
  using canon_split [OF assms, of "[]" "[]"] canon_norm [of X v] canon_norm [of X w] assms(2,3)
  by (auto simp: canonical_json_canon)

section \<open>Properties\<close>



text \<open>
  C18: The streaming serializer is the declarative canonical form: whatever is already in the
  buffer, \<open>canonical_json_into\<close> appends the rendering with sorted keys and no white space,
  and rendering a value with its keys already sorted gives the same text.
\<close>

theorem canonical_json_into_correct:
  assumes "json_ok v"
  shows "canonical_json_into X v out = out @ canon X v \<and> canon X (norm_json v) = canon X v"
  using canonical_into_canon(1) [OF assms] canon_norm by blast

theorem canonical_json_into_correct_witness:
  "canonical_json_into demo_ext (JObject [(''b'', JNull), (''a'', JBool True)]) ''>'' =
     ''>'' @ canon demo_ext (JObject [(''b'', JNull), (''a'', JBool True)])"
  using canonical_json_into_correct [of "JObject [(''b'', JNull), (''a'', JBool True)]" demo_ext "''>''"]
  by simp

end
