(* ===== verification/Timestamp.thy ===== *)
theory Timestamp
  imports Rust_Std
begin

text \<open>
  The RFC 3339 rendering of \<open>calod-ledger/src/digest.rs\<close> (\<open>civil_from_days\<close>,
  \<open>format_timestamp\<close>).  The day algorithm is shown to compute the proleptic Gregorian date
  (\<open>days_from_civil\<close> counts the days of a date from 1970-01-01), and the rendering to lose
  nothing: distinct instants have distinct renderings.
\<close>

section \<open>The code\<close>

definition civil_from_days :: "int \<Rightarrow> int \<times> int \<times> int" where
  "civil_from_days days =
     (let z = days + 719468;
          era = z div 146097;
          doe = z mod 146097;
          yoe = (doe - doe div 1460 + doe div 36524 - doe div 146096) div 365;
          year = yoe + era * 400;
          doy = doe - (365 * yoe + yoe div 4 - yoe div 100);
          mp = (5 * doy + 2) div 153;
          day = doy - (153 * mp + 2) div 5 + 1;
          month = (if mp < 10 then mp + 3 else mp - 9)
      in (if month \<le> 2 then year + 1 else year, month, day))"

text \<open>\<open>{n:0w}\<close> on a signed number: the sign counts towards the width.\<close>

definition pad_int :: "nat \<Rightarrow> int \<Rightarrow> string" where
  "pad_int w n = (if n < 0 then CHR ''-'' # pad_zero (w - 1) (nat_to_string (nat (- n)))
                  else pad_zero w (nat_to_string (nat n)))"

definition format_timestamp :: "int \<Rightarrow> string" where
  "format_timestamp ms =
     (let secs = ms div 1000;
          sub_ms = ms mod 1000;
          days = secs div 86400;
          secs_of_day = secs mod 86400;
          (year, month, day) = civil_from_days days;
          hour = secs_of_day div 3600;
          minute = secs_of_day mod 3600 div 60;
          second = secs_of_day mod 60;
          head = pad_int 4 year @ ''-'' @ pad_int 2 month @ ''-'' @ pad_int 2 day @ ''T'' @
                 pad_int 2 hour @ '':'' @ pad_int 2 minute @ '':'' @ pad_int 2 second
      in if sub_ms = 0 then head @ ''Z'' else head @ ''.'' @ pad_int 3 sub_ms @ ''Z'')"

section \<open>The Gregorian calendar\<close>

definition is_leap :: "int \<Rightarrow> bool" where
  "is_leap y \<longleftrightarrow> y mod 4 = 0 \<and> (y mod 100 \<noteq> 0 \<or> y mod 400 = 0)"

definition month_lengths :: "int \<Rightarrow> int list" where
  "month_lengths y = [31, if is_leap y then 29 else 28, 31, 30, 31, 30, 31, 31, 30, 31, 30, 31]"

text \<open>Leap years up to \<open>n\<close>, and the days from 1970-01-01 to a date.\<close>

definition leaps :: "int \<Rightarrow> int" where
  "leaps n = n div 4 - n div 100 + n div 400"

definition days_from_civil :: "int \<Rightarrow> int \<Rightarrow> int \<Rightarrow> int" where
  "days_from_civil y m d =
     365 * (y - 1970) + leaps (y - 1) - leaps 1969 +
     sum_list (take (nat (m - 1)) (month_lengths y)) + d - 1"

definition valid_date :: "int \<Rightarrow> int \<Rightarrow> int \<Rightarrow> bool" where
  "valid_date y m d \<longleftrightarrow> 1 \<le> m \<and> m \<le> 12 \<and> 1 \<le> d \<and> d \<le> month_lengths y ! nat (m - 1)"

lemma div_step:
  fixes y n :: int
  assumes "0 < n"
  shows "y div n = (y - 1) div n + (if n dvd y then 1 else 0)"
proof -
  define q r where "q = (y - 1) div n" and "r = (y - 1) mod n"
  have y: "y = q * n + (r + 1)" and r: "0 \<le> r" "r < n"
    using assms by (auto simp: q_def r_def algebra_simps minus_mod_eq_mult_div [symmetric])
  show ?thesis
  proof (cases "r + 1 = n")
    case True
    then have "y = (q + 1) * n" using y by (simp add: algebra_simps)
    then have "y div n = q + 1" using assms by simp
    moreover have "n dvd y" using \<open>y = (q + 1) * n\<close> by simp
    ultimately show ?thesis by (simp add: q_def)
  next
    case False
    then have "y div n = q" "y mod n = r + 1"
      using y r assms by (simp_all add: div_pos_pos_trivial mod_pos_pos_trivial)
    then show ?thesis using r by (auto simp: q_def [symmetric] dvd_eq_mod_eq_0)
  qed
qed

text \<open>The spec counts what it should: a year has 365 days, and one more when it is a leap year.\<close>

lemma leap_count:
  fixes a b c a' b' c' :: int
  assumes "a = a' + (if P then 1 else 0)" "b = b' + (if Q then 1 else 0)" "c = c' + (if R then 1 else 0)"
    and "R \<Longrightarrow> Q" "Q \<Longrightarrow> P"
  shows "(a - b + c) - (a' - b' + c') = (if P \<and> (\<not> Q \<or> R) then 1 else 0)"
  using assms by (cases P; cases Q; cases R) auto

lemma leaps_step: "leaps y - leaps (y - 1) = (if is_leap y then 1 else 0)"
  unfolding leaps_def is_leap_def mod_eq_0_iff_dvd
  by (rule leap_count; (rule div_step)?) (auto intro: dvd_trans [of 100 400] dvd_trans [of 4 100])

lemma year_length:
  "days_from_civil (y + 1) 1 1 - days_from_civil y 1 1 = sum_list (month_lengths y)"
  using leaps_step [of y] by (simp add: days_from_civil_def month_lengths_def split: if_splits)

section \<open>Correctness of the day algorithm\<close>

text \<open>Day of era to year of era: monotone, so the year boundaries decide it.\<close>

definition yoe_num :: "int \<Rightarrow> int" where
  "yoe_num doe = doe - doe div 1460 + doe div 36524 - doe div 146096"

definition year_start :: "int \<Rightarrow> int" where
  "year_start y = 365 * y + leaps y"

lemma yoe_num_step: "yoe_num (a - 1) \<le> yoe_num a"
proof -
  have c: "(146096::int) dvd a \<Longrightarrow> 36524 dvd a" by (rule dvd_trans [of 36524 146096]) simp
  have "p \<le> q" if "p = (a - 1) - x + y - z" "q = a - (x + (if P then 1 else 0)) + (y + (if Q then 1 else 0)) -
      (z + (if R then 1 else 0))" "R \<Longrightarrow> Q" for p q x y z :: int and P Q R
    using that by (cases P; cases Q; cases R) auto
  from this [OF refl refl c] show ?thesis
    unfolding yoe_num_def div_step [of 1460 a, simplified] div_step [of 36524 a, simplified]
      div_step [of 146096 a, simplified] .
qed

lemma yoe_num_mono: "a \<le> b \<Longrightarrow> yoe_num a \<le> yoe_num b"
proof (induction b rule: int_ge_induct)
  case (step b)
  with yoe_num_step [of "b + 1"] show ?case by simp
qed simp

lemma year_boundaries:
  "\<forall>y \<in> set [0..399]. 365 * y \<le> yoe_num (year_start y) \<and>
     yoe_num (year_start (y + 1) - 1) < 365 * (y + 1)"
  by code_simp

lemma year_of_day:
  assumes "0 \<le> doe" "doe < 146097"
  obtains n where "n < 400" "year_start (int n) \<le> doe" "doe < year_start (int n + 1)"
proof -
  define n where "n = Max {k. k < 400 \<and> year_start (int k) \<le> doe}"
  let ?S = "{k. k < 400 \<and> year_start (int k) \<le> doe}"
  have fin: "finite ?S" by (rule finite_subset [of _ "{..<400}"]) auto
  have ne: "0 \<in> ?S" using assms by (simp add: year_start_def leaps_def)
  have n: "n \<in> ?S" using Max_in [OF fin] ne n_def by blast
  have "doe < year_start (int n + 1)"
  proof (cases "n = 399")
    case True
    then show ?thesis using assms by (simp add: year_start_def leaps_def)
  next
    case False
    have "Suc n \<notin> ?S"
    proof
      assume "Suc n \<in> ?S"
      from Max_ge [OF fin this] show False by (simp add: n_def)
    qed
    with False n show ?thesis by (auto simp: add.commute)
  qed
  with n that show thesis by blast
qed

lemma yoe_correct:
  assumes "0 \<le> doe" "doe < 146097"
  shows "\<exists>n<400. yoe_num doe div 365 = int n \<and> year_start (int n) \<le> doe \<and> doe < year_start (int n + 1)"
proof -
  obtain n where n: "n < 400" "year_start (int n) \<le> doe" "doe < year_start (int n + 1)"
    using year_of_day [OF assms] .
  have "int n \<in> set [0..399]" using n by simp
  then have b: "365 * int n \<le> yoe_num (year_start (int n))"
    "yoe_num (year_start (int n + 1) - 1) < 365 * (int n + 1)"
    using year_boundaries by blast+
  have "365 * int n \<le> yoe_num doe" using b(1) yoe_num_mono [OF n(2)] by simp
  moreover have "yoe_num doe < 365 * (int n + 1)"
    using b(2) yoe_num_mono [of doe "year_start (int n + 1) - 1"] n(3) by simp
  ultimately have "yoe_num doe div 365 = int n"
    using int_div_pos_eq [of "yoe_num doe" 365 "int n" "yoe_num doe - 365 * int n"] by simp
  with n show ?thesis by blast
qed

lemma leaps_shift: "0 \<le> n \<Longrightarrow> n < 400 \<Longrightarrow> leaps (n + era * 400) = n div 4 - n div 100 + era * 97"
proof -
  assume n: "0 \<le> n" "n < 400"
  have "(n + era * 400) div 4 = n div 4 + era * 100" "(n + era * 400) div 100 = n div 100 + era * 4"
    "(n + era * 400) div 400 = era"
    using n div_mult_self1 [of 4 n "era * 100"] div_mult_self1 [of 100 n "era * 4"] by simp_all
  then show ?thesis by (simp add: leaps_def)
qed

lemma is_leap_shift: "is_leap (n + era * 400) = is_leap n"
  using mod_mult_self1 [of n "era * 100" 4] mod_mult_self1 [of n "era * 4" 100]
    mod_mult_self1 [of n era 400]
  by (simp add: is_leap_def mult.commute)

text \<open>Day of year (from 1 March) to month and day.\<close>

definition march_lengths :: "int list" where
  "march_lengths = [31, 30, 31, 30, 31, 31, 30, 31, 30, 31, 31, 29]"

lemma doy_table:
  "\<forall>doy \<in> set [0..365].
     let mp = (5 * doy + 2) div 153; day = doy - (153 * mp + 2) div 5 + 1 in
     0 \<le> mp \<and> mp \<le> 11 \<and> 1 \<le> day \<and> day \<le> march_lengths ! nat mp \<and>
     doy = sum_list (take (nat mp) march_lengths) + day - 1"
  by code_simp

lemma months_from_march:
  "\<forall>mp \<in> set [0..9].
     sum_list (take (nat (mp + 2)) (month_lengths y)) =
       59 + (if is_leap y then 1 else 0) + sum_list (take (nat mp) march_lengths) \<and>
     month_lengths y ! nat (mp + 2) = march_lengths ! nat mp"
  by (simp add: month_lengths_def march_lengths_def upto_rec1)

lemma civil_from_days_correct:
  assumes "civil_from_days days = (y, m, d)"
  shows "valid_date y m d \<and> days_from_civil y m d = days"
proof -
  define era doe yoe where "era = (days + 719468) div 146097" and "doe = (days + 719468) mod 146097"
    and "yoe = yoe_num doe div 365"
  define doy where "doy = doe - (365 * yoe + yoe div 4 - yoe div 100)"
  define mp where "mp = (5 * doy + 2) div 153"
  have days: "days = era * 146097 + doe - 719468"
    by (simp add: era_def doe_def)
  have "0 \<le> doe" "doe < 146097" by (simp_all add: doe_def)
  from yoe_correct [OF this] have yoe: "0 \<le> yoe" "yoe < 400" "year_start yoe \<le> doe" "doe < year_start (yoe + 1)"
    unfolding yoe_def by auto
  have ys: "year_start yoe = 365 * yoe + yoe div 4 - yoe div 100"
    using yoe leaps_shift [of yoe 0] by (simp add: year_start_def)
  have next_year: "year_start (yoe + 1) - year_start yoe = 365 + (if is_leap (yoe + 1) then 1 else 0)"
    using leaps_step [of "yoe + 1"] by (simp add: year_start_def)
  have doy: "doy = doe - year_start yoe" "0 \<le> doy" "doy \<le> 365" "doy = 365 \<Longrightarrow> is_leap (yoe + 1)"
    using yoe next_year by (auto simp: doy_def ys split: if_splits)
  define day where "day = doy - (153 * mp + 2) div 5 + 1"
  have "doy \<in> set [0..365]" using doy by simp
  with doy_table have tab: "0 \<le> mp" "mp \<le> 11" "1 \<le> day" "day \<le> march_lengths ! nat mp"
    "doy = sum_list (take (nat mp) march_lengths) + day - 1"
    unfolding Let_def day_def mp_def by blast+
  have lp: "leaps (yoe + era * 400) = yoe div 4 - yoe div 100 + era * 97"
    using leaps_shift yoe by blast
  have civ: "(y, m, d) = (if mp < 10 then (yoe + era * 400, mp + 3, day) else (yoe + era * 400 + 1, mp - 9, day))"
  proof -
    have "civil_from_days days =
        (if (if mp < 10 then mp + 3 else mp - 9) \<le> 2 then yoe + era * 400 + 1 else yoe + era * 400,
         if mp < 10 then mp + 3 else mp - 9, day)"
      by (simp only: civil_from_days_def Let_def yoe_def yoe_num_def doy_def mp_def day_def era_def doe_def)
    with assms tab(1,2) show ?thesis by (cases "mp < 10") simp_all
  qed
  show ?thesis
  proof (cases "mp < 10")
    case True
    with civ have eqs: "y = yoe + era * 400" "m = mp + 3" "d = day" by simp_all
    have "mp \<in> set [0..9]" using True tab by simp
    note mm = months_from_march [of y, rule_format, OF this]
    have "valid_date y m d"
      using mm tab(3,4) eqs True tab(1) by (simp add: valid_date_def add.commute)
    moreover have "days_from_civil y m d =
        365 * (y - 1970) + leaps y - leaps 1969 + 59 + sum_list (take (nat mp) march_lengths) + day - 1"
      using leaps_step [of y] mm eqs(2,3) by (simp add: days_from_civil_def add.commute split: if_splits)
    then have "days_from_civil y m d = days"
      using tab(5) lp eqs(1) doy(1) ys days by (simp add: leaps_def [of 1969])
    ultimately show ?thesis by blast
  next
    case False
    with civ tab have eqs: "y = yoe + era * 400 + 1" "m = mp - 9" "d = day" "mp = 10 \<or> mp = 11" by auto
    have lpy: "is_leap y = is_leap (yoe + 1)"
      using is_leap_shift [of "yoe + 1" era] eqs by (simp add: algebra_simps)
    have sums: "sum_list (take (nat mp) march_lengths) = 306 + sum_list (take (nat (m - 1)) (month_lengths y))"
      using eqs(2,4) by (auto simp: march_lengths_def month_lengths_def)
    have "day = 29 \<Longrightarrow> mp = 11 \<Longrightarrow> doy = 365"
      using tab(5) by (simp add: march_lengths_def)
    with doy(4) lpy have "day = 29 \<Longrightarrow> mp = 11 \<Longrightarrow> is_leap y" by blast
    then have "valid_date y m d"
      using tab(3,4) eqs(2-4) by (cases "day = 29") (auto simp: valid_date_def march_lengths_def month_lengths_def)
    moreover have "days_from_civil y m d = days"
      using tab(5) sums lp eqs(1,3) doy(1) ys days by (simp add: days_from_civil_def leaps_def [of 1969])
    ultimately show ?thesis by blast
  qed
qed

section \<open>The rendering is injective\<close>

lemma length_radix_digits: "2 \<le> b \<Longrightarrow> 0 < w \<Longrightarrow> n < b ^ w \<Longrightarrow> length (radix_digits b n) \<le> w"
proof (induction b n arbitrary: w rule: radix_digits.induct)
  case (1 b n)
  show ?case
  proof (cases "n < b")
    case True
    with 1 show ?thesis by (simp add: radix_digits.simps [of b n])
  next
    case False
    obtain v where v: "w = Suc v" using 1 by (cases w) auto
    with False "1.prems"(3) have "0 < v" by (cases v) auto
    have "n div b < b ^ v" using "1.prems"(3) v by (simp add: less_mult_imp_div_less mult.commute)
    with 1 False \<open>0 < v\<close> have "length (radix_digits b (n div b)) \<le> v"
      by (intro "1.IH") auto
    with v "1.prems" False show ?thesis by (simp add: radix_digits.simps [of b n])
  qed
qed

lemma length_nat_to_string: "0 < w \<Longrightarrow> n < 10 ^ w \<Longrightarrow> length (nat_to_string n) \<le> w"
  by (simp add: nat_to_string_def nat_to_radix_def length_radix_digits)

lemma pad_int_length: "0 < w \<Longrightarrow> 0 \<le> n \<Longrightarrow> n < 10 ^ w \<Longrightarrow> length (pad_int w n) = w"
  using length_nat_to_string [of w "nat n"] by (simp add: pad_int_def pad_zero_def nat_less_iff)

lemma pad_int_inj: "pad_int w m = pad_int w n \<Longrightarrow> m = n"
proof -
  have h: "CHR ''-'' # s \<noteq> pad_zero v (nat_to_string k)" for s v k
  proof
    assume "CHR ''-'' # s = pad_zero v (nat_to_string k)"
    then have "CHR ''-'' \<in> set (pad_zero v (nat_to_string k))" by (metis list.set_intros(1))
    then show False using pad_zero_digits [of "CHR ''-''" v k] by simp
  qed
  have e: "pad_zero v (nat_to_string k) = pad_zero v (nat_to_string l) \<Longrightarrow> k = l" for v k l
    by (metis option.inject pad_zero_value)
  assume "pad_int w m = pad_int w n"
  then show ?thesis
    using h h [symmetric] e [of w "nat m" "nat n"] e [of "w - 1" "nat (- m)" "nat (- n)"]
    by (simp add: pad_int_def split: if_splits)
qed

lemma pad2: "0 \<le> n \<Longrightarrow> n < 100 \<Longrightarrow> length (pad_int 2 n) = 2"
  by (rule pad_int_length) simp_all

lemma pad3: "0 \<le> n \<Longrightarrow> n < 1000 \<Longrightarrow> length (pad_int 3 n) = 3"
  by (rule pad_int_length) simp_all

lemma pad_int_colon: "0 \<le> n \<Longrightarrow> CHR '':'' \<notin> set (pad_int w n)"
  using pad_zero_digits [of "CHR '':''" w "nat n"] by (auto simp: pad_int_def)

text \<open>The fields of an instant, and the text before the fraction.\<close>

definition ts_fields :: "int \<Rightarrow> (int \<times> int \<times> int) \<times> int \<times> int \<times> int \<times> int" where
  "ts_fields ms = (let s = ms div 1000; t = s mod 86400 in
     (civil_from_days (s div 86400), t div 3600, t mod 3600 div 60, t mod 60, ms mod 1000))"

fun ts_head :: "(int \<times> int \<times> int) \<times> int \<times> int \<times> int \<times> int \<Rightarrow> string" where
  "ts_head ((y, mo, d), h, mi, s, f) = pad_int 4 y @ ''-'' @ pad_int 2 mo @ ''-'' @ pad_int 2 d @ ''T'' @
     pad_int 2 h @ '':'' @ pad_int 2 mi @ '':'' @ pad_int 2 s"

fun ts_ok :: "(int \<times> int \<times> int) \<times> int \<times> int \<times> int \<times> int \<Rightarrow> bool" where
  "ts_ok ((y, mo, d), h, mi, s, f) \<longleftrightarrow> 0 \<le> mo \<and> mo < 100 \<and> 0 \<le> d \<and> d < 100 \<and> 0 \<le> h \<and> h < 100 \<and>
     0 \<le> mi \<and> mi < 100 \<and> 0 \<le> s \<and> s < 100 \<and> 0 \<le> f \<and> f < 1000"

lemma format_timestamp_fields:
  "format_timestamp ms = ts_head (ts_fields ms) @
     (if ms mod 1000 = 0 then ''Z'' else ''.'' @ pad_int 3 (ms mod 1000) @ ''Z'')"
  by (simp add: format_timestamp_def ts_fields_def Let_def split: prod.split)

lemma month_length_le: "1 \<le> m \<Longrightarrow> m \<le> 12 \<Longrightarrow> month_lengths y ! nat (m - 1) \<le> 31"
proof -
  assume m: "1 \<le> m" "m \<le> 12"
  have "\<forall>n \<in> set (month_lengths y). n \<le> 31" by (simp add: month_lengths_def)
  moreover have "nat (m - 1) < length (month_lengths y)" using m by (simp add: month_lengths_def)
  ultimately show ?thesis by (meson nth_mem)
qed

lemma ts_fields_ok: "ts_ok (ts_fields ms)"
proof -
  obtain y m d where c: "civil_from_days (ms div 1000 div 86400) = (y, m, d)" by (metis prod_cases3)
  have v: "1 \<le> m" "m \<le> 12" "1 \<le> d" "d \<le> 31"
    using civil_from_days_correct [OF c] month_length_le [of m y] by (auto simp: valid_date_def)
  define t where "t = ms div 1000 mod 86400"
  have t: "0 \<le> t" "t < 86400" by (simp_all add: t_def)
  have "t div 3600 < 100" "t mod 3600 div 60 < 100"
    using zdiv_mono1 [of t 86399 3600] zdiv_mono1 [of "t mod 3600" 3599 60] t pos_mod_bound [of 3600 t]
    by simp_all
  moreover have "0 \<le> t div 3600" "0 \<le> t mod 3600 div 60" "0 \<le> t mod 60" "t mod 60 < 100"
    using t pos_mod_bound [of 60 t] by (simp_all add: pos_imp_zdiv_nonneg_iff del: pos_mod_bound)
  moreover have "ts_fields ms = ((y, m, d), t div 3600, t mod 3600 div 60, t mod 60, ms mod 1000)"
    by (simp only: ts_fields_def Let_def c t_def)
  moreover have "0 \<le> ms mod 1000" "ms mod 1000 < 1000" by simp_all
  moreover have "0 \<le> m" "m < 100" "0 \<le> d" "d < 100" using v by linarith+
  ultimately show ?thesis by (simp only: ts_ok.simps simp_thms)
qed

lemma ts_fields_sel:
  "fst (ts_fields ms) = civil_from_days (ms div 1000 div 86400)"
  "fst (snd (ts_fields ms)) = ms div 1000 mod 86400 div 3600"
  "fst (snd (snd (ts_fields ms))) = ms div 1000 mod 86400 mod 3600 div 60"
  "fst (snd (snd (snd (ts_fields ms)))) = ms div 1000 mod 86400 mod 60"
  "snd (snd (snd (snd (ts_fields ms)))) = ms mod 1000"
  by (simp_all only: ts_fields_def Let_def fst_conv snd_conv)

lemma ts_fields_inj:
  assumes "ts_fields a = ts_fields b"
  shows "a = b"
proof -
  have "civil_from_days (a div 1000 div 86400) = civil_from_days (b div 1000 div 86400)"
    unfolding ts_fields_sel [symmetric] assms by (rule refl)
  then have days: "a div 1000 div 86400 = b div 1000 div 86400"
    by (metis civil_from_days_correct prod_cases3)
  have split: "t = t div 3600 * 3600 + t mod 3600 div 60 * 60 + t mod 60" for t :: int
  proof -
    have "t mod 3600 mod 60 = t mod 60" by (rule mod_mod_cancel) simp
    then have "t mod 3600 = t mod 3600 div 60 * 60 + t mod 60"
      by (metis div_mult_mod_eq)
    then show ?thesis by (metis add.assoc div_mult_mod_eq)
  qed
  let ?s = "a div 1000 mod 86400" and ?t = "b div 1000 mod 86400"
  have eqs: "?s div 3600 = ?t div 3600" "?s mod 3600 div 60 = ?t mod 3600 div 60" "?s mod 60 = ?t mod 60"
    unfolding ts_fields_sel [symmetric] assms by (rule refl)+
  have "?s = ?s div 3600 * 3600 + ?s mod 3600 div 60 * 60 + ?s mod 60" by (rule split)
  also have "\<dots> = ?t div 3600 * 3600 + ?t mod 3600 div 60 * 60 + ?t mod 60" by (simp only: eqs)
  also have "\<dots> = ?t" by (rule split [symmetric])
  finally have "?s = ?t" .
  with days have "a div 1000 = b div 1000"
    by (metis div_mult_mod_eq)
  moreover have "a mod 1000 = b mod 1000"
    unfolding ts_fields_sel [symmetric] assms by (rule refl)
  ultimately show ?thesis by (metis div_mult_mod_eq)
qed

lemma ts_head_inj:
  assumes "ts_ok p" "ts_ok q" "ts_head p = ts_head q" "snd (snd (snd (snd p))) = snd (snd (snd (snd q)))"
  shows "p = q"
proof -
  obtain y mo d h mi s f where p: "p = ((y, mo, d), h, mi, s, f)" by (metis prod.collapse)
  obtain y' mo' d' h' mi' s' f' where q: "q = ((y', mo', d'), h', mi', s', f')" by (metis prod.collapse)
  define r r' where "r = ''-'' @ pad_int 2 mo @ ''-'' @ pad_int 2 d @ ''T'' @ pad_int 2 h @ '':'' @ pad_int 2 mi @ '':'' @ pad_int 2 s"
    and "r' = ''-'' @ pad_int 2 mo' @ ''-'' @ pad_int 2 d' @ ''T'' @ pad_int 2 h' @ '':'' @ pad_int 2 mi' @ '':'' @ pad_int 2 s'"
  have len: "length r = length r'" using assms(1,2) by (simp add: r_def r'_def p q pad2)
  have "pad_int 4 y @ r = pad_int 4 y' @ r'" using assms(3) by (simp add: p q r_def r'_def)
  then have y: "pad_int 4 y = pad_int 4 y'" and r: "r = r'" using len by simp_all
  from r assms(1,2) have "pad_int 2 mo = pad_int 2 mo'" "pad_int 2 d = pad_int 2 d'" "pad_int 2 h = pad_int 2 h'"
    "pad_int 2 mi = pad_int 2 mi'" "pad_int 2 s = pad_int 2 s'"
    by (simp_all add: r_def r'_def p q pad2)
  with y assms(4) show ?thesis by (simp add: p q) (metis pad_int_inj)
qed

lemma ts_head_end:
  assumes "ts_ok p"
  obtains A u v where "ts_head p = A @ [CHR '':'', u, v]"
proof -
  obtain y mo d h mi s f where p: "p = ((y, mo, d), h, mi, s, f)" by (metis prod.collapse)
  have "length (pad_int 2 s) = 2" using assms by (simp add: p pad2)
  then obtain u v where "pad_int 2 s = [u, v]" by (auto simp: length_Suc_conv numeral_eq_Suc)
  then show thesis using that [of _ u v] by (simp add: p)
qed

lemma format_timestamp_inj:
  assumes eq: "format_timestamp a = format_timestamp b"
  shows "a = b"
proof -
  let ?p = "ts_fields a" and ?q = "ts_fields b"
  have aux: False
    if "x mod 1000 = 0" "y mod 1000 \<noteq> 0" "format_timestamp x = format_timestamp y" for x y
  proof -
    obtain A u v where "ts_head (ts_fields x) = A @ [CHR '':'', u, v]" using ts_head_end [OF ts_fields_ok] .
    moreover have "length (pad_int 3 (y mod 1000)) = 3" by (rule pad3) simp_all
    then obtain i j k where "pad_int 3 (y mod 1000) = [i, j, k]" by (auto simp: length_Suc_conv numeral_eq_Suc)
    moreover have "CHR '':'' \<notin> set (pad_int 3 (y mod 1000))" by (rule pad_int_colon) simp
    ultimately show False
      using that by (simp add: format_timestamp_fields) 
  qed
  have "(a mod 1000 = 0) = (b mod 1000 = 0)" using aux [of a b] aux [of b a] eq by metis
  moreover have "length (pad_int 3 (x mod 1000)) = 3" for x :: int by (rule pad3) simp_all
  ultimately have "ts_head ?p = ts_head ?q \<and> a mod 1000 = b mod 1000"
    using eq by (auto simp: format_timestamp_fields dest: pad_int_inj split: if_splits)
  then have "?p = ?q" by (intro ts_head_inj ts_fields_ok) (simp_all add: ts_fields_sel)
  then show ?thesis by (rule ts_fields_inj)
qed

section \<open>Properties\<close>


text \<open>
  A rendered timestamp determines the instant: distinct milliseconds have distinct
  renderings, for instants before the epoch too.
\<close>

theorem format_timestamp_injective: "inj format_timestamp"
  using format_timestamp_inj by (rule injI)

end
