(* ===== verification/Storage_Error.thy ===== *)
theory Storage_Error
  imports Rust_Std
begin

text \<open>
  \<open>PersistenceError\<close> of \<open>calod-core/src/store/error.rs\<close> with its \<open>Display\<close> rendering.  The
  foreign error inside \<open>Io\<close> and \<open>Serialization\<close> is its message.
\<close>

datatype persistence_error =
    Io string
  | Serialization string
  | Corruption string
  | PersistencePermissionDenied string
  | DirectoryNotWritable
  | SnapshotCreationFailed string
  | WalWriteFailed string
  | LoadFailed string

fun persistence_error_display :: "persistence_error \<Rightarrow> string" where
  "persistence_error_display (Io e) = ''IO error: '' @ e"
| "persistence_error_display (Serialization e) = ''Serialization error: '' @ e"
| "persistence_error_display (Corruption m) = ''Corruption detected: '' @ m"
| "persistence_error_display (PersistencePermissionDenied m) = ''Permission denied: '' @ m"
| "persistence_error_display DirectoryNotWritable = ''Persistence directory not writable''"
| "persistence_error_display (SnapshotCreationFailed m) = ''Snapshot creation failed: '' @ m"
| "persistence_error_display (WalWriteFailed m) = ''WAL write failed: '' @ m"
| "persistence_error_display (LoadFailed m) = ''Failed to load data: '' @ m"

end
