(* ===== verification/Model.thy ===== *)
theory Model
  imports Digest Timestamp Storage_Error
begin

text \<open>
  \<open>calod-ledger/src/model.rs\<close> and \<open>error.rs\<close>: the ledger's records, their API views, the
  event hash and the chain verifier.

  A Rust struct is a record whose field names carry a prefix (\<open>er_\<close> for \<open>EffectRecord\<close>,
  \<open>rr_\<close> for \<open>RunRecord\<close>, \<open>evr_\<close> for \<open>EventRecord\<close>, \<open>cpr_\<close> for \<open>CheckpointRecord\<close>; the
  API views use \<open>ef_\<close>, \<open>rn_\<close>, \<open>ev_\<close>, \<open>cp_\<close>).
\<close>

section \<open>Errors\<close>

datatype ledger_error =
    NotFound string string
  | IdempotencyConflict string string string string
  | StaleFencingToken int int
  | Forbidden string
  | InvalidTransition string string
  | Validation string string
  | PreconditionFailed int int
  | Persistence persistence_error

fun status_code :: "ledger_error \<Rightarrow> nat" where
  "status_code (NotFound _ _) = 404"
| "status_code (IdempotencyConflict _ _ _ _) = 409"
| "status_code (StaleFencingToken _ _) = 409"
| "status_code (Forbidden _) = 403"
| "status_code (InvalidTransition _ _) = 422"
| "status_code (Validation _ _) = 400"
| "status_code (PreconditionFailed _ _) = 412"
| "status_code (Persistence _) = 503"

fun error_code :: "ledger_error \<Rightarrow> string" where
  "error_code (NotFound _ _) = ''RESOURCE_NOT_FOUND''"
| "error_code (IdempotencyConflict _ _ _ _) = ''IDEMPOTENCY_CONFLICT''"
| "error_code (StaleFencingToken _ _) = ''LEASE_LOST''"
| "error_code (Forbidden _) = ''INSUFFICIENT_SCOPE''"
| "error_code (InvalidTransition _ _) = ''INVALID_TRANSITION''"
| "error_code (Validation _ _) = ''VALIDATION_ERROR''"
| "error_code (PreconditionFailed _ _) = ''PRECONDITION_FAILED''"
| "error_code (Persistence _) = ''SERVICE_UNAVAILABLE''"

section \<open>Effects\<close>

definition SCHEMA_VERSION :: nat where "SCHEMA_VERSION = 1"

record tenant_scope =
  sc_tenant_id :: string
  sc_project_id :: string

datatype effect_status =
    Claimed | InProgress | Committed | FailedRetryable | FailedTerminal | OutcomeUnknown
  | ReconciledCommitted | ReconciledFailed

datatype effect_state =
    ApiInProgress | ApiCommitted | ApiFailedRetryable | ApiFailedTerminal | ApiOutcomeUnknown
  | ApiReconciledCommitted | ApiReconciledFailed

fun api_state :: "effect_status \<Rightarrow> effect_state" where
  "api_state Claimed = ApiInProgress"
| "api_state InProgress = ApiInProgress"
| "api_state Committed = ApiCommitted"
| "api_state FailedRetryable = ApiFailedRetryable"
| "api_state FailedTerminal = ApiFailedTerminal"
| "api_state OutcomeUnknown = ApiOutcomeUnknown"
| "api_state ReconciledCommitted = ApiReconciledCommitted"
| "api_state ReconciledFailed = ApiReconciledFailed"

fun is_retention_terminal :: "effect_status \<Rightarrow> bool" where
  "is_retention_terminal Committed = True"
| "is_retention_terminal FailedTerminal = True"
| "is_retention_terminal ReconciledCommitted = True"
| "is_retention_terminal ReconciledFailed = True"
| "is_retention_terminal _ = False"

fun status_str :: "effect_status \<Rightarrow> string" where
  "status_str Claimed = ''claimed''"
| "status_str InProgress = ''in_progress''"
| "status_str Committed = ''committed''"
| "status_str FailedRetryable = ''failed_retryable''"
| "status_str FailedTerminal = ''failed_terminal''"
| "status_str OutcomeUnknown = ''outcome_unknown''"
| "status_str ReconciledCommitted = ''reconciled_committed''"
| "status_str ReconciledFailed = ''reconciled_failed''"

datatype effect_transition =
    Start | Renew | Commit | FailRetryable | FailTerminal | MarkOutcomeUnknown
  | ReconcileCommitted | ReconcileFailed

fun is_worker_transition :: "effect_transition \<Rightarrow> bool" where
  "is_worker_transition ReconcileCommitted = False"
| "is_worker_transition ReconcileFailed = False"
| "is_worker_transition _ = True"

fun transition_str :: "effect_transition \<Rightarrow> string" where
  "transition_str Start = ''start''"
| "transition_str Renew = ''renew''"
| "transition_str Commit = ''commit''"
| "transition_str FailRetryable = ''fail_retryable''"
| "transition_str FailTerminal = ''fail_terminal''"
| "transition_str MarkOutcomeUnknown = ''mark_outcome_unknown''"
| "transition_str ReconcileCommitted = ''reconcile_committed''"
| "transition_str ReconcileFailed = ''reconcile_failed''"

datatype effect_decision_type = Execute | Replay | Wait | Reconcile

record effect_lease =
  lease_expires_at :: string

record external_receipt =
  xr_provider :: string
  xr_id :: string
  xr_metadata :: "json option"

record effect_failure =
  fl_kind :: string
  fl_message :: string
  fl_retryable :: bool

record effect_record =
  er_schema_version :: nat
  er_tenant_id :: string
  er_project_id :: string
  er_id :: uuid
  er_run_id :: "uuid option"
  er_scope :: string
  er_idempotency_key :: string
  er_tool_name :: string
  er_input_digest :: string
  er_state :: effect_status
  er_fencing_token :: int
  er_lease_expires_at_ms :: "int option"
  er_lease_duration_ms :: int
  er_lease_token_digest :: "string option"
  er_result :: "json option"
  er_external_receipt :: "external_receipt option"
  er_failure :: "effect_failure option"
  er_created_at_ms :: int
  er_updated_at_ms :: int

record effect_view =
  ef_id :: uuid
  ef_run_id :: "uuid option"
  ef_scope :: string
  ef_idempotency_key :: string
  ef_tool_name :: string
  ef_input_digest :: string
  ef_state :: effect_state
  ef_fencing_token :: int
  ef_lease :: "effect_lease option"
  ef_result :: "json option"
  ef_external_receipt :: "external_receipt option"
  ef_failure :: "effect_failure option"
  ef_created_at :: string
  ef_updated_at :: string

definition view_effect :: "effect_record \<Rightarrow> effect_view" where
  "view_effect e = \<lparr>
     ef_id = er_id e,
     ef_run_id = er_run_id e,
     ef_scope = er_scope e,
     ef_idempotency_key = er_idempotency_key e,
     ef_tool_name = er_tool_name e,
     ef_input_digest = er_input_digest e,
     ef_state = api_state (er_state e),
     ef_fencing_token = er_fencing_token e,
     ef_lease = map_option (\<lambda>ms. \<lparr>lease_expires_at = format_timestamp ms\<rparr>) (er_lease_expires_at_ms e),
     ef_result = er_result e,
     ef_external_receipt = er_external_receipt e,
     ef_failure = er_failure e,
     ef_created_at = format_timestamp (er_created_at_ms e),
     ef_updated_at = format_timestamp (er_updated_at_ms e)\<rparr>"

record effect_decision =
  dc_decision :: effect_decision_type
  dc_effect :: effect_view
  dc_lease_token :: "string option"
  dc_poll_after_ms :: "nat option"

record acquire_request =
  aq_run_id :: "uuid option"
  aq_scope :: string
  aq_tool_name :: string
  aq_input :: json
  aq_lease_duration_seconds :: "nat option"
  aq_downstream_idempotency_supported :: bool

record update_request =
  up_transition :: effect_transition
  up_lease_token :: "string option"
  up_fencing_token :: int
  up_lease_duration_seconds :: "nat option"
  up_result :: "json option"
  up_external_receipt :: "external_receipt option"
  up_failure :: "effect_failure option"

record capabilities =
  can_reconcile :: bool
  can_admin :: bool

section \<open>Runs\<close>

datatype run_status = Running | Suspended | Completed | RunFailed | Cancelled

fun is_terminal :: "run_status \<Rightarrow> bool" where
  "is_terminal Completed = True"
| "is_terminal RunFailed = True"
| "is_terminal Cancelled = True"
| "is_terminal _ = False"

fun run_status_str :: "run_status \<Rightarrow> string" where
  "run_status_str Running = ''running''"
| "run_status_str Suspended = ''suspended''"
| "run_status_str Completed = ''completed''"
| "run_status_str RunFailed = ''failed''"
| "run_status_str Cancelled = ''cancelled''"

record run_record =
  rr_schema_version :: nat
  rr_tenant_id :: string
  rr_project_id :: string
  rr_id :: uuid
  rr_external_id :: string
  rr_agent_name :: string
  rr_status :: run_status
  rr_version :: int
  rr_last_event_sequence :: int
  rr_head_hash :: string
  rr_parent_run_id :: "uuid option"
  rr_forked_from_event_sequence :: "int option"
  rr_metadata :: "json option"
  rr_created_at_ms :: int
  rr_updated_at_ms :: int

record run_view =
  rn_id :: uuid
  rn_external_id :: string
  rn_agent_name :: string
  rn_status :: run_status
  rn_version :: int
  rn_last_event_sequence :: int
  rn_parent_run_id :: "uuid option"
  rn_forked_from_event_sequence :: "int option"
  rn_metadata :: "json option"
  rn_created_at :: string
  rn_updated_at :: string

definition view_run :: "run_record \<Rightarrow> run_view" where
  "view_run r = \<lparr>
     rn_id = rr_id r,
     rn_external_id = rr_external_id r,
     rn_agent_name = rr_agent_name r,
     rn_status = rr_status r,
     rn_version = rr_version r,
     rn_last_event_sequence = rr_last_event_sequence r,
     rn_parent_run_id = rr_parent_run_id r,
     rn_forked_from_event_sequence = rr_forked_from_event_sequence r,
     rn_metadata = rr_metadata r,
     rn_created_at = format_timestamp (rr_created_at_ms r),
     rn_updated_at = format_timestamp (rr_updated_at_ms r)\<rparr>"

record create_run_request =
  cr_external_id :: string
  cr_agent_name :: string
  cr_metadata :: "json option"

record update_run_request =
  ur_status :: run_status

record fork_run_request =
  fk_from_event_sequence :: "int option"
  fk_from_checkpoint_id :: "uuid option"
  fk_reason :: string
  fk_metadata :: "json option"

section \<open>Events and checkpoints\<close>

record event_record =
  evr_schema_version :: nat
  evr_tenant_id :: string
  evr_project_id :: string
  evr_id :: uuid
  evr_run_id :: uuid
  evr_sequence :: int
  evr_event_type :: string
  evr_occurred_at_ms :: int
  evr_recorded_at_ms :: int
  evr_payload :: json
  evr_previous_hash :: string
  evr_hash :: string

record event_view =
  ev_id :: uuid
  ev_run_id :: uuid
  ev_sequence :: int
  ev_event_type :: string
  ev_occurred_at :: string
  ev_recorded_at :: string
  ev_payload :: json
  ev_previous_hash :: string
  ev_hash :: string

definition view_event :: "event_record \<Rightarrow> event_view" where
  "view_event e = \<lparr>
     ev_id = evr_id e,
     ev_run_id = evr_run_id e,
     ev_sequence = evr_sequence e,
     ev_event_type = evr_event_type e,
     ev_occurred_at = format_timestamp (evr_occurred_at_ms e),
     ev_recorded_at = format_timestamp (evr_recorded_at_ms e),
     ev_payload = evr_payload e,
     ev_previous_hash = evr_previous_hash e,
     ev_hash = evr_hash e\<rparr>"

definition event_hash_input :: "ext \<Rightarrow> event_view \<Rightarrow> json" where
  "event_hash_input X e = JObject [
     (''id'', JString (uuid_to_string X (ev_id e))),
     (''run_id'', JString (uuid_to_string X (ev_run_id e))),
     (''sequence'', JNumber (NumInt (ev_sequence e))),
     (''type'', JString (ev_event_type e)),
     (''occurred_at'', JString (ev_occurred_at e)),
     (''recorded_at'', JString (ev_recorded_at e)),
     (''payload'', ev_payload e)]"

definition compute_event_hash :: "ext \<Rightarrow> event_view \<Rightarrow> string" where
  "compute_event_hash X e =
     (let previous = unwrap_or (digest_bytes (ev_previous_hash e)) (replicate 32 (CHR 0x00))
      in sha256_digest X (canonical_json_into X (event_hash_input X e) previous))"

text \<open>The verifier's loop: the index and the expected previous hash are its state.\<close>

fun verify_event_chain_from :: "ext \<Rightarrow> nat \<Rightarrow> string \<Rightarrow> event_view list \<Rightarrow> bool" where
  "verify_event_chain_from X index expected_previous [] = True"
| "verify_event_chain_from X index expected_previous (e # es) =
     (if ev_sequence e \<noteq> i64_add (wrap_i64 (int index)) 1 then False
      else if ev_previous_hash e \<noteq> expected_previous then False
      else if ev_hash e \<noteq> compute_event_hash X e then False
      else verify_event_chain_from X (Suc index) (ev_hash e) es)"

definition verify_event_chain :: "ext \<Rightarrow> event_view list \<Rightarrow> bool" where
  "verify_event_chain X events = verify_event_chain_from X 0 GENESIS_HASH events"

record append_event_request =
  ae_event_type :: string
  ae_occurred_at_ms :: int
  ae_payload :: json

record checkpoint_record =
  cpr_schema_version :: nat
  cpr_tenant_id :: string
  cpr_project_id :: string
  cpr_id :: uuid
  cpr_run_id :: uuid
  cpr_event_sequence :: int
  cpr_state :: json
  cpr_state_digest :: string
  cpr_created_at_ms :: int

record checkpoint_view =
  cp_id :: uuid
  cp_run_id :: uuid
  cp_event_sequence :: int
  cp_state :: json
  cp_state_ref :: "string option"
  cp_state_digest :: string
  cp_created_at :: string

definition view_checkpoint :: "checkpoint_record \<Rightarrow> checkpoint_view" where
  "view_checkpoint c = \<lparr>
     cp_id = cpr_id c,
     cp_run_id = cpr_run_id c,
     cp_event_sequence = cpr_event_sequence c,
     cp_state = cpr_state c,
     cp_state_ref = None,
     cp_state_digest = cpr_state_digest c,
     cp_created_at = format_timestamp (cpr_created_at_ms c)\<rparr>"

record create_checkpoint_request =
  cc_event_sequence :: int
  cc_state :: json

section \<open>Pages, filters, retention, export\<close>

record cursor_page =
  pg_next_cursor :: "string option"
  pg_has_more :: bool
  pg_limit :: nat

record run_list =
  rl_data :: "run_view list"
  rl_pagination :: cursor_page

record event_list =
  evl_data :: "event_view list"
  evl_pagination :: cursor_page

record checkpoint_list =
  cpl_data :: "checkpoint_view list"
  cpl_pagination :: cursor_page

record effect_list =
  efl_data :: "effect_view list"
  efl_pagination :: cursor_page

record run_filter =
  rf_status :: "run_status option"
  rf_agent_name :: "string option"
  rf_created_after_ms :: "int option"

record effect_filter =
  eff_run_id :: "uuid option"
  eff_state :: "effect_state option"
  eff_tool_name :: "string option"
  eff_created_after_ms :: "int option"

record event_filter =
  evf_event_type :: "string option"
  evf_after_sequence :: "int option"

record retention_policy =
  rp_max_age_ms :: int

record retention_report =
  rp_runs_removed :: nat
  rp_effects_removed :: nat
  rp_events_removed :: nat
  rp_cutoff_ms :: int

record run_export =
  rx_run :: run_view
  rx_effects :: "effect_view list"
  rx_events :: "event_view list"
  rx_checkpoints :: "checkpoint_view list"

end
