(* ===== verification/Wal_Format.thy ===== *)
theory Wal_Format
  imports External Storage_Error
begin

text \<open>
  The record format of \<open>calod-storage/src/wal.rs\<close>: a 13 byte header (magic, version, type,
  length, CRC-32C over the first nine header bytes and the payload) followed by the payload;
  the encoder, the parser of one record and the scan of a segment.

  The locale \<open>framed_stream\<close> is the contract of a framed byte stream: a frame decodes to what
  was encoded wherever it stands, and a proper prefix of a frame at the end of the buffer is
  reported as truncated.  Its lemmas say what a scan of frames, with or without a torn tail,
  yields.  It is interpreted on the record codec.
\<close>

section \<open>Records\<close>

definition MAGIC :: bytes where "MAGIC = ''CW''"
definition FORMAT_VERSION :: nat where "FORMAT_VERSION = 1"
definition HEADER_LEN :: nat where "HEADER_LEN = 13"
definition DEFAULT_MAX_SEGMENT_SIZE :: nat where "DEFAULT_MAX_SEGMENT_SIZE = 64 * 1024 * 1024"

datatype record_type = Put | Checkpoint

fun record_type_u8 :: "record_type \<Rightarrow> nat" where
  "record_type_u8 Put = 0"
| "record_type_u8 Checkpoint = 1"

definition from_u8 :: "nat \<Rightarrow> record_type option" where
  "from_u8 n = (if n = 0 then Some Put else if n = 1 then Some Checkpoint else None)"

record wal_position =
  segment_id :: nat
  offset :: nat

record wal_record =
  wr_segment_id :: nat
  wr_offset :: nat
  wr_record_type :: record_type
  wr_payload :: bytes

datatype scan_error = Truncated nat | Corrupt nat string

record parsed_record =
  pr_record_type :: record_type
  pr_payload :: bytes
  pr_next_offset :: nat

definition parse_one :: "ext \<Rightarrow> bytes \<Rightarrow> nat \<Rightarrow> scan_error + parsed_record" where
  "parse_one X buf off =
     (let remaining = length buf - off in
      if remaining < HEADER_LEN then Inl (Truncated off)
      else let header = slice buf off (off + HEADER_LEN) in
      if slice header 0 2 \<noteq> MAGIC then Inl (Corrupt off ''bad magic'')
      else let version = from_le [header ! 2, header ! 3] in
      if version \<noteq> FORMAT_VERSION then
        Inl (Corrupt off (''unsupported format version '' @ nat_to_string version))
      else (case from_u8 (of_char (header ! 4)) of
        None \<Rightarrow> Inl (Corrupt off (''unknown record type '' @ nat_to_string (of_char (header ! 4))))
      | Some record_type \<Rightarrow>
        let payload_len = from_le [header ! 5, header ! 6, header ! 7, header ! 8];
            end_off = off + HEADER_LEN + payload_len in
        if end_off > length buf then Inl (Truncated off)
        else let payload = slice buf (off + HEADER_LEN) end_off;
                 expected_crc = from_le [header ! 9, header ! 10, header ! 11, header ! 12];
                 actual_crc = crc32c_append X (crc32c X (take 9 header)) payload in
        if unat actual_crc \<noteq> expected_crc then Inl (Corrupt off ''CRC32C mismatch'')
        else Inr \<lparr>pr_record_type = record_type, pr_payload = payload, pr_next_offset = end_off\<rparr>))"

lemma parse_one_progress:
  "parse_one X buf off = Inr p \<Longrightarrow> off + HEADER_LEN \<le> pr_next_offset p \<and> pr_next_offset p \<le> length buf"
  by (auto simp: parse_one_def Let_def split: if_splits option.splits)

text \<open>
  The loop of \<open>scan_segment\<close>: the records its callback sees, in order, and the error that
  ended it, if any.
\<close>

function scan_loop ::
  "ext \<Rightarrow> bytes \<Rightarrow> nat \<Rightarrow> (nat \<times> record_type \<times> bytes) list \<times> scan_error option" where
  "scan_loop X buf off =
     (if off < length buf then
        (case parse_one X buf off of
           Inl e \<Rightarrow> ([], Some e)
         | Inr p \<Rightarrow> (let (rs, e) = scan_loop X buf (pr_next_offset p)
                      in ((off, pr_record_type p, pr_payload p) # rs, e)))
      else ([], None))"
  by pat_completeness auto
termination
  by (relation "measure (\<lambda>(X, buf, off). length buf - off)")
    (auto simp: HEADER_LEN_def dest!: parse_one_progress)

declare scan_loop.simps [simp del]

definition scan_segment :: "ext \<Rightarrow> bytes \<Rightarrow> (nat \<times> record_type \<times> bytes) list \<times> scan_error option" where
  "scan_segment X buf = scan_loop X buf 0"

definition encode_record :: "ext \<Rightarrow> record_type \<Rightarrow> bytes \<Rightarrow> bytes \<Rightarrow> bytes" where
  "encode_record X record_type payload out =
     (let start = length out;
          out = out @ MAGIC;
          out = out @ le_bytes 2 FORMAT_VERSION;
          out = out @ [char_of (record_type_u8 record_type)];
          out = out @ le_bytes 4 (length payload mod 2 ^ 32);
          crc = crc32c_append X (crc32c X (slice out start (start + 9))) payload;
          out = out @ le_bytes 4 (unat crc)
      in out @ payload)"

section \<open>Framed streams\<close>

locale framed_stream =
  fixes enc :: "'r \<Rightarrow> bytes"
    and dec :: "bytes \<Rightarrow> nat \<Rightarrow> 'e + 'r \<times> nat"
    and torn :: "nat \<Rightarrow> 'e"
    and scan :: "bytes \<Rightarrow> nat \<Rightarrow> (nat \<times> 'r) list \<times> 'e option"
    and fits :: "'r \<Rightarrow> bool"
  assumes enc_pos: "enc r \<noteq> []"
    and dec_enc: "fits r \<Longrightarrow> dec (pre @ enc r @ post) (length pre) = Inr (r, length pre + length (enc r))"
    and dec_torn: "fits r \<Longrightarrow> k < length (enc r) \<Longrightarrow>
      dec (pre @ take k (enc r)) (length pre) = Inl (torn (length pre))"
    and scan_rec: "scan buf off =
      (if off < length buf then
         (case dec buf off of Inl e \<Rightarrow> ([], Some e)
          | Inr (r, off') \<Rightarrow> (case scan buf off' of (rs, e) \<Rightarrow> ((off, r) # rs, e)))
       else ([], None))"
begin

definition frames :: "'r list \<Rightarrow> bytes" where
  "frames rs = concat (map enc rs)"

fun placed :: "nat \<Rightarrow> 'r list \<Rightarrow> (nat \<times> 'r) list" where
  "placed off [] = []"
| "placed off (r # rs) = (off, r) # placed (off + length (enc r)) rs"

lemma frames_simps [simp]: "frames [] = []" "frames (r # rs) = enc r @ frames rs"
    "frames (rs @ ss) = frames rs @ frames ss"
  by (simp_all add: frames_def)

lemma map_snd_placed [simp]: "map snd (placed off rs) = rs"
  by (induction rs arbitrary: off) auto

lemma placed_append: "placed off (rs @ ss) = placed off rs @ placed (off + length (frames rs)) ss"
  by (induction rs arbitrary: off) (auto simp: add.assoc)

lemma scan_frames_then:
  "\<forall>r \<in> set rs. fits r \<Longrightarrow> scan (pre @ frames rs @ post) (length pre) =
     (let (ss, e) = scan (pre @ frames rs @ post) (length pre + length (frames rs))
      in (placed (length pre) rs @ ss, e))"
proof (induction rs arbitrary: pre)
  case (Cons r rs)
  have "scan ((pre @ enc r) @ frames rs @ post) (length (pre @ enc r)) =
      (let (ss, e) = scan ((pre @ enc r) @ frames rs @ post) (length (pre @ enc r) + length (frames rs))
       in (placed (length (pre @ enc r)) rs @ ss, e))"
    using Cons by (intro Cons.IH) auto
  moreover have "scan (pre @ frames (r # rs) @ post) (length pre) =
      (case scan (pre @ frames (r # rs) @ post) (length pre + length (enc r)) of (ss, e) \<Rightarrow> ((length pre, r) # ss, e))"
    using Cons.prems enc_pos [of r] dec_enc [of r pre "frames rs @ post"] by (subst scan_rec) auto
  ultimately show ?case by (auto simp: add.assoc split: prod.splits)
qed (simp split: prod.split)

lemma scan_frames: "\<forall>r \<in> set rs. fits r \<Longrightarrow> scan (frames rs) 0 = (placed 0 rs, None)"
  using scan_frames_then [of rs "[]" "[]"] by (simp add: scan_rec)

lemma scan_torn:
  assumes "\<forall>r \<in> set rs. fits r" "fits r" "0 < k" "k < length (enc r)"
  shows "scan (frames rs @ take k (enc r)) 0 = (placed 0 rs, Some (torn (length (frames rs))))"
  using scan_frames_then [of rs "[]" "take k (enc r)"] dec_torn [of r k "frames rs"] assms
  by (subst (asm) (2) scan_rec) auto

text \<open>A cut stream is a prefix of the frames with, at most, a torn frame behind it.\<close>

lemma take_frames:
  "n \<le> length (frames rs) \<Longrightarrow>
     \<exists>m k. m \<le> length rs \<and> take n (frames rs) = frames (take m rs) @ (if m < length rs then take k (enc (rs ! m)) else []) \<and>
       (m < length rs \<longrightarrow> k < length (enc (rs ! m))) \<and> n = length (frames (take m rs)) + (if m < length rs then k else 0)"
proof (induction rs arbitrary: n)
  case (Cons r rs)
  show ?case
  proof (cases "n < length (enc r)")
    case True
    then show ?thesis by (intro exI [of _ 0] exI [of _ n]) simp
  next
    case False
    with Cons.prems have "n - length (enc r) \<le> length (frames rs)" by simp
    from Cons.IH [OF this] obtain m k where mk: "m \<le> length rs"
      "take (n - length (enc r)) (frames rs) = frames (take m rs) @ (if m < length rs then take k (enc (rs ! m)) else [])"
      "m < length rs \<longrightarrow> k < length (enc (rs ! m))"
      "n - length (enc r) = length (frames (take m rs)) + (if m < length rs then k else 0)" by blast
    with False show ?thesis by (intro exI [of _ "Suc m"] exI [of _ k]) auto
  qed
qed simp

lemma placed_take: "placed off (take m rs) = take m (placed off rs)"
proof (induction rs arbitrary: m off)
  case (Cons r rs)
  then show ?case by (cases m) auto
qed simp

lemma frames_inj:
  assumes "\<forall>r \<in> set rs. fits r" "\<forall>r \<in> set ss. fits r" "frames rs = frames ss"
  shows "rs = ss"
  using scan_frames [OF assms(1)] scan_frames [OF assms(2)] assms(3) map_snd_placed
  by (metis prod.inject)

lemma frames_take_mono: "a \<le> b \<Longrightarrow> length (frames (take a rs)) \<le> length (frames (take b rs))"
proof -
  assume "a \<le> b"
  then have "take b rs = take a rs @ take (b - a) (drop a rs)" by (metis add_diff_inverse_nat not_less take_add)
  then show ?thesis by simp
qed

lemma scan_cut:
  assumes "\<forall>r \<in> set rs. fits r" "n \<le> length (frames rs)"
  obtains m where "m \<le> length rs" "length (frames (take m rs)) \<le> n"
    "scan (take n (frames rs)) 0 =
       (placed 0 (take m rs), if n = length (frames (take m rs)) then None else Some (torn (length (frames (take m rs)))))"
    "take (length (frames (take m rs))) (take n (frames rs)) = frames (take m rs)"
    "m = length rs \<or> n < length (frames (take (Suc m) rs))"
proof -
  from take_frames [OF assms(2)] obtain m k where mk: "m \<le> length rs"
    "take n (frames rs) = frames (take m rs) @ (if m < length rs then take k (enc (rs ! m)) else [])"
    "m < length rs \<longrightarrow> k < length (enc (rs ! m))"
    "n = length (frames (take m rs)) + (if m < length rs then k else 0)" by blast
  have fit: "\<forall>r \<in> set (take m rs). fits r" using assms(1) by (meson in_set_takeD)
  show ?thesis
  proof (cases "m < length rs \<and> 0 < k")
    case True
    then have "fits (rs ! m)" using assms(1) by simp
    with True mk scan_torn [OF fit, of "rs ! m" k] show ?thesis
      by (intro that [of m]) (auto simp: take_Suc_conv_app_nth)
  next
    case False
    with mk scan_frames [OF fit] enc_pos show ?thesis
      by (intro that [of m]) (auto simp: take_Suc_conv_app_nth)
  qed
qed

end

section \<open>The record codec is a framed stream\<close>

definition record_header :: "ext \<Rightarrow> record_type \<Rightarrow> bytes \<Rightarrow> bytes" where
  "record_header X t payload =
     MAGIC @ le_bytes 2 FORMAT_VERSION @ [char_of (record_type_u8 t)] @ le_bytes 4 (length payload mod 2 ^ 32)"

definition record_crc :: "ext \<Rightarrow> record_type \<Rightarrow> bytes \<Rightarrow> 32 word" where
  "record_crc X t payload = crc32c_append X (crc32c X (record_header X t payload)) payload"

abbreviation frame :: "ext \<Rightarrow> record_type \<times> bytes \<Rightarrow> bytes" where
  "frame X r \<equiv> encode_record X (fst r) (snd r) []"

definition payload_fits :: "record_type \<times> bytes \<Rightarrow> bool" where
  "payload_fits r \<longleftrightarrow> length (snd r) < 2 ^ 32"

definition parse_frame :: "ext \<Rightarrow> bytes \<Rightarrow> nat \<Rightarrow> scan_error + (record_type \<times> bytes) \<times> nat" where
  "parse_frame X buf off =
     map_sum id (\<lambda>p. ((pr_record_type p, pr_payload p), pr_next_offset p)) (parse_one X buf off)"

lemma length_record_header [simp]: "length (record_header X t p) = 9"
  by (simp add: record_header_def MAGIC_def)

lemma encode_record_frame:
  "encode_record X t p out = out @ record_header X t p @ le_bytes 4 (unat (record_crc X t p)) @ p"
proof -
  have "slice (out @ record_header X t p) (length out) (length out + 9) = record_header X t p"
    by (simp add: slice_append)
  then show ?thesis
    by (simp add: encode_record_def Let_def record_crc_def record_header_def)
qed

lemma length_frame: "length (encode_record X t p []) = HEADER_LEN + length p"
  by (simp add: encode_record_frame HEADER_LEN_def)

lemma from_u8_type [simp]: "from_u8 (record_type_u8 t) = Some t"
  by (cases t) (simp_all add: from_u8_def)

lemma from_le_4: "v < 2 ^ 32 \<Longrightarrow> from_le (le_bytes 4 v) = v"
  by (simp add: from_le_bytes)

lemma list_of_4: "length xs = 4 \<Longrightarrow> [xs ! 0, xs ! 1, xs ! 2, xs ! 3] = xs"
  by (auto simp: length_Suc_conv numeral_eq_Suc)

text \<open>What the parser reads from the thirteen bytes the encoder wrote.\<close>

lemma header_fields:
  assumes "length p < 2 ^ 32" "h = record_header X t p @ le_bytes 4 (unat (record_crc X t p))"
  shows "slice h 0 2 = MAGIC" "from_le [h ! 2, h ! 3] = FORMAT_VERSION"
    "from_u8 (of_char (h ! 4)) = Some t" "from_le [h ! 5, h ! 6, h ! 7, h ! 8] = length p"
    "from_le [h ! 9, h ! 10, h ! 11, h ! 12] = unat (record_crc X t p)" "take 9 h = record_header X t p"
    "length h = 13"
proof -
  define ls where "ls = le_bytes 4 (length p)"
  define cs where "cs = le_bytes 4 (unat (record_crc X t p))"
  have l: "length ls = 4" "length cs = 4" by (simp_all add: ls_def cs_def)
  have v: "from_le ls = length p" "from_le cs = unat (record_crc X t p)"
    using assms(1) unsigned_less [of "record_crc X t p", where ?'a = nat] by (simp_all add: ls_def cs_def from_le_4)
  have h: "h = MAGIC @ le_bytes 2 FORMAT_VERSION @ [char_of (record_type_u8 t)] @ ls @ cs"
    using assms by (simp add: record_header_def ls_def cs_def)
  have u: "record_type_u8 t < 256" by (cases t) simp_all
  have m: "length MAGIC = 2" by (simp add: MAGIC_def)
  then show "slice h 0 2 = MAGIC" by (simp add: h slice_def)
  have "h ! 4 = char_of (record_type_u8 t)" using m by (simp add: h nth_append)
  with u show "from_u8 (of_char (h ! 4)) = Some t" by simp
  have "[h ! 2, h ! 3] = le_bytes 2 FORMAT_VERSION"
    using m by (simp add: h nth_append numeral_2_eq_2)
  then show "from_le [h ! 2, h ! 3] = FORMAT_VERSION"
    by (simp only: from_le_bytes) (simp add: FORMAT_VERSION_def)
  have "[h ! 5, h ! 6, h ! 7, h ! 8] = [ls ! 0, ls ! 1, ls ! 2, ls ! 3]"
    "[h ! 9, h ! 10, h ! 11, h ! 12] = [cs ! 0, cs ! 1, cs ! 2, cs ! 3]"
    using l m by (simp_all add: h nth_append)
  then have "[h ! 5, h ! 6, h ! 7, h ! 8] = ls" "[h ! 9, h ! 10, h ! 11, h ! 12] = cs"
    using list_of_4 [OF l(1)] list_of_4 [OF l(2)] by metis+
  with v show "from_le [h ! 5, h ! 6, h ! 7, h ! 8] = length p"
    "from_le [h ! 9, h ! 10, h ! 11, h ! 12] = unat (record_crc X t p)" by simp_all
  show "take 9 h = record_header X t p" "length h = 13" by (simp_all add: assms(2))
qed

lemma parse_one_frame:
  assumes "length p < 2 ^ 32"
  shows "parse_one X (pre @ encode_record X t p [] @ post) (length pre) =
    Inr \<lparr>pr_record_type = t, pr_payload = p, pr_next_offset = length pre + HEADER_LEN + length p\<rparr>"
proof -
  define h where "h = record_header X t p @ le_bytes 4 (unat (record_crc X t p))"
  note hf = header_fields [OF assms h_def]
  have buf: "pre @ encode_record X t p [] @ post = pre @ h @ p @ post"
    by (simp add: encode_record_frame h_def)
  have sl: "slice (pre @ h @ p @ post) (length pre) (length pre + HEADER_LEN) = h"
    using hf(7) by (simp add: slice_append HEADER_LEN_def)
  have pl: "slice (pre @ h @ p @ post) (length pre + HEADER_LEN) (length pre + HEADER_LEN + length p) = p"
    using slice_append [of "pre @ h" "p @ post" "length p"] hf(7) by (simp add: HEADER_LEN_def)
  show ?thesis
    unfolding buf parse_one_def Let_def sl hf(1-4,6) pl option.case hf(5)
    using hf(7) by (simp add: HEADER_LEN_def record_crc_def pl [unfolded HEADER_LEN_def])
qed

lemma parse_one_torn:
  assumes "length p < 2 ^ 32" "k < length (encode_record X t p [])"
  shows "parse_one X (pre @ take k (encode_record X t p [])) (length pre) = Inl (Truncated (length pre))"
proof (cases "k < HEADER_LEN")
  case True
  then show ?thesis by (simp add: parse_one_def length_frame)
next
  case False
  define h where "h = record_header X t p @ le_bytes 4 (unat (record_crc X t p))"
  note hf = header_fields [OF assms(1) h_def]
  have k: "HEADER_LEN \<le> k" "k - HEADER_LEN < length p"
    using False assms(2) by (auto simp: length_frame)
  have buf: "pre @ take k (encode_record X t p []) = pre @ h @ take (k - HEADER_LEN) p"
    using k hf(7) by (simp add: encode_record_frame h_def HEADER_LEN_def take_Cons')
  have sl: "slice (pre @ h @ take (k - HEADER_LEN) p) (length pre) (length pre + HEADER_LEN) = h"
    using hf(7) by (simp add: slice_append HEADER_LEN_def)
  show ?thesis
    unfolding buf parse_one_def Let_def sl hf(1-4,6) option.case
    using hf(7) k by (auto simp: HEADER_LEN_def)
qed

lemma parse_frame_frame:
  "payload_fits r \<Longrightarrow> parse_frame X (pre @ frame X r @ post) (length pre) = Inr (r, length pre + length (frame X r))"
  by (simp add: parse_frame_def payload_fits_def parse_one_frame length_frame)

lemma parse_frame_torn:
  "payload_fits r \<Longrightarrow> k < length (frame X r) \<Longrightarrow>
     parse_frame X (pre @ take k (frame X r)) (length pre) = Inl (Truncated (length pre))"
  by (simp add: parse_frame_def payload_fits_def parse_one_torn)

lemma frame_nonempty: "frame X r \<noteq> []"
  using length_frame [of X "fst r" "snd r"] by (auto simp: HEADER_LEN_def)

lemma scan_loop_rec:
  "scan_loop X buf off =
     (if off < length buf then
        (case parse_frame X buf off of Inl e \<Rightarrow> ([], Some e)
         | Inr (r, off') \<Rightarrow> (case scan_loop X buf off' of (rs, e) \<Rightarrow> ((off, r) # rs, e)))
      else ([], None))"
  by (subst scan_loop.simps) (auto simp: parse_frame_def split: sum.splits prod.splits)

interpretation wal: framed_stream "frame X" "parse_frame X" Truncated "scan_loop X" payload_fits for X
  by unfold_locales (rule frame_nonempty parse_frame_frame parse_frame_torn scan_loop_rec; assumption?)+

end
