(* ===== verification/Wal.thy ===== *)
theory Wal
  imports Wal_Format
begin

text \<open>
  \<open>calod-storage/src/wal.rs\<close>: recovery, replay and the writer task, over a directory of
  segment files.

  A directory is a map from file names to files; a file is its bytes together with the
  number of leading bytes known to be on stable storage (a missing directory reads as an
  empty one, as \<open>list_segments\<close> treats it).  Every I/O call the code makes may fail: the
  outcomes are inputs (\<open>io_faults\<close> for start-up, \<open>write_io\<close> for the writer), so each \<open>?\<close> of
  the source is a branch here.  A file's length and every offset into it are natural numbers:
  a file is shorter than \<open>2 ^ 63\<close> bytes, so those \<open>u64\<close> additions do not wrap; segment ids
  do wrap.  A message to the writer task carries the number of its reply channel.
\<close>

section \<open>Directories\<close>

record wal_file =
  fdata :: bytes
  fsynced :: nat

type_synonym wal_dir = "(string, wal_file) dashmap"

record io_faults =
  iof_read_dir :: "string option"
  iof_read :: "string \<Rightarrow> string option"
  iof_set_len :: "string \<Rightarrow> string option"
  iof_create_dir :: "string option"
  iof_open :: "string option"
  iof_remove :: "string \<Rightarrow> string option"

definition no_faults :: io_faults where
  "no_faults = \<lparr>iof_read_dir = None, iof_read = (\<lambda>_. None), iof_set_len = (\<lambda>_. None),
     iof_create_dir = None, iof_open = None, iof_remove = (\<lambda>_. None)\<rparr>"

definition read_file :: "io_faults \<Rightarrow> wal_dir \<Rightarrow> string \<Rightarrow> persistence_error + bytes" where
  "read_file F D path =
     (case iof_read F path of Some e \<Rightarrow> Inl (Io e)
      | None \<Rightarrow> (case dm_get D path of None \<Rightarrow> Inl (Io ''entity not found'') | Some f \<Rightarrow> Inr (fdata f)))"

definition set_len :: "nat \<Rightarrow> wal_file \<Rightarrow> wal_file" where
  "set_len n f = f\<lparr>fdata := take n (fdata f), fsynced := min n (fsynced f)\<rparr>"

definition update_file :: "string \<Rightarrow> (wal_file \<Rightarrow> wal_file) \<Rightarrow> wal_dir \<Rightarrow> wal_dir" where
  "update_file path g D = (case dm_get D path of None \<Rightarrow> D | Some f \<Rightarrow> dm_insert path (g f) D)"

definition SEGMENT_PREFIX :: string where "SEGMENT_PREFIX = ''wal-''"
definition SEGMENT_SUFFIX :: string where "SEGMENT_SUFFIX = ''.log''"

definition segment_path :: "nat \<Rightarrow> string" where
  "segment_path sid = SEGMENT_PREFIX @ pad_zero 8 (nat_to_string sid) @ SEGMENT_SUFFIX"

definition parse_segment_file_name :: "string \<Rightarrow> nat option" where
  "parse_segment_file_name name =
     (case strip_prefix SEGMENT_PREFIX name of None \<Rightarrow> None
      | Some rest \<Rightarrow> (case strip_suffix SEGMENT_SUFFIX rest of None \<Rightarrow> None
         | Some stem \<Rightarrow>
             if stem = [] \<or> \<not> list_all is_ascii_digit stem then None
             else parse_u64_digits stem))"

definition segment_entries :: "wal_dir \<Rightarrow> (nat \<times> string) list" where
  "segment_entries D =
     List.map_filter (\<lambda>e. map_option (\<lambda>sid. (sid, fst e)) (parse_segment_file_name (fst e))) D"

definition list_segments :: "io_faults \<Rightarrow> wal_dir \<Rightarrow> persistence_error + (nat \<times> string) list" where
  "list_segments F D =
     (case iof_read_dir F of Some e \<Rightarrow> Inl (Io e) | None \<Rightarrow> Inr (sort_key fst (segment_entries D)))"

section \<open>Recovery\<close>

record segment_info =
  si_id :: nat
  si_path :: string
  si_valid_len :: nat

record tail_truncation =
  tt_segment_id :: nat
  tt_original_len :: nat
  tt_valid_len :: nat

record recovery_report =
  rep_segments :: "segment_info list"
  rep_truncated :: "tail_truncation option"
  rep_last_position :: "wal_position option"

definition truncated_inside :: "nat \<Rightarrow> nat \<Rightarrow> persistence_error" where
  "truncated_inside sid valid_len = Corruption (''WAL segment '' @ nat_to_string sid @
     '' ends in a truncated record at offset '' @ nat_to_string valid_len @
     '' but is not the final segment'')"

definition corrupt_record :: "nat \<Rightarrow> nat \<Rightarrow> string \<Rightarrow> persistence_error" where
  "corrupt_record sid off reason = Corruption (''WAL segment '' @ nat_to_string sid @
     '' has a corrupt record at offset '' @ nat_to_string off @ '': '' @ reason)"

definition truncated_after :: "nat \<Rightarrow> nat \<Rightarrow> persistence_error" where
  "truncated_after sid valid_len = Corruption (''WAL segment '' @ nat_to_string sid @
     '' has a truncated record at offset '' @ nat_to_string valid_len @ '' after recovery'')"

definition note_segment ::
  "nat \<Rightarrow> string \<Rightarrow> nat option \<Rightarrow> nat \<Rightarrow> recovery_report \<Rightarrow> recovery_report" where
  "note_segment sid path last_offset valid_len report =
     report\<lparr>rep_last_position := (case last_offset of None \<Rightarrow> rep_last_position report
              | Some off \<Rightarrow> Some \<lparr>segment_id = sid, offset = off\<rparr>),
            rep_segments := rep_segments report @
              [\<lparr>si_id = sid, si_path = path, si_valid_len = valid_len\<rparr>]\<rparr>"

fun recover_loop ::
  "ext \<Rightarrow> io_faults \<Rightarrow> nat \<Rightarrow> nat \<Rightarrow> (nat \<times> string) list \<Rightarrow> recovery_report \<Rightarrow> wal_dir \<Rightarrow>
   (persistence_error + recovery_report) \<times> wal_dir" where
  "recover_loop X F last_idx idx [] report D = (Inr report, D)"
| "recover_loop X F last_idx idx ((sid, path) # segments) report D =
     (case read_file F D path of Inl e \<Rightarrow> (Inl e, D)
      | Inr data \<Rightarrow>
        let original_len = length data;
            is_final = (idx = last_idx);
            (records, scan) = scan_segment X data;
            last_offset = (if records = [] then None else Some (fst (last records)))
        in case scan of
             None \<Rightarrow>
               recover_loop X F last_idx (Suc idx) segments
                 (note_segment sid path last_offset original_len report) D
           | Some (Truncated valid_len) \<Rightarrow>
               if is_final then
                 (case iof_set_len F path of Some e \<Rightarrow> (Inl (Io e), D)
                  | None \<Rightarrow>
                    recover_loop X F last_idx (Suc idx) segments
                      (note_segment sid path last_offset valid_len
                        (report\<lparr>rep_truncated := Some \<lparr>tt_segment_id = sid,
                           tt_original_len = original_len, tt_valid_len = valid_len\<rparr>\<rparr>))
                      (update_file path (set_len valid_len) D))
               else (Inl (truncated_inside sid valid_len), D)
           | Some (Corrupt off reason) \<Rightarrow> (Inl (corrupt_record sid off reason), D))"

definition recover :: "ext \<Rightarrow> io_faults \<Rightarrow> wal_dir \<Rightarrow> (persistence_error + recovery_report) \<times> wal_dir" where
  "recover X F D =
     (case list_segments F D of Inl e \<Rightarrow> (Inl e, D)
      | Inr segments \<Rightarrow>
        let report = \<lparr>rep_segments = [], rep_truncated = None, rep_last_position = None\<rparr>;
            last_idx = length segments - 1
        in recover_loop X F last_idx 0 segments report D)"

section \<open>Replay\<close>

record replay =
  rpl_segments :: "(nat \<times> string) list"
  rpl_report :: recovery_report
  rpl_next_segment :: nat
  rpl_current_segment :: nat
  rpl_buf :: bytes
  rpl_offset :: nat
  rpl_finished :: bool

definition replay_open :: "ext \<Rightarrow> io_faults \<Rightarrow> wal_dir \<Rightarrow> (persistence_error + replay) \<times> wal_dir" where
  "replay_open X F D =
     (case recover X F D of
        (Inl e, D) \<Rightarrow> (Inl e, D)
      | (Inr report, D) \<Rightarrow>
          (Inr \<lparr>rpl_segments = map (\<lambda>info. (si_id info, si_path info)) (rep_segments report),
             rpl_report = report, rpl_next_segment = 0, rpl_current_segment = 0, rpl_buf = [],
             rpl_offset = 0, rpl_finished = False\<rparr>, D))"

function replay_loop ::
  "ext \<Rightarrow> io_faults \<Rightarrow> wal_dir \<Rightarrow> replay \<Rightarrow> (persistence_error + wal_record) option \<times> replay" where
  "replay_loop X F D r =
     (if rpl_offset r < length (rpl_buf r) then
        (case parse_one X (rpl_buf r) (rpl_offset r) of
           Inr parsed \<Rightarrow>
             (Some (Inr \<lparr>wr_segment_id = rpl_current_segment r, wr_offset = rpl_offset r,
                wr_record_type = pr_record_type parsed, wr_payload = pr_payload parsed\<rparr>),
              r\<lparr>rpl_offset := pr_next_offset parsed\<rparr>)
         | Inl (Truncated valid_len) \<Rightarrow>
             (Some (Inl (truncated_after (rpl_current_segment r) valid_len)), r\<lparr>rpl_finished := True\<rparr>)
         | Inl (Corrupt off reason) \<Rightarrow>
             (Some (Inl (corrupt_record (rpl_current_segment r) off reason)), r\<lparr>rpl_finished := True\<rparr>))
      else if length (rpl_segments r) \<le> rpl_next_segment r then (None, r\<lparr>rpl_finished := True\<rparr>)
      else let (sid, path) = rpl_segments r ! rpl_next_segment r;
               r = r\<lparr>rpl_next_segment := Suc (rpl_next_segment r)\<rparr>
           in case read_file F D path of
                Inl e \<Rightarrow> (Some (Inl e), r\<lparr>rpl_finished := True\<rparr>)
              | Inr data \<Rightarrow>
                  replay_loop X F D (r\<lparr>rpl_current_segment := sid, rpl_buf := data, rpl_offset := 0\<rparr>))"
  by pat_completeness auto
termination
  by (relation "measure (\<lambda>(X, F, D, r). length (rpl_segments r) - rpl_next_segment r)") auto

declare replay_loop.simps [simp del]

definition replay_next ::
  "ext \<Rightarrow> io_faults \<Rightarrow> wal_dir \<Rightarrow> replay \<Rightarrow> (persistence_error + wal_record) option \<times> replay" where
  "replay_next X F D r = (if rpl_finished r then (None, r) else replay_loop X F D r)"

definition replay_left :: "replay \<Rightarrow> nat \<times> nat" where
  "replay_left r = (length (rpl_segments r) - rpl_next_segment r, length (rpl_buf r) - rpl_offset r)"

lemma replay_loop_parse:
  "rpl_offset r < length (rpl_buf r) \<Longrightarrow> replay_loop X F D r =
     (case parse_one X (rpl_buf r) (rpl_offset r) of
        Inr parsed \<Rightarrow>
          (Some (Inr \<lparr>wr_segment_id = rpl_current_segment r, wr_offset = rpl_offset r,
             wr_record_type = pr_record_type parsed, wr_payload = pr_payload parsed\<rparr>),
           r\<lparr>rpl_offset := pr_next_offset parsed\<rparr>)
      | Inl (Truncated valid_len) \<Rightarrow>
          (Some (Inl (truncated_after (rpl_current_segment r) valid_len)), r\<lparr>rpl_finished := True\<rparr>)
      | Inl (Corrupt off reason) \<Rightarrow>
          (Some (Inl (corrupt_record (rpl_current_segment r) off reason)), r\<lparr>rpl_finished := True\<rparr>))"
  by (subst replay_loop.simps) simp

lemma replay_loop_end:
  "\<not> rpl_offset r < length (rpl_buf r) \<Longrightarrow> length (rpl_segments r) \<le> rpl_next_segment r \<Longrightarrow>
     replay_loop X F D r = (None, r\<lparr>rpl_finished := True\<rparr>)"
  by (subst replay_loop.simps) simp

lemma replay_loop_open:
  "\<not> rpl_offset r < length (rpl_buf r) \<Longrightarrow> rpl_next_segment r < length (rpl_segments r) \<Longrightarrow>
     rpl_segments r ! rpl_next_segment r = (sid, path) \<Longrightarrow>
     replay_loop X F D r =
       (case read_file F D path of
          Inl e \<Rightarrow> (Some (Inl e), r\<lparr>rpl_next_segment := Suc (rpl_next_segment r), rpl_finished := True\<rparr>)
        | Inr data \<Rightarrow> replay_loop X F D
            (r\<lparr>rpl_next_segment := Suc (rpl_next_segment r), rpl_current_segment := sid,
               rpl_buf := data, rpl_offset := 0\<rparr>))"
  by (subst replay_loop.simps) (simp add: Let_def)

lemma replay_loop_progress:
  "replay_loop X F D r = (Some (Inr w), r') \<Longrightarrow> (replay_left r', replay_left r) \<in> less_than <*lex*> less_than"
proof (induction "length (rpl_segments r) - rpl_next_segment r" arbitrary: r rule: less_induct)
  case less
  consider (parse) "rpl_offset r < length (rpl_buf r)"
    | (fin) "\<not> rpl_offset r < length (rpl_buf r)" "length (rpl_segments r) \<le> rpl_next_segment r"
    | (opn) "\<not> rpl_offset r < length (rpl_buf r)" "rpl_next_segment r < length (rpl_segments r)"
    by linarith
  then show ?case
  proof cases
    case parse
    with less.prems obtain p where "parse_one X (rpl_buf r) (rpl_offset r) = Inr p"
      "r' = r\<lparr>rpl_offset := pr_next_offset p\<rparr>"
      by (auto simp: replay_loop_parse split: sum.splits scan_error.splits)
    with parse show ?thesis
      using parse_one_progress [of X "rpl_buf r" "rpl_offset r" p] by (auto simp: replay_left_def HEADER_LEN_def)
  next
    case fin
    with less.prems show ?thesis by (simp add: replay_loop_end)
  next
    case opn
    obtain sid path where "rpl_segments r ! rpl_next_segment r = (sid, path)" by fastforce
    with opn less.prems obtain data where "replay_loop X F D
        (r\<lparr>rpl_next_segment := Suc (rpl_next_segment r), rpl_current_segment := sid,
           rpl_buf := data, rpl_offset := 0\<rparr>) = (Some (Inr w), r')" (is "replay_loop X F D ?r = _")
      by (auto simp: replay_loop_open split: sum.splits)
    moreover have "length (rpl_segments r) - Suc (rpl_next_segment r) < length (rpl_segments r) - rpl_next_segment r"
      using opn(2) by linarith
    ultimately show ?thesis using less.hyps [of ?r] opn(1) by (auto simp: replay_left_def)
  qed
qed

function replay_collect :: "ext \<Rightarrow> io_faults \<Rightarrow> wal_dir \<Rightarrow> replay \<Rightarrow> persistence_error + wal_record list" where
  "replay_collect X F D r =
     (case replay_next X F D r of
        (None, r') \<Rightarrow> Inr []
      | (Some (Inl e), r') \<Rightarrow> Inl e
      | (Some (Inr w), r') \<Rightarrow> map_sum id (Cons w) (replay_collect X F D r'))"
  by pat_completeness auto
termination
  by (relation "inv_image (less_than <*lex*> less_than) (\<lambda>(X, F, D, r). replay_left r)")
    (auto simp: replay_next_def split: if_splits intro!: replay_loop_progress [OF sym])

declare replay_collect.simps [simp del]

definition replay_all :: "ext \<Rightarrow> io_faults \<Rightarrow> wal_dir \<Rightarrow> (persistence_error + wal_record list) \<times> wal_dir" where
  "replay_all X F D =
     (case replay_open X F D of
        (Inl e, D) \<Rightarrow> (Inl e, D)
      | (Inr r, D) \<Rightarrow> (replay_collect X F D r, D))"

section \<open>The writer task\<close>

datatype fsync_strategy = Always | Everysec | No

record wal_config =
  wc_max_segment_size :: nat
  wc_fsync_strategy :: fsync_strategy

text \<open>
  Outcomes of the I/O of one step: an error message where the call fails, and for
  \<open>write_all\<close> also how many of its bytes reached the file before it failed.
\<close>

record write_io =
  wio_flush :: "string option"
  wio_sync :: "string option"
  wio_create :: "string option"
  wio_write :: "(string \<times> nat) option"

definition io_good :: write_io where
  "io_good = \<lparr>wio_flush = None, wio_sync = None, wio_create = None, wio_write = None\<rparr>"

record writer_state =
  ws_file :: string
  ws_segment_id :: nat
  ws_segment_len :: nat
  ws_max_segment_size :: nat
  ws_fsync_strategy :: fsync_strategy
  ws_dirty :: bool
  ws_active_segment :: nat

definition sync_all :: "wal_file \<Rightarrow> wal_file" where
  "sync_all f = f\<lparr>fsynced := length (fdata f)\<rparr>"

definition flush_file ::
  "write_io \<Rightarrow> string \<Rightarrow> bool \<Rightarrow> wal_dir \<Rightarrow> (persistence_error + unit) \<times> wal_dir" where
  "flush_file io path sync_data D =
     (case wio_flush io of Some e \<Rightarrow> (Inl (Io e), D)
      | None \<Rightarrow>
        if sync_data then
          (case wio_sync io of Some e \<Rightarrow> (Inl (Io e), D)
           | None \<Rightarrow> (Inr (), update_file path sync_all D))
        else (Inr (), D))"

definition roll_segment ::
  "write_io \<Rightarrow> writer_state \<Rightarrow> wal_dir \<Rightarrow> (persistence_error + unit) \<times> writer_state \<times> wal_dir" where
  "roll_segment io st D =
     (case (if ws_dirty st then flush_file io (ws_file st) (ws_fsync_strategy st \<noteq> No) D else (Inr (), D)) of
        (Inl e, D) \<Rightarrow> (Inl e, st, D)
      | (Inr _, D) \<Rightarrow>
        let st = st\<lparr>ws_dirty := False\<rparr>;
            st = st\<lparr>ws_segment_id := u64_add (ws_segment_id st) 1\<rparr>;
            path = segment_path (ws_segment_id st)
        in case wio_create io of Some e \<Rightarrow> (Inl (Io e), st, D)
           | None \<Rightarrow>
             if dm_get D path \<noteq> None then (Inl (Io ''File exists (os error 17)''), st, D)
             else (Inr (), st\<lparr>ws_file := path, ws_segment_len := 0, ws_active_segment := ws_segment_id st\<rparr>,
                   dm_insert path \<lparr>fdata = [], fsynced = 0\<rparr> D))"

definition append_bytes :: "bytes \<Rightarrow> wal_file \<Rightarrow> wal_file" where
  "append_bytes bs f = f\<lparr>fdata := fdata f @ bs\<rparr>"

definition handle_append ::
  "ext \<Rightarrow> write_io \<Rightarrow> writer_state \<Rightarrow> wal_dir \<Rightarrow> record_type \<Rightarrow> bytes \<Rightarrow>
   (persistence_error + wal_position) \<times> writer_state \<times> wal_dir" where
  "handle_append X io st D record_type payload =
     (let encoded = encode_record X record_type payload [];
          record_len = length encoded
      in case (if 0 < ws_segment_len st \<and> ws_max_segment_size st < ws_segment_len st + record_len
               then roll_segment io st D else (Inr (), st, D)) of
           (Inl e, st, D) \<Rightarrow> (Inl e, st, D)
         | (Inr _, st, D) \<Rightarrow>
           let position = \<lparr>segment_id = ws_segment_id st, offset = ws_segment_len st\<rparr>
           in case wio_write io of
                Some (e, n) \<Rightarrow> (Inl (Io e), st, update_file (ws_file st) (append_bytes (take n encoded)) D)
              | None \<Rightarrow>
                (Inr position,
                 st\<lparr>ws_segment_len := ws_segment_len st + record_len, ws_dirty := True\<rparr>,
                 update_file (ws_file st) (append_bytes encoded) D))"

datatype wal_message =
    Append record_type bytes nat
  | Flush nat
  | Shutdown nat

datatype wal_reply =
    AppendReply nat "persistence_error + wal_position"
  | DoneReply nat "persistence_error + unit"

record batch =
  b_acks :: "(nat \<times> wal_position) list"
  b_flushers :: "nat list"
  b_shutdown :: "nat option"

definition empty_batch :: batch where
  "empty_batch = \<lparr>b_acks = [], b_flushers = [], b_shutdown = None\<rparr>"

definition fail_all :: "batch \<Rightarrow> string \<Rightarrow> wal_reply list" where
  "fail_all b message =
     map (\<lambda>(ack, _). AppendReply ack (Inl (WalWriteFailed message))) (b_acks b) @
     map (\<lambda>flusher. DoneReply flusher (Inl (WalWriteFailed message))) (b_flushers b) @
     (case b_shutdown b of None \<Rightarrow> [] | Some s \<Rightarrow> [DoneReply s (Inl (WalWriteFailed message))])"

definition ack_all :: "batch \<Rightarrow> wal_reply list" where
  "ack_all b =
     map (\<lambda>(ack, position). AppendReply ack (Inr position)) (b_acks b) @
     map (\<lambda>flusher. DoneReply flusher (Inr ())) (b_flushers b) @
     (case b_shutdown b of None \<Rightarrow> [] | Some s \<Rightarrow> [DoneReply s (Inr ())])"

fun handle_message ::
  "ext \<Rightarrow> write_io \<Rightarrow> writer_state \<Rightarrow> wal_dir \<Rightarrow> wal_message \<Rightarrow> batch \<Rightarrow>
   wal_reply list \<times> writer_state \<times> wal_dir \<times> batch" where
  "handle_message X io st D (Append record_type payload ack) b =
     (case handle_append X io st D record_type payload of
        (Inr position, st, D) \<Rightarrow> ([], st, D, b\<lparr>b_acks := b_acks b @ [(ack, position)]\<rparr>)
      | (Inl e, st, D) \<Rightarrow> ([AppendReply ack (Inl e)], st, D, b))"
| "handle_message X io st D (Flush waiter) b = ([], st, D, b\<lparr>b_flushers := b_flushers b @ [waiter]\<rparr>)"
| "handle_message X io st D (Shutdown waiter) b = ([], st, D, b\<lparr>b_shutdown := Some waiter\<rparr>)"

fun handle_messages ::
  "ext \<Rightarrow> (wal_message \<times> write_io) list \<Rightarrow> writer_state \<Rightarrow> wal_dir \<Rightarrow> batch \<Rightarrow>
   wal_reply list \<times> writer_state \<times> wal_dir \<times> batch" where
  "handle_messages X [] st D b = ([], st, D, b)"
| "handle_messages X ((m, io) # ms) st D b =
     (let (rs, st, D, b) = handle_message X io st D m b;
          (rs', st, D, b) = handle_messages X ms st D b
      in (rs @ rs', st, D, b))"

text \<open>
  The task runs or has returned.  One turn of its loop takes a drained batch (the message
  that woke it and all that were queued), the one second tick, or the closing of the channel.
\<close>

datatype writer_task = WriterRunning writer_state | WriterStopped "persistence_error + unit"

definition must_sync :: "writer_state \<Rightarrow> batch \<Rightarrow> bool" where
  "must_sync st b \<longleftrightarrow> ws_dirty st \<and>
     (ws_fsync_strategy st = Always \<or> b_flushers b \<noteq> [] \<or> b_shutdown b \<noteq> None)"

definition writer_batch ::
  "ext \<Rightarrow> (wal_message \<times> write_io) list \<Rightarrow> write_io \<Rightarrow> writer_state \<Rightarrow> wal_dir \<Rightarrow>
   wal_reply list \<times> writer_task \<times> wal_dir" where
  "writer_batch X ms sync_io st D =
     (let (rs, st, D, b) = handle_messages X ms st D empty_batch
      in case (if must_sync st b then flush_file sync_io (ws_file st) True D else (Inr (), D)) of
           (Inl err, D) \<Rightarrow> (rs @ fail_all b (persistence_error_display err), WriterStopped (Inl err), D)
         | (Inr _, D) \<Rightarrow>
           let st = (if must_sync st b then st\<lparr>ws_dirty := False\<rparr> else st)
           in (rs @ ack_all b,
               if b_shutdown b \<noteq> None then WriterStopped (Inr ()) else WriterRunning st, D))"

definition writer_tick :: "write_io \<Rightarrow> writer_state \<Rightarrow> wal_dir \<Rightarrow> writer_task \<times> wal_dir" where
  "writer_tick io st D =
     (if ws_fsync_strategy st = Everysec \<and> ws_dirty st then
        (case flush_file io (ws_file st) True D of
           (Inl err, D) \<Rightarrow> (WriterStopped (Inl err), D)
         | (Inr _, D) \<Rightarrow> (WriterRunning (st\<lparr>ws_dirty := False\<rparr>), D))
      else (WriterRunning st, D))"

definition writer_closed :: "write_io \<Rightarrow> writer_state \<Rightarrow> wal_dir \<Rightarrow> writer_task \<times> wal_dir" where
  "writer_closed io st D =
     (if ws_dirty st then
        (case flush_file io (ws_file st) (ws_fsync_strategy st \<noteq> No) D of
           (Inl err, D) \<Rightarrow> (WriterStopped (Inl err), D)
         | (Inr _, D) \<Rightarrow> (WriterStopped (Inr ()), D))
      else (WriterStopped (Inr ()), D))"

section \<open>The writer handle\<close>

record wal_writer =
  ww_task :: writer_task
  ww_dir :: wal_dir

definition wal_open ::
  "ext \<Rightarrow> io_faults \<Rightarrow> wal_config \<Rightarrow> wal_dir \<Rightarrow> (persistence_error + wal_writer) \<times> wal_dir" where
  "wal_open X F cfg D =
     (if wc_max_segment_size cfg \<le> HEADER_LEN then
        (Inl (WalWriteFailed (''max_segment_size must exceed the record header ('' @
           nat_to_string HEADER_LEN @ '' bytes)'')), D)
      else case iof_create_dir F of Some e \<Rightarrow> (Inl (Io e), D)
      | None \<Rightarrow>
        (case recover X F D of (Inl e, D) \<Rightarrow> (Inl e, D)
         | (Inr report, D) \<Rightarrow>
           let (sid, slen) =
                 (if rep_segments report = [] then (1, 0)
                  else let info = last (rep_segments report) in
                    if si_valid_len info < wc_max_segment_size cfg then (si_id info, si_valid_len info)
                    else (u64_add (si_id info) 1, 0));
               path = segment_path sid
           in case iof_open F of Some e \<Rightarrow> (Inl (Io e), D)
              | None \<Rightarrow>
                let D = (if dm_get D path = None then dm_insert path \<lparr>fdata = [], fsynced = 0\<rparr> D else D);
                    st = \<lparr>ws_file = path, ws_segment_id = sid, ws_segment_len = slen,
                       ws_max_segment_size = wc_max_segment_size cfg,
                       ws_fsync_strategy = wc_fsync_strategy cfg, ws_dirty = False,
                       ws_active_segment = sid\<rparr>
                in (Inr \<lparr>ww_task = WriterRunning st, ww_dir = D\<rparr>, D)))"

text \<open>
  The client calls, for a client that awaits each reply before its next message: the message
  is a batch of its own.  The reply to channel 0 is the call's result.
\<close>

fun append_result :: "wal_reply list \<Rightarrow> persistence_error + wal_position" where
  "append_result (AppendReply 0 r # _) = r"
| "append_result (_ # rs) = append_result rs"
| "append_result [] = Inl (WalWriteFailed ''WAL append acknowledgment lost'')"

fun done_result :: "string \<Rightarrow> wal_reply list \<Rightarrow> persistence_error + unit" where
  "done_result lost (DoneReply 0 r # _) = r"
| "done_result lost (_ # rs) = done_result lost rs"
| "done_result lost [] = Inl (WalWriteFailed lost)"

definition wal_append ::
  "ext \<Rightarrow> write_io \<Rightarrow> write_io \<Rightarrow> wal_writer \<Rightarrow> record_type \<Rightarrow> bytes \<Rightarrow>
   (persistence_error + wal_position) \<times> wal_writer" where
  "wal_append X io sync_io W record_type payload =
     (if 2 ^ 32 - 1 < length payload then
        (Inl (WalWriteFailed ''payload exceeds the 4 GiB record limit''), W)
      else case ww_task W of
        WriterStopped _ \<Rightarrow> (Inl (WalWriteFailed ''WAL writer task stopped''), W)
      | WriterRunning st \<Rightarrow>
        (case writer_batch X [(Append record_type payload 0, io)] sync_io st (ww_dir W) of
           (rs, task, D) \<Rightarrow> (append_result rs, \<lparr>ww_task = task, ww_dir = D\<rparr>)))"

definition wal_flush :: "ext \<Rightarrow> write_io \<Rightarrow> wal_writer \<Rightarrow> (persistence_error + unit) \<times> wal_writer" where
  "wal_flush X sync_io W =
     (case ww_task W of
        WriterStopped _ \<Rightarrow> (Inl (WalWriteFailed ''WAL writer task stopped''), W)
      | WriterRunning st \<Rightarrow>
        (case writer_batch X [(Flush 0, io_good)] sync_io st (ww_dir W) of
           (rs, task, D) \<Rightarrow>
             (done_result ''WAL flush acknowledgment lost'' rs, \<lparr>ww_task = task, ww_dir = D\<rparr>)))"

definition wal_shutdown :: "ext \<Rightarrow> write_io \<Rightarrow> wal_writer \<Rightarrow> (persistence_error + unit) \<times> wal_writer" where
  "wal_shutdown X sync_io W =
     (case ww_task W of
        WriterStopped _ \<Rightarrow> (Inl (WalWriteFailed ''WAL writer task stopped''), W)
      | WriterRunning st \<Rightarrow>
        (case writer_batch X [(Shutdown 0, io_good)] sync_io st (ww_dir W) of
           (rs, task, D) \<Rightarrow>
             let result = done_result ''WAL shutdown acknowledgment lost'' rs;
                 W = \<lparr>ww_task = task, ww_dir = D\<rparr>
             in case task of WriterStopped (Inl err) \<Rightarrow> (Inl err, W) | _ \<Rightarrow> (result, W)))"

fun remove_segments ::
  "io_faults \<Rightarrow> nat \<Rightarrow> (nat \<times> string) list \<Rightarrow> nat \<Rightarrow> wal_dir \<Rightarrow> (persistence_error + nat) \<times> wal_dir" where
  "remove_segments F cutoff [] removed D = (Inr removed, D)"
| "remove_segments F cutoff ((sid, path) # segs) removed D =
     (if sid < cutoff then
        (case iof_remove F path of Some e \<Rightarrow> (Inl (Io e), D)
         | None \<Rightarrow> remove_segments F cutoff segs (Suc removed) (dm_remove path D))
      else remove_segments F cutoff segs removed D)"

definition truncate_before ::
  "io_faults \<Rightarrow> nat \<Rightarrow> nat \<Rightarrow> wal_dir \<Rightarrow> (persistence_error + nat) \<times> wal_dir" where
  "truncate_before F active sid D =
     (let cutoff = min sid active in
      case list_segments F D of Inl e \<Rightarrow> (Inl e, D)
      | Inr segs \<Rightarrow> remove_segments F cutoff segs 0 D)"

end
