(* ===== verification/Ledger_Record.thy ===== *)
theory Ledger_Record
  imports Model Wal
begin

text \<open>
  \<open>calod-ledger/src/record.rs\<close> and the data of \<open>snapshot.rs\<close>: the mutations the ledger logs,
  the state a snapshot holds and the manifest beside it.

  The JSON text of these values is produced and read by the derived \<open>serde\<close> implementations,
  which are not part of the sources: the record \<open>serde\<close> holds them as parameters (an error is
  its message).  The predicates \<open>record_codec_ok\<close>, \<open>state_codec_ok\<close> and \<open>manifest_codec_ok\<close>
  are what the ledger relies on for one value: it serializes, and its text parses back to it.
\<close>

section \<open>Mutations\<close>

datatype record_kind =
    RunCreated run_record
  | RunUpdated run_record
  | EffectApplied effect_record "event_record option"
  | EventAppended event_record
  | CheckpointCreated checkpoint_record
  | RetentionApplied int "uuid list" "uuid list"

definition RECORD_VERSION :: nat where "RECORD_VERSION = 1"

record ledger_wal_record =
  lr_v :: nat
  lr_kind :: record_kind

record persisted_state =
  ps_schema_version :: nat
  ps_runs :: "run_record list"
  ps_effects :: "effect_record list"
  ps_events :: "event_record list"
  ps_checkpoints :: "checkpoint_record list"

record snapshot_file_entry =
  sfe_path :: string
  sfe_len :: nat
  sfe_crc32c :: "32 word"

record ledger_snapshot_manifest =
  lm_version :: nat
  lm_created_at_ms :: int
  lm_wal_watermark :: "wal_position option"
  lm_files :: "snapshot_file_entry list"

section \<open>Serialization\<close>

record serde =
  record_to_vec :: "ledger_wal_record \<Rightarrow> string + bytes"
  record_from_slice :: "bytes \<Rightarrow> string + ledger_wal_record"
  state_to_vec :: "persisted_state \<Rightarrow> string + bytes"
  state_from_slice :: "bytes \<Rightarrow> string + persisted_state"
  manifest_to_vec_pretty :: "ledger_snapshot_manifest \<Rightarrow> string + bytes"
  manifest_from_slice :: "bytes \<Rightarrow> string + ledger_snapshot_manifest"

definition encode :: "serde \<Rightarrow> record_kind \<Rightarrow> persistence_error + bytes" where
  "encode K kind =
     (case record_to_vec K \<lparr>lr_v = RECORD_VERSION, lr_kind = kind\<rparr> of
        Inl err \<Rightarrow> Inl (WalWriteFailed (''ledger record encode: '' @ err))
      | Inr bs \<Rightarrow> Inr bs)"

definition decode :: "serde \<Rightarrow> bytes \<Rightarrow> persistence_error + ledger_wal_record" where
  "decode K payload =
     (case record_from_slice K payload of
        Inl err \<Rightarrow> Inl (Corruption (''undecodable ledger WAL record: '' @ err))
      | Inr record \<Rightarrow>
          if lr_v record \<noteq> RECORD_VERSION then
            Inl (Corruption (''unsupported ledger record version '' @ nat_to_string (lr_v record) @
              '' (expected '' @ nat_to_string RECORD_VERSION @ '')''))
          else Inr record)"

definition record_codec_ok :: "serde \<Rightarrow> record_kind \<Rightarrow> bool" where
  "record_codec_ok K kind \<longleftrightarrow>
     (\<exists>bs. record_to_vec K \<lparr>lr_v = RECORD_VERSION, lr_kind = kind\<rparr> = Inr bs \<and> length bs < 2 ^ 32 \<and>
        record_from_slice K bs = Inr \<lparr>lr_v = RECORD_VERSION, lr_kind = kind\<rparr>)"

definition state_codec_ok :: "serde \<Rightarrow> persisted_state \<Rightarrow> bool" where
  "state_codec_ok K st \<longleftrightarrow> (\<exists>bs. state_to_vec K st = Inr bs \<and> state_from_slice K bs = Inr st)"

definition manifest_codec_ok :: "serde \<Rightarrow> ledger_snapshot_manifest \<Rightarrow> bool" where
  "manifest_codec_ok K mf \<longleftrightarrow>
     (\<exists>bs. manifest_to_vec_pretty K mf = Inr bs \<and> manifest_from_slice K bs = Inr mf)"

lemma encode_decode:
  assumes "record_codec_ok K kind"
  obtains bs where "encode K kind = Inr bs" "length bs < 2 ^ 32"
    "decode K bs = Inr \<lparr>lr_v = RECORD_VERSION, lr_kind = kind\<rparr>"
  using assms by (auto simp: record_codec_ok_def encode_def decode_def)

end
