(* ===== verification/Hash_Chain.thy ===== *)
theory Hash_Chain
  imports Model
begin

text \<open>
  The event hash chain of \<open>calod-ledger/src/model.rs\<close>.

  \<open>hash_chain\<close> is the contract of a chain verifier: the empty chain verifies, and a chain
  with one more event verifies when the event carries the next sequence number, links to the
  head and recomputes.  \<open>committing_chain\<close> adds that the hash commits to the event's content.
  Inside, once: every prefix of a verified chain verifies, positions are the sequence
  numbers, and two verified chains with the same head hash have the same contents, unless a
  collision is at hand.  Both are interpreted on the verifier of the code.
\<close>

section \<open>Chains\<close>

locale hash_chain =
  fixes seq :: "'e \<Rightarrow> int"
    and prev :: "'e \<Rightarrow> string"
    and hsh :: "'e \<Rightarrow> string"
    and compute :: "'e \<Rightarrow> string"
    and genesis :: string
    and verify :: "'e list \<Rightarrow> bool"
  assumes verify_Nil: "verify []"
    and verify_snoc: "verify (es @ [e]) \<longleftrightarrow>
      verify es \<and> seq e = i64_add (wrap_i64 (int (length es))) 1 \<and>
      prev e = (if es = [] then genesis else hsh (last es)) \<and> hsh e = compute e"
begin

definition head_hash :: "'e list \<Rightarrow> string" where
  "head_hash es = (if es = [] then genesis else hsh (last es))"

lemma verify_prefix: "verify (xs @ ys) \<Longrightarrow> verify xs"
  by (induction ys rule: rev_induct) (auto simp: verify_snoc simp flip: append_assoc)

lemma verify_take: "verify es \<Longrightarrow> verify (take n es)"
  by (metis append_take_drop_id verify_prefix)

lemma verify_extend:
  assumes "verify es" "int (length es) < i64_max" "seq e = int (length es) + 1"
    and "prev e = head_hash es" "hsh e = compute e"
  shows "verify (es @ [e])"
  using assms by (simp add: verify_snoc head_hash_def i64_add_def in_i64_def i64_min_def)

lemma verify_nth:
  assumes "verify es" "i < length es" "int (length es) \<le> i64_max"
  shows "seq (es ! i) = int i + 1" and "prev (es ! i) = head_hash (take i es)"
    and "hsh (es ! i) = compute (es ! i)"
proof -
  have "verify (take i es @ [es ! i])"
    using verify_take [OF assms(1), of "Suc i"] assms(2) by (simp add: take_Suc_conv_app_nth)
  then show "seq (es ! i) = int i + 1" and "prev (es ! i) = head_hash (take i es)"
    and "hsh (es ! i) = compute (es ! i)"
    using assms(2,3) by (auto simp: verify_snoc head_hash_def i64_add_def in_i64_def i64_min_def)
qed

end

text \<open>
  \<open>valid\<close> events commit to their previous hash and their \<open>key\<close> unless \<open>bad\<close>; the key
  contains the sequence number; the hashes in a chain are renderings of digests.
\<close>

locale committing_chain = hash_chain +
  fixes key :: "'a \<Rightarrow> 'k"
    and valid :: "'a \<Rightarrow> bool"
    and rendered :: "string \<Rightarrow> bool"
    and bad :: bool
  assumes key_seq: "key e = key e' \<Longrightarrow> seq e = seq e'"
    and rendered_genesis: "rendered genesis"
    and rendered_compute: "\<not> bad \<Longrightarrow> rendered (compute e)"
    and commit: "\<not> bad \<Longrightarrow> valid e \<Longrightarrow> valid e' \<Longrightarrow> rendered (prev e) \<Longrightarrow> rendered (prev e') \<Longrightarrow>
      compute e = compute e' \<Longrightarrow> prev e = prev e' \<and> key e = key e'"
begin

lemma rendered_head: "\<not> bad \<Longrightarrow> verify es \<Longrightarrow> rendered (head_hash es)"
  by (cases es rule: rev_cases) (auto simp: head_hash_def verify_snoc rendered_genesis rendered_compute)

lemma same_head_same_keys:
  assumes "\<not> bad"
  shows "verify es \<Longrightarrow> verify es' \<Longrightarrow> (\<forall>e \<in> set es \<union> set es'. valid e) \<Longrightarrow>
    int (length es) \<le> i64_max \<Longrightarrow> int (length es') \<le> i64_max \<Longrightarrow>
    length es = length es' \<or> (es \<noteq> [] \<and> es' \<noteq> []) \<Longrightarrow>
    head_hash es = head_hash es' \<Longrightarrow> map key es = map key es'"
proof (induction es arbitrary: es' rule: rev_induct)
  case Nil
  then show ?case by auto
next
  case (snoc e es)
  then obtain ds d where d: "es' = ds @ [d]" by (cases es' rule: rev_cases) auto
  have ve: "verify es" "prev e = head_hash es" "hsh e = compute e" "seq e = int (length es) + 1"
    and vd: "verify ds" "prev d = head_hash ds" "hsh d = compute d" "seq d = int (length ds) + 1"
    using snoc.prems d by (auto simp: verify_snoc head_hash_def i64_add_def in_i64_def i64_min_def)
  have "compute e = compute d" using snoc.prems(7) d ve vd by (simp add: head_hash_def)
  then have c: "prev e = prev d" "key e = key d"
    using commit [OF assms, of e d] snoc.prems(3) d ve vd rendered_head [OF assms] by auto
  have "length es = length ds" using key_seq [OF c(2)] ve(4) vd(4) by simp
  moreover have "head_hash es = head_hash ds" using c(1) ve vd by simp
  ultimately have "map key es = map key ds"
    using snoc.prems ve(1) vd(1) d by (intro snoc.IH) auto
  with c d show ?case by simp
qed

end

section \<open>The code's verifier\<close>

lemma verify_from_append:
  "verify_event_chain_from X i p (es @ fs) \<longleftrightarrow>
     verify_event_chain_from X i p es \<and>
     verify_event_chain_from X (i + length es) (if es = [] then p else ev_hash (last es)) fs"
  by (induction es arbitrary: i p) auto

lemma verify_event_chain_snoc:
  "verify_event_chain X (es @ [e]) \<longleftrightarrow>
     verify_event_chain X es \<and> ev_sequence e = i64_add (wrap_i64 (int (length es))) 1 \<and>
     ev_previous_hash e = (if es = [] then GENESIS_HASH else ev_hash (last es)) \<and>
     ev_hash e = compute_event_hash X e"
  by (auto simp: verify_event_chain_def verify_from_append)

text \<open>What an event's hash commits to.\<close>

definition event_key ::
  "event_view \<Rightarrow> uuid \<times> uuid \<times> int \<times> string \<times> string \<times> string \<times> json" where
  "event_key e = (ev_id e, ev_run_id e, ev_sequence e, ev_event_type e, ev_occurred_at e,
     ev_recorded_at e, norm_json (ev_payload e))"

definition rendered_digest :: "string \<Rightarrow> bool" where
  "rendered_digest h \<longleftrightarrow> (\<exists>b. length b = 32 \<and> h = ''sha256:'' @ hex_encode b)"

definition ext_ok :: "ext \<Rightarrow> bool" where
  "ext_ok X \<longleftrightarrow> sha256_ok X \<and> json_tokens_ok X \<and> uuid_ok X"

lemma digest_bytes_rendered: "length b = 32 \<Longrightarrow> digest_bytes (''sha256:'' @ hex_encode b) = Some b"
  by (simp add: digest_bytes_def strip_prefix_def hex_decode_32_def)

lemma genesis_rendered: "rendered_digest GENESIS_HASH"
proof -
  have "hex_encode (the (digest_bytes GENESIS_HASH)) = drop 7 GENESIS_HASH \<and>
      length (the (digest_bytes GENESIS_HASH)) = 32 \<and> take 7 GENESIS_HASH = ''sha256:''"
    by code_simp
  then show ?thesis unfolding rendered_digest_def by (metis append_take_drop_id)
qed

lemma map_of_sort_key: "distinct (map fst m) \<Longrightarrow> map_of (sort_key fst m) = map_of m"
  by (rule map_of_inject_set [THEN iffD2]) (auto simp: map_fst_sort_key)

lemma map_of_norm:
  assumes "distinct (map fst m)"
  shows "map_of (sort_key fst (map (\<lambda>(k, v). (k, norm_json v)) m)) k = map_option norm_json (map_of m k)"
  unfolding sort_key_map_snd map_of_map comp_def map_of_sort_key [OF assms] by (rule refl)

lemma norm_object_lookup:
  assumes "norm_json (JObject m) = norm_json (JObject m')"
    and "distinct (map fst m)" "distinct (map fst m')"
  shows "map_option norm_json (map_of m k) = map_option norm_json (map_of m' k)"
proof -
  from assms(1) have "sort_key fst (map (\<lambda>(k, v). (k, norm_json v)) m) = sort_key fst (map (\<lambda>(k, v). (k, norm_json v)) m')"
    by (simp only: norm_json.simps json.inject)
  then show ?thesis
    by (simp only: map_of_norm [OF assms(2), symmetric] map_of_norm [OF assms(3), symmetric])
qed

lemma event_hash_input_ok: "json_ok (ev_payload e) \<Longrightarrow> json_ok (event_hash_input X e)"
  by (simp add: event_hash_input_def)

lemma event_hash_input_key:
  assumes "uuid_ok X" "norm_json (event_hash_input X e) = norm_json (event_hash_input X e')"
  shows "event_key e = event_key e'"
proof -
  note look = norm_object_lookup [OF assms(2) [unfolded event_hash_input_def]]
  have inj: "uuid_to_string X u = uuid_to_string X v \<Longrightarrow> u = v" for u v
    using assms(1) unfolding uuid_ok_def inj_def by blast
  show ?thesis
    using look [of "''id''"] look [of "''run_id''"] look [of "''sequence''"] look [of "''type''"]
      look [of "''occurred_at''"] look [of "''recorded_at''"] look [of "''payload''"]
    by (simp add: event_key_def inj)
qed

lemma compute_event_hash_commits:
  assumes X: "ext_ok X" "\<not> sha256_collision X"
    and "json_ok (ev_payload e)" "json_ok (ev_payload e')"
    and r: "rendered_digest (ev_previous_hash e)" "rendered_digest (ev_previous_hash e')"
    and eq: "compute_event_hash X e = compute_event_hash X e'"
  shows "ev_previous_hash e = ev_previous_hash e' \<and> event_key e = event_key e'"
proof -
  note ok = event_hash_input_ok [OF assms(3), of X] event_hash_input_ok [OF assms(4), of X]
  from r obtain b b' where b: "length b = 32" "ev_previous_hash e = ''sha256:'' @ hex_encode b"
    "length b' = 32" "ev_previous_hash e' = ''sha256:'' @ hex_encode b'"
    unfolding rendered_digest_def by blast
  have "canonical_json_into X (event_hash_input X e) b = canonical_json_into X (event_hash_input X e') b'"
    using sha256_digest_inj X(2) eq b(1,3)
    unfolding compute_event_hash_def b(2,4) digest_bytes_rendered [OF b(1)] digest_bytes_rendered [OF b(3)]
    by (auto simp: unwrap_or_def)
  then have "b @ canonical_json X (event_hash_input X e) = b' @ canonical_json X (event_hash_input X e')"
    using ok by (simp add: canonical_json_canon canonical_into_canon)
  with b have "b = b'" "canonical_json X (event_hash_input X e) = canonical_json X (event_hash_input X e')"
    by auto
  with b X ok show ?thesis
    using canonical_json_inj event_hash_input_key by (metis ext_ok_def)
qed

lemma compute_rendered: "ext_ok X \<Longrightarrow> rendered_digest (compute_event_hash X e)"
  unfolding compute_event_hash_def Let_def rendered_digest_def sha256_digest_def ext_ok_def
  by (blast intro: sha256_len)

interpretation chain: committing_chain ev_sequence ev_previous_hash ev_hash "compute_event_hash X"
    GENESIS_HASH "verify_event_chain X" event_key "\<lambda>e. json_ok (ev_payload e)" rendered_digest
    "\<not> ext_ok X \<or> sha256_collision X" for X
proof unfold_locales
  fix e e'
  assume "event_key e = event_key e'"
  then show "ev_sequence e = ev_sequence e'" by (simp add: event_key_def)
next
  fix e e'
  assume "\<not> (\<not> ext_ok X \<or> sha256_collision X)" "json_ok (ev_payload e)" "json_ok (ev_payload e')"
    "rendered_digest (ev_previous_hash e)" "rendered_digest (ev_previous_hash e')"
    "compute_event_hash X e = compute_event_hash X e'"
  then show "ev_previous_hash e = ev_previous_hash e' \<and> event_key e = event_key e'"
    using compute_event_hash_commits by blast
qed (simp_all add: verify_event_chain_def verify_event_chain_snoc [unfolded verify_event_chain_def]
    genesis_rendered compute_rendered)

interpretation stored: hash_chain evr_sequence evr_previous_hash evr_hash
    "\<lambda>e. compute_event_hash X (view_event e)" GENESIS_HASH
    "\<lambda>es. verify_event_chain X (map view_event es)" for X
  by unfold_locales (simp_all add: verify_event_chain_snoc last_map view_event_def chain.verify_Nil)


definition demo_event :: "json \<Rightarrow> event_view" where
  "demo_event payload =
     (let e = \<lparr>ev_id = 1, ev_run_id = 2, ev_sequence = 1, ev_event_type = ''t'', ev_occurred_at = ''o'',
        ev_recorded_at = ''r'', ev_payload = payload, ev_previous_hash = GENESIS_HASH, ev_hash = []\<rparr>
      in e\<lparr>ev_hash := compute_event_hash demo_ext e\<rparr>)"

lemma demo_ext_ok: "ext_ok demo_ext"
  by (simp add: ext_ok_def demo_ok)

lemma demo_event_verified: "verify_event_chain demo_ext [demo_event p]"
proof -
  have "i64_add (wrap_i64 0) 1 = 1" by (simp add: i64_add_def wrap_i64_def)
  then show ?thesis
    by (simp add: verify_event_chain_def demo_event_def Let_def compute_event_hash_def event_hash_input_def)
qed

lemma demo_event_payload: "ev_payload (demo_event p) = p"
  by (simp add: demo_event_def Let_def)

lemma demo_event_hash:
  assumes "json_ok p" "json_ok q" "norm_json p = norm_json q"
  shows "ev_hash (demo_event p) = ev_hash (demo_event q)"
proof -
  define e where "e r = \<lparr>ev_id = 1, ev_run_id = 2, ev_sequence = 1, ev_event_type = ''t'', ev_occurred_at = ''o'',
    ev_recorded_at = ''r'', ev_payload = r, ev_previous_hash = GENESIS_HASH, ev_hash = []\<rparr>" for r
  have ok: "json_ok (event_hash_input demo_ext (e p))" "json_ok (event_hash_input demo_ext (e q))"
    using assms by (simp_all add: event_hash_input_ok e_def)
  have "norm_json (event_hash_input demo_ext (e p)) = norm_json (event_hash_input demo_ext (e q))"
    using assms(3) by (simp add: event_hash_input_def e_def)
  then have c: "canon demo_ext (event_hash_input demo_ext (e p)) = canon demo_ext (event_hash_input demo_ext (e q))"
    by (metis canon_norm)
  have "ev_previous_hash (e r) = GENESIS_HASH" for r by (simp add: e_def)
  then have "compute_event_hash demo_ext (e p) = compute_event_hash demo_ext (e q)"
    by (simp add: compute_event_hash_def canonical_into_canon(1) [OF ok(1)] canonical_into_canon(1) [OF ok(2)] c)
  then show ?thesis by (simp add: demo_event_def e_def Let_def)
qed


end
