(* ===== verification/Indexes.thy ===== *)
theory Indexes
  imports Ledger_Record Hash_Chain
begin

text \<open>
  The in-memory indexes of \<open>calod-ledger/src/ledger.rs\<close> and how a logged mutation changes them.

  The code mutates the maps in place, so an operation that fails half way leaves what it did
  before: each operation returns its result together with the maps after it.  A run lock is
  an entry of \<open>ix_run_locks\<close>.

  The invariant \<open>indexes_ok\<close> says that the maps are indexed by the records' own ids, that the
  key index and the effects agree, and that each run's events are a verified hash chain whose
  length and head the run record carries.
\<close>

section \<open>State\<close>

record effect_key =
  ek_tenant_id :: string
  ek_project_id :: string
  ek_scope :: string
  ek_idempotency_key :: string

record indexes =
  ix_effects_by_id :: "(uuid, effect_record) dashmap"
  ix_effect_ids :: "(effect_key, uuid) dashmap"
  ix_runs :: "(uuid, run_record) dashmap"
  ix_run_locks :: "(uuid, unit) dashmap"
  ix_events :: "(uuid, event_record list) dashmap"
  ix_checkpoints :: "(uuid, checkpoint_record list) dashmap"

definition empty_indexes :: indexes where
  "empty_indexes = \<lparr>ix_effects_by_id = [], ix_effect_ids = [], ix_runs = [], ix_run_locks = [],
     ix_events = [], ix_checkpoints = []\<rparr>"

definition effect_key_of :: "effect_record \<Rightarrow> effect_key" where
  "effect_key_of effect = \<lparr>ek_tenant_id = er_tenant_id effect, ek_project_id = er_project_id effect,
     ek_scope = er_scope effect, ek_idempotency_key = er_idempotency_key effect\<rparr>"

text \<open>\<open>entry(k).or_insert(v)\<close>: insert unless present.\<close>

definition or_insert :: "'k \<Rightarrow> 'v \<Rightarrow> ('k, 'v) dashmap \<Rightarrow> ('k, 'v) dashmap" where
  "or_insert k v m = (case dm_get m k of None \<Rightarrow> dm_insert k v m | Some _ \<Rightarrow> m)"

definition run_events :: "indexes \<Rightarrow> uuid \<Rightarrow> event_record list" where
  "run_events ix run_id = unwrap_or (dm_get (ix_events ix) run_id) []"

definition run_checkpoints :: "indexes \<Rightarrow> uuid \<Rightarrow> checkpoint_record list" where
  "run_checkpoints ix run_id = unwrap_or (dm_get (ix_checkpoints ix) run_id) []"

section \<open>Applying mutations\<close>

definition apply_event ::
  "ext \<Rightarrow> event_record \<Rightarrow> indexes \<Rightarrow> (persistence_error + unit) \<times> indexes" where
  "apply_event X event ix =
     (let rid = evr_run_id event;
          ix = ix\<lparr>ix_events := or_insert rid [] (ix_events ix)\<rparr>;
          events = run_events ix rid
      in if evr_sequence event \<le> len_i64 events then (Inr (), ix)
         else if evr_sequence event \<noteq> i64_add (len_i64 events) 1 then
           (Inl (Corruption (''run '' @ uuid_to_string X rid @ '' event sequence gap: have '' @
              nat_to_string (length events) @ '', got '' @ int_to_string (evr_sequence event))), ix)
         else let expected_previous = (if events = [] then GENESIS_HASH else evr_hash (last events))
         in if evr_previous_hash event \<noteq> expected_previous then
              (Inl (Corruption (''run '' @ uuid_to_string X rid @ '' event '' @
                 int_to_string (evr_sequence event) @ '' breaks the hash chain'')), ix)
            else
              let ix = (case dm_get (ix_runs ix) rid of None \<Rightarrow> ix
                        | Some run \<Rightarrow> ix\<lparr>ix_runs := dm_insert rid
                            (run\<lparr>rr_last_event_sequence := evr_sequence event, rr_head_hash := evr_hash event\<rparr>)
                            (ix_runs ix)\<rparr>)
              in (Inr (), ix\<lparr>ix_events := dm_insert rid (events @ [event]) (ix_events ix)\<rparr>))"

definition remove_run :: "uuid \<Rightarrow> indexes \<Rightarrow> indexes" where
  "remove_run run_id ix =
     ix\<lparr>ix_runs := dm_remove run_id (ix_runs ix), ix_events := dm_remove run_id (ix_events ix),
        ix_checkpoints := dm_remove run_id (ix_checkpoints ix),
        ix_run_locks := dm_remove run_id (ix_run_locks ix)\<rparr>"

definition remove_effect :: "uuid \<Rightarrow> indexes \<Rightarrow> indexes" where
  "remove_effect effect_id ix =
     (case dm_get (ix_effects_by_id ix) effect_id of None \<Rightarrow> ix
      | Some effect \<Rightarrow>
          ix\<lparr>ix_effects_by_id := dm_remove effect_id (ix_effects_by_id ix),
             ix_effect_ids := dm_remove (effect_key_of effect) (ix_effect_ids ix)\<rparr>)"

definition insert_run :: "run_record \<Rightarrow> indexes \<Rightarrow> indexes" where
  "insert_run run ix =
     ix\<lparr>ix_run_locks := or_insert (rr_id run) () (ix_run_locks ix),
        ix_runs := dm_insert (rr_id run) run (ix_runs ix)\<rparr>"

definition insert_effect :: "effect_record \<Rightarrow> indexes \<Rightarrow> indexes" where
  "insert_effect effect ix =
     ix\<lparr>ix_effect_ids := dm_insert (effect_key_of effect) (er_id effect) (ix_effect_ids ix),
        ix_effects_by_id := dm_insert (er_id effect) effect (ix_effects_by_id ix)\<rparr>"

fun indexes_apply :: "ext \<Rightarrow> record_kind \<Rightarrow> indexes \<Rightarrow> (persistence_error + unit) \<times> indexes" where
  "indexes_apply X (RunCreated run) ix = (Inr (), insert_run run ix)"
| "indexes_apply X (RunUpdated run) ix = (Inr (), insert_run run ix)"
| "indexes_apply X (EffectApplied effect event) ix =
     (let ix = insert_effect effect ix
      in case event of None \<Rightarrow> (Inr (), ix) | Some event \<Rightarrow> apply_event X event ix)"
| "indexes_apply X (EventAppended event) ix = apply_event X event ix"
| "indexes_apply X (CheckpointCreated checkpoint) ix =
     (let rid = cpr_run_id checkpoint;
          ix = ix\<lparr>ix_checkpoints := or_insert rid [] (ix_checkpoints ix)\<rparr>;
          checkpoints = run_checkpoints ix rid
      in if \<not> list_ex (\<lambda>c. cpr_id c = cpr_id checkpoint) checkpoints then
           (Inr (), ix\<lparr>ix_checkpoints := dm_insert rid (checkpoints @ [checkpoint]) (ix_checkpoints ix)\<rparr>)
         else (Inr (), ix))"
| "indexes_apply X (RetentionApplied cutoff_ms run_ids effect_ids) ix =
     (Inr (), fold remove_effect effect_ids (fold remove_run run_ids ix))"

section \<open>Snapshots of the indexes\<close>

definition collect_state :: "indexes \<Rightarrow> persisted_state" where
  "collect_state ix =
     \<lparr>ps_schema_version = SCHEMA_VERSION, ps_runs = dm_values (ix_runs ix),
      ps_effects = dm_values (ix_effects_by_id ix), ps_events = concat (dm_values (ix_events ix)),
      ps_checkpoints = concat (dm_values (ix_checkpoints ix))\<rparr>"

text \<open>
  Grouping by run: a \<open>BTreeMap\<close> filled by \<open>entry().or_default().push()\<close>.  Its keys come out
  in ascending order.
\<close>

definition push_group :: "('v \<Rightarrow> uuid) \<Rightarrow> 'v \<Rightarrow> (uuid, 'v list) dashmap \<Rightarrow> (uuid, 'v list) dashmap" where
  "push_group key v m = dm_insert (key v) (unwrap_or (dm_get m (key v)) [] @ [v]) m"

definition group_by_run :: "('v \<Rightarrow> uuid) \<Rightarrow> 'v list \<Rightarrow> (uuid \<times> 'v list) list" where
  "group_by_run key vs = sort_key fst (fold (push_group key) vs [])"

definition load_state :: "persisted_state \<Rightarrow> indexes \<Rightarrow> indexes" where
  "load_state st ix =
     (let ix = fold insert_run (ps_runs st) ix;
          ix = fold insert_effect (ps_effects st) ix;
          events_by_run = map (\<lambda>(rid, es). (rid, sort_key evr_sequence es)) (group_by_run evr_run_id (ps_events st));
          ix = ix\<lparr>ix_events := fold (\<lambda>(rid, es). dm_insert rid es) events_by_run (ix_events ix)\<rparr>;
          checkpoints_by_run = group_by_run cpr_run_id (ps_checkpoints st)
      in ix\<lparr>ix_checkpoints := fold (\<lambda>(rid, cs). dm_insert rid cs) checkpoints_by_run (ix_checkpoints ix)\<rparr>)"

section \<open>Invariant\<close>

definition effects_ok :: "indexes \<Rightarrow> bool" where
  "effects_ok ix \<longleftrightarrow> dm_ok (ix_effects_by_id ix) \<and> dm_ok (ix_effect_ids ix) \<and>
     (\<forall>i e. dm_get (ix_effects_by_id ix) i = Some e \<longrightarrow>
        er_id e = i \<and> dm_get (ix_effect_ids ix) (effect_key_of e) = Some i) \<and>
     (\<forall>k i. dm_get (ix_effect_ids ix) k = Some i \<longrightarrow>
        (\<exists>e. dm_get (ix_effects_by_id ix) i = Some e \<and> effect_key_of e = k))"

definition row_ok ::
  "ext \<Rightarrow> uuid \<Rightarrow> event_record list \<Rightarrow> checkpoint_record list \<Rightarrow> run_record option \<Rightarrow> bool" where
  "row_ok X i es cs ro \<longleftrightarrow>
     verify_event_chain X (map view_event es) \<and> int (length es) \<le> i64_max \<and>
     (\<forall>e \<in> set es. evr_run_id e = i) \<and> (\<forall>c \<in> set cs. cpr_run_id c = i) \<and> distinct (map cpr_id cs) \<and>
     (case ro of None \<Rightarrow> es = []
      | Some r \<Rightarrow> rr_id r = i \<and> rr_last_event_sequence r = int (length es) \<and>
          rr_head_hash r = stored.head_hash es)"

definition run_ok :: "ext \<Rightarrow> indexes \<Rightarrow> uuid \<Rightarrow> bool" where
  "run_ok X ix i \<longleftrightarrow> row_ok X i (run_events ix i) (run_checkpoints ix i) (dm_get (ix_runs ix) i)"

definition indexes_ok :: "ext \<Rightarrow> indexes \<Rightarrow> bool" where
  "indexes_ok X ix \<longleftrightarrow> effects_ok ix \<and> dm_ok (ix_runs ix) \<and> dm_ok (ix_events ix) \<and>
     dm_ok (ix_checkpoints ix) \<and> dm_ok (ix_run_locks ix) \<and> (\<forall>i. run_ok X ix i)"

text \<open>When a mutation fits the state: what the handlers ensure before they log it.\<close>

definition event_next :: "ext \<Rightarrow> indexes \<Rightarrow> event_record \<Rightarrow> bool" where
  "event_next X ix e \<longleftrightarrow>
     dm_get (ix_runs ix) (evr_run_id e) \<noteq> None \<and>
     int (length (run_events ix (evr_run_id e))) < i64_max \<and>
     evr_sequence e = int (length (run_events ix (evr_run_id e))) + 1 \<and>
     evr_previous_hash e = stored.head_hash (run_events ix (evr_run_id e)) \<and>
     evr_hash e = compute_event_hash X (view_event e)"

definition effect_fits :: "indexes \<Rightarrow> effect_record \<Rightarrow> bool" where
  "effect_fits ix e \<longleftrightarrow>
     (case dm_get (ix_effects_by_id ix) (er_id e) of
        None \<Rightarrow> dm_get (ix_effect_ids ix) (effect_key_of e) = None
      | Some old \<Rightarrow> effect_key_of old = effect_key_of e)"

fun kind_fits :: "ext \<Rightarrow> indexes \<Rightarrow> record_kind \<Rightarrow> bool" where
  "kind_fits X ix (RunCreated run) \<longleftrightarrow> dm_get (ix_runs ix) (rr_id run) = None \<and>
     rr_last_event_sequence run = 0 \<and> rr_head_hash run = GENESIS_HASH"
| "kind_fits X ix (RunUpdated run) \<longleftrightarrow>
     (\<exists>old. dm_get (ix_runs ix) (rr_id run) = Some old \<and>
        rr_last_event_sequence run = rr_last_event_sequence old \<and> rr_head_hash run = rr_head_hash old)"
| "kind_fits X ix (EffectApplied e event) \<longleftrightarrow> effect_fits ix e \<and>
     (case event of None \<Rightarrow> True | Some ev \<Rightarrow> event_next X ix ev)"
| "kind_fits X ix (EventAppended ev) \<longleftrightarrow> event_next X ix ev"
| "kind_fits X ix (CheckpointCreated c) \<longleftrightarrow> True"
| "kind_fits X ix (RetentionApplied cutoff run_ids effect_ids) \<longleftrightarrow> True"

lemma or_insert_get [dm_simps]:
  "dm_get (or_insert k v m) k' = (if k' = k then Some (unwrap_or (dm_get m k) v) else dm_get m k')"
  by (simp add: or_insert_def dm_simps split: option.splits)

lemma or_insert_ok [simp]: "dm_ok m \<Longrightarrow> dm_ok (or_insert k v m)"
  by (simp add: or_insert_def split: option.splits)

lemma stored_head: "stored.head_hash es = (if es = [] then GENESIS_HASH else evr_hash (last es))"
  by (simp add: stored.head_hash_def)

text \<open>Where the events of an index are stored: lookups after each update.\<close>

lemma run_events_or_insert [simp]:
  "run_events (ix\<lparr>ix_events := or_insert k [] (ix_events ix)\<rparr>) i = run_events ix i"
  by (simp add: run_events_def dm_simps)

lemma run_events_insert [simp]:
  "run_events (ix\<lparr>ix_events := dm_insert k es m\<rparr>) i = (if i = k then es else unwrap_or (dm_get m i) [])"
  by (simp add: run_events_def dm_simps)

text \<open>An event that fits is applied: the chain grows by it and the run record follows.\<close>

definition push_event :: "event_record \<Rightarrow> indexes \<Rightarrow> indexes" where
  "push_event e ix =
     (let rid = evr_run_id e;
          ix' = ix\<lparr>ix_events := dm_insert rid (run_events ix rid @ [e]) (or_insert rid [] (ix_events ix))\<rparr>
      in case dm_get (ix_runs ix) rid of None \<Rightarrow> ix'
         | Some run \<Rightarrow> ix'\<lparr>ix_runs := dm_insert rid
             (run\<lparr>rr_last_event_sequence := evr_sequence e, rr_head_hash := evr_hash e\<rparr>) (ix_runs ix)\<rparr>)"

lemma apply_event_next:
  assumes "event_next X ix e"
  shows "apply_event X e ix = (Inr (), push_event e ix)"
proof -
  let ?es = "run_events ix (evr_run_id e)"
  have len: "len_i64 ?es = int (length ?es)" "i64_add (len_i64 ?es) 1 = int (length ?es) + 1"
    using assms by (simp_all add: event_next_def len_i64_eq i64_add_def in_i64_def i64_min_def)
  show ?thesis
    using assms len
    by (auto simp: apply_event_def push_event_def event_next_def stored_head Let_def split: option.splits)
qed

lemma push_event_sel:
  "run_events (push_event e ix) i =
     (if i = evr_run_id e then run_events ix i @ [e] else run_events ix i)"
  "ix_effects_by_id (push_event e ix) = ix_effects_by_id ix"
  "ix_effect_ids (push_event e ix) = ix_effect_ids ix"
  "ix_checkpoints (push_event e ix) = ix_checkpoints ix"
  "ix_run_locks (push_event e ix) = ix_run_locks ix"
  "dm_get (ix_runs (push_event e ix)) i =
     (if i = evr_run_id e then
        map_option (\<lambda>run. run\<lparr>rr_last_event_sequence := evr_sequence e, rr_head_hash := evr_hash e\<rparr>)
          (dm_get (ix_runs ix) i)
      else dm_get (ix_runs ix) i)"
  by (simp_all add: push_event_def run_events_def Let_def dm_simps split: option.split)

lemma push_event_dm_ok:
  "dm_ok (ix_runs ix) \<Longrightarrow> dm_ok (ix_runs (push_event e ix))"
  "dm_ok (ix_events ix) \<Longrightarrow> dm_ok (ix_events (push_event e ix))"
  by (simp_all add: push_event_def Let_def split: option.split)

lemma run_ok_push:
  assumes ok: "run_ok X ix i" and nx: "event_next X ix e"
  shows "run_ok X (push_event e ix) i"
proof (cases "i = evr_run_id e")
  case True
  let ?es = "run_events ix i"
  obtain r where r: "dm_get (ix_runs ix) i = Some r" using nx True by (auto simp: event_next_def)
  have "verify_event_chain X (map view_event (?es @ [e]))"
    using ok nx True by (intro stored.verify_extend) (auto simp: run_ok_def row_ok_def event_next_def)
  then have "row_ok X i (?es @ [e]) (run_checkpoints ix i)
      (Some (r\<lparr>rr_last_event_sequence := evr_sequence e, rr_head_hash := evr_hash e\<rparr>))"
    using ok nx True r by (auto simp: run_ok_def row_ok_def event_next_def stored_head)
  then show ?thesis
    using True r by (simp add: run_ok_def push_event_sel run_checkpoints_def)
next
  case False
  then show ?thesis using ok by (simp add: run_ok_def push_event_sel run_checkpoints_def)
qed

lemma indexes_ok_push [inv_intros]:
  "indexes_ok X ix \<Longrightarrow> event_next X ix e \<Longrightarrow> indexes_ok X (push_event e ix)"
  by (auto simp: indexes_ok_def effects_ok_def push_event_sel push_event_dm_ok intro: run_ok_push)

text \<open>Effects: a new key or a new version of the effect with that id.\<close>

lemma run_ok_cong:
  "ix_runs ix' = ix_runs ix \<Longrightarrow> ix_events ix' = ix_events ix \<Longrightarrow> ix_checkpoints ix' = ix_checkpoints ix \<Longrightarrow>
     run_ok X ix' i = run_ok X ix i"
  by (simp add: run_ok_def run_events_def run_checkpoints_def)

lemma effects_okD:
  assumes "effects_ok ix"
  shows "dm_get (ix_effects_by_id ix) i = Some e \<Longrightarrow> er_id e = i"
    and "dm_get (ix_effects_by_id ix) i = Some e \<Longrightarrow> dm_get (ix_effect_ids ix) (effect_key_of e) = Some i"
    and "dm_get (ix_effect_ids ix) k = Some i \<Longrightarrow>
      \<exists>e. dm_get (ix_effects_by_id ix) i = Some e \<and> effect_key_of e = k"
  using assms unfolding effects_ok_def by blast+

lemma effects_okI:
  assumes "dm_ok (ix_effects_by_id ix)" "dm_ok (ix_effect_ids ix)"
    and "\<And>i e. dm_get (ix_effects_by_id ix) i = Some e \<Longrightarrow>
      er_id e = i \<and> dm_get (ix_effect_ids ix) (effect_key_of e) = Some i"
    and "\<And>k i. dm_get (ix_effect_ids ix) k = Some i \<Longrightarrow>
      \<exists>e. dm_get (ix_effects_by_id ix) i = Some e \<and> effect_key_of e = k"
  shows "effects_ok ix"
  using assms unfolding effects_ok_def by blast

lemma effects_ok_insert:
  assumes ok: "effects_ok ix" and fits: "effect_fits ix e"
  shows "effects_ok (insert_effect e ix)"
proof (rule effects_okI)
  have other: "i = er_id e" if "dm_get (ix_effect_ids ix) (effect_key_of e) = Some i" for i
  proof (cases "dm_get (ix_effects_by_id ix) (er_id e)")
    case (Some old)
    with fits that effects_okD(2) [OF ok Some] show ?thesis by (simp add: effect_fits_def)
  qed (use fits that in \<open>simp add: effect_fits_def\<close>)
  have E: "dm_get (ix_effects_by_id (insert_effect e ix)) i =
      (if i = er_id e then Some e else dm_get (ix_effects_by_id ix) i)" for i
    by (simp add: insert_effect_def dm_simps)
  have K: "dm_get (ix_effect_ids (insert_effect e ix)) k =
      (if k = effect_key_of e then Some (er_id e) else dm_get (ix_effect_ids ix) k)" for k
    by (simp add: insert_effect_def dm_simps)
  show "er_id x = i \<and> dm_get (ix_effect_ids (insert_effect e ix)) (effect_key_of x) = Some i"
    if "dm_get (ix_effects_by_id (insert_effect e ix)) i = Some x" for i x
  proof (cases "i = er_id e")
    case True
    moreover have "x = e" using that True E [of i] by simp
    ultimately show ?thesis using K [of "effect_key_of e"] by simp
  next
    case False
    with that have x: "dm_get (ix_effects_by_id ix) i = Some x" by (simp add: E)
    with False other [of i] effects_okD(1,2) [OF ok x] show ?thesis by (auto simp: K)
  qed
  show "\<exists>x. dm_get (ix_effects_by_id (insert_effect e ix)) i = Some x \<and> effect_key_of x = k"
    if "dm_get (ix_effect_ids (insert_effect e ix)) k = Some i" for k i
  proof (cases "k = effect_key_of e")
    case False
    with that have "dm_get (ix_effect_ids ix) k = Some i" by (simp add: K)
    from effects_okD(3) [OF ok this] obtain x where x: "dm_get (ix_effects_by_id ix) i = Some x" "effect_key_of x = k"
      by blast
    with False fits have "i \<noteq> er_id e" by (auto simp: effect_fits_def)
    with x show ?thesis by (simp add: E)
  qed (use that in \<open>simp add: E K\<close>)
qed (use ok in \<open>simp_all add: insert_effect_def effects_ok_def\<close>)

lemma indexes_ok_insert_effect [inv_intros]:
  "indexes_ok X ix \<Longrightarrow> effect_fits ix e \<Longrightarrow> indexes_ok X (insert_effect e ix)"
proof -
  assume ok: "indexes_ok X ix" "effect_fits ix e"
  have "run_ok X (insert_effect e ix) i = run_ok X ix i" for i
    by (rule run_ok_cong) (simp_all add: insert_effect_def)
  with ok effects_ok_insert show ?thesis by (auto simp: indexes_ok_def insert_effect_def)
qed

lemma indexes_ok_insert_run [inv_intros]:
  assumes "indexes_ok X ix"
    and "rr_last_event_sequence run = int (length (run_events ix (rr_id run)))"
    and "rr_head_hash run = stored.head_hash (run_events ix (rr_id run))"
  shows "indexes_ok X (insert_run run ix)"
proof -
  have "run_ok X (insert_run run ix) i" for i
  proof -
    have "run_ok X ix i" using assms(1) by (simp add: indexes_ok_def)
    moreover have "run_events (insert_run run ix) i = run_events ix i"
      "run_checkpoints (insert_run run ix) i = run_checkpoints ix i"
      "dm_get (ix_runs (insert_run run ix)) i = (if i = rr_id run then Some run else dm_get (ix_runs ix) i)"
      by (simp_all add: insert_run_def run_events_def run_checkpoints_def dm_simps)
    ultimately show ?thesis using assms(2,3) by (auto simp: run_ok_def row_ok_def)
  qed
  then show ?thesis
    using assms(1) by (simp add: indexes_ok_def effects_ok_def insert_run_def)
qed

lemma indexes_ok_remove_run [inv_intros]: "indexes_ok X ix \<Longrightarrow> indexes_ok X (remove_run r ix)"
proof -
  assume ok: "indexes_ok X ix"
  have "run_ok X (remove_run r ix) i" for i
  proof (cases "i = r")
    case True
    then show ?thesis
      by (simp add: run_ok_def row_ok_def remove_run_def run_events_def run_checkpoints_def dm_simps
          chain.verify_Nil i64_max_def)
  next
    case False
    have "run_ok X ix i" using ok by (simp add: indexes_ok_def)
    moreover have "run_events (remove_run r ix) i = run_events ix i"
      "run_checkpoints (remove_run r ix) i = run_checkpoints ix i"
      "dm_get (ix_runs (remove_run r ix)) i = dm_get (ix_runs ix) i"
      using False by (simp_all add: remove_run_def run_events_def run_checkpoints_def dm_simps)
    ultimately show ?thesis by (simp add: run_ok_def)
  qed
  with ok show ?thesis by (simp add: indexes_ok_def effects_ok_def remove_run_def)
qed

lemma indexes_ok_remove_effect [inv_intros]:
  assumes ok: "indexes_ok X ix"
  shows "indexes_ok X (remove_effect i ix)"
proof (cases "dm_get (ix_effects_by_id ix) i")
  case None
  with ok show ?thesis by (simp add: remove_effect_def)
next
  case (Some e)
  have eff: "effects_ok ix" using ok by (simp add: indexes_ok_def)
  have "effects_ok (remove_effect i ix)"
  proof (rule effects_okI)
    have E: "dm_get (ix_effects_by_id (remove_effect i ix)) j =
        (if j = i then None else dm_get (ix_effects_by_id ix) j)" for j
      by (simp add: remove_effect_def Some dm_simps)
    have K: "dm_get (ix_effect_ids (remove_effect i ix)) k =
        (if k = effect_key_of e then None else dm_get (ix_effect_ids ix) k)" for k
      by (simp add: remove_effect_def Some dm_simps)
    show "er_id x = j \<and> dm_get (ix_effect_ids (remove_effect i ix)) (effect_key_of x) = Some j"
      if x: "dm_get (ix_effects_by_id (remove_effect i ix)) j = Some x" for j x
    proof -
      from x have "j \<noteq> i" "dm_get (ix_effects_by_id ix) j = Some x" by (simp_all add: E split: if_splits)
      with effects_okD(1,2) [OF eff this(2)] effects_okD(2) [OF eff Some] show ?thesis by (auto simp: K)
    qed
    show "\<exists>x. dm_get (ix_effects_by_id (remove_effect i ix)) j = Some x \<and> effect_key_of x = k"
      if k: "dm_get (ix_effect_ids (remove_effect i ix)) k = Some j" for k j
    proof -
      from k have "k \<noteq> effect_key_of e" "dm_get (ix_effect_ids ix) k = Some j"
        by (simp_all add: K split: if_splits)
      with effects_okD(3) [OF eff this(2)] Some show ?thesis by (auto simp: E)
    qed
  qed (use eff Some in \<open>simp_all add: remove_effect_def effects_ok_def\<close>)
  moreover have "run_ok X (remove_effect i ix) j = run_ok X ix j" for j
    by (rule run_ok_cong) (simp_all add: remove_effect_def Some)
  ultimately show ?thesis using ok by (auto simp: indexes_ok_def remove_effect_def Some)
qed

lemma indexes_ok_checkpoint [inv_intros]:
  assumes ok: "indexes_ok X ix"
  shows "indexes_ok X (snd (indexes_apply X (CheckpointCreated c) ix))"
proof -
  let ?ix = "snd (indexes_apply X (CheckpointCreated c) ix)"
  have cps: "run_checkpoints ?ix i =
      (if i = cpr_run_id c \<and> cpr_id c \<notin> cpr_id ` set (run_checkpoints ix i)
       then run_checkpoints ix i @ [c] else run_checkpoints ix i)" for i
    by (auto simp: Let_def run_checkpoints_def dm_simps list_ex_iff image_iff eq_commute)
  have same: "ix_runs ?ix = ix_runs ix" "ix_events ?ix = ix_events ix" "ix_effects_by_id ?ix = ix_effects_by_id ix"
    "ix_effect_ids ?ix = ix_effect_ids ix" "ix_run_locks ?ix = ix_run_locks ix"
    by (simp_all add: Let_def)
  have "run_ok X ?ix i" for i
  proof -
    have "row_ok X i (run_events ix i) (run_checkpoints ix i) (dm_get (ix_runs ix) i)"
      using ok by (simp add: indexes_ok_def run_ok_def)
    then have "row_ok X i (run_events ix i) (run_checkpoints ?ix i) (dm_get (ix_runs ix) i)"
      unfolding cps by (auto simp: row_ok_def)
    then show ?thesis by (simp only: run_ok_def run_events_def same)
  qed
  moreover have "dm_ok (ix_checkpoints ?ix)" using ok by (simp add: Let_def indexes_ok_def)
  ultimately show ?thesis
    using ok same by (auto simp: indexes_ok_def effects_ok_def)
qed

lemma fold_preserves: "(\<And>x s. P s \<Longrightarrow> P (f x s)) \<Longrightarrow> P s \<Longrightarrow> P (fold f xs s)"
  by (induction xs arbitrary: s) auto

text \<open>A mutation that fits the state is applied without error and keeps the invariant.\<close>

lemma apply_fits:
  assumes ok: "indexes_ok X ix" and fits: "kind_fits X ix kind"
  shows "fst (indexes_apply X kind ix) = Inr ()" and "indexes_ok X (snd (indexes_apply X kind ix))"
proof -
  have run: "run_ok X ix i" for i using ok by (simp add: indexes_ok_def)
  have "fst (indexes_apply X kind ix) = Inr () \<and> indexes_ok X (snd (indexes_apply X kind ix))"
  proof (cases kind)
    case (RunCreated r)
    then show ?thesis
      using fits run [of "rr_id r"] indexes_ok_insert_run [OF ok, of r]
      by (simp add: run_ok_def row_ok_def stored_head)
  next
    case (RunUpdated r)
    then show ?thesis
      using fits run [of "rr_id r"] indexes_ok_insert_run [OF ok, of r] by (auto simp: run_ok_def row_ok_def)
  next
    case (EffectApplied e ev)
    have ins: "indexes_ok X (insert_effect e ix)" using EffectApplied fits ok by (simp add: inv_intros)
    have "event_next X (insert_effect e ix) v" if "event_next X ix v" for v
      using that by (simp add: event_next_def insert_effect_def run_events_def)
    then show ?thesis
      using EffectApplied fits ins by (auto simp: apply_event_next inv_intros split: option.splits)
  next
    case (EventAppended ev)
    then show ?thesis using fits ok by (simp add: apply_event_next inv_intros)
  next
    case (CheckpointCreated c)
    have "fst (indexes_apply X (CheckpointCreated c) ix) = Inr ()" by (simp add: Let_def)
    then show ?thesis using CheckpointCreated indexes_ok_checkpoint [OF ok] by blast
  next
    case (RetentionApplied c rs es)
    then show ?thesis
      using ok by (simp add: fold_preserves [where P = "indexes_ok X"] inv_intros)
  qed
  then show "fst (indexes_apply X kind ix) = Inr ()" and "indexes_ok X (snd (indexes_apply X kind ix))"
    by simp_all
qed

end
