(* ===== verification/Ledger.thy ===== *)
theory Ledger
  imports Indexes
begin

text \<open>
  The ledger of \<open>calod-ledger/src/ledger.rs\<close>: effects, runs, events, checkpoints and
  retention.

  A handler is a function from the ledger state to its result and the state after it.  What
  it reads from outside is its input \<open>op_input\<close>: the clock, the UUIDs it generates, and the
  outcomes of the WAL's I/O.  \<open>Duration\<close>s are nanoseconds.  The handlers below run one at a
  time; each takes its locks at the points the code does, so a handler that is interleaved
  with others is the composition of \<open>build_effect_event\<close> (which ends when the run lock is
  dropped) and \<open>persist\<close> (the critical section of the commit lock).  Taking a run's lock
  inserts it into the map of locks when it is missing.
\<close>

section \<open>State\<close>

record ledger_counters =
  ct_acquires_execute :: nat
  ct_acquires_replay :: nat
  ct_acquires_wait :: nat
  ct_acquires_reconcile :: nat
  ct_transitions_total :: nat
  ct_retention_runs_removed :: nat
  ct_retention_effects_removed :: nat

definition zero_counters :: ledger_counters where
  "zero_counters = \<lparr>ct_acquires_execute = 0, ct_acquires_replay = 0, ct_acquires_wait = 0,
     ct_acquires_reconcile = 0, ct_transitions_total = 0, ct_retention_runs_removed = 0,
     ct_retention_effects_removed = 0\<rparr>"

fun bump_acquire :: "effect_decision_type \<Rightarrow> ledger_counters \<Rightarrow> ledger_counters" where
  "bump_acquire Execute c = c\<lparr>ct_acquires_execute := u64_add (ct_acquires_execute c) 1\<rparr>"
| "bump_acquire Replay c = c\<lparr>ct_acquires_replay := u64_add (ct_acquires_replay c) 1\<rparr>"
| "bump_acquire Wait c = c\<lparr>ct_acquires_wait := u64_add (ct_acquires_wait c) 1\<rparr>"
| "bump_acquire Reconcile c = c\<lparr>ct_acquires_reconcile := u64_add (ct_acquires_reconcile c) 1\<rparr>"

definition DEFAULT_PARTITIONS :: nat where "DEFAULT_PARTITIONS = 64"
definition from_secs :: "nat \<Rightarrow> nat" where "from_secs s = s * 1000000000"
definition DEFAULT_LEASE :: nat where "DEFAULT_LEASE = from_secs 30"
definition MIN_LEASE :: nat where "MIN_LEASE = from_secs 5"
definition MAX_LEASE :: nat where "MAX_LEASE = from_secs 3600"

record ledger_config =
  lc_wal :: wal_config
  lc_retention :: "retention_policy option"
  lc_partitions :: nat
  lc_default_lease :: nat
  lc_min_lease :: nat
  lc_max_lease :: nat

definition new_ledger_config :: ledger_config where
  "new_ledger_config = \<lparr>lc_wal = \<lparr>wc_max_segment_size = DEFAULT_MAX_SEGMENT_SIZE, wc_fsync_strategy = Everysec\<rparr>,
     lc_retention = None, lc_partitions = DEFAULT_PARTITIONS, lc_default_lease = DEFAULT_LEASE,
     lc_min_lease = MIN_LEASE, lc_max_lease = MAX_LEASE\<rparr>"

record ledger =
  lg_wal :: wal_writer
  lg_partitions :: nat
  lg_last_wal_position :: "wal_position option"
  lg_default_lease :: nat
  lg_min_lease :: nat
  lg_max_lease :: nat
  lg_indexes :: indexes
  lg_counters :: ledger_counters
  lg_retention :: "retention_policy option"

record op_input =
  oi_now :: int
  oi_id :: uuid
  oi_event_id :: uuid
  oi_token1 :: uuid
  oi_token2 :: uuid
  oi_io :: write_io
  oi_sync_io :: write_io

section \<open>Helpers\<close>

definition char_in :: "char \<Rightarrow> nat \<Rightarrow> nat \<Rightarrow> bool" where
  "char_in c a b \<longleftrightarrow> a \<le> (of_char c :: nat) \<and> of_char c \<le> b"

definition validate_effect_fields :: "string \<Rightarrow> string \<Rightarrow> string \<Rightarrow> ledger_error + unit" where
  "validate_effect_fields scope key tool =
     (if scope = [] \<or> 500 < length scope then
        Inl (Validation ''scope'' ''must be 1..=500 characters'')
      else if \<not> (8 \<le> length key \<and> length key \<le> 255 \<and>
            list_all (\<lambda>c. char_in c 48 57 \<or> char_in c 65 90 \<or> char_in c 97 122 \<or>
              c = CHR ''.'' \<or> c = CHR ''_'' \<or> c = CHR '':'' \<or> c = CHR ''-'') key) then
        Inl (Validation ''idempotency_key'' ''must be 8..=255 characters matching ^[A-Za-z0-9._:-]+$'')
      else if tool = [] \<or> 200 < length tool then
        Inl (Validation ''tool_name'' ''must be 1..=200 characters'')
      else Inr ())"

definition validate_event_type :: "string \<Rightarrow> ledger_error + unit" where
  "validate_event_type event_type =
     (if event_type \<noteq> [] \<and> length event_type \<le> 200 \<and>
         list_all (\<lambda>c. char_in c 97 122 \<or> char_in c 48 57 \<or> c = CHR ''_'' \<or> c = CHR ''.'' \<or> c = CHR ''-'') event_type
      then Inr ()
      else Inl (Validation ''type'' ''must be 1..=200 characters matching ^[a-z0-9_.-]+$''))"

definition resolve_lease_ms :: "ledger \<Rightarrow> nat option \<Rightarrow> string \<Rightarrow> ledger_error + int" where
  "resolve_lease_ms lg seconds field =
     (let duration = (case seconds of None \<Rightarrow> lg_default_lease lg | Some s \<Rightarrow> from_secs s) in
      if duration < lg_min_lease lg \<or> lg_max_lease lg < duration then
        Inl (Validation field (''must be between '' @ nat_to_string (lg_min_lease lg div 1000000000) @
          '' and '' @ nat_to_string (lg_max_lease lg div 1000000000) @ '' seconds''))
      else Inr (if in_i64 (int (duration div 1000000)) then int (duration div 1000000) else i64_max))"

definition generate_lease_token :: "ext \<Rightarrow> uuid \<Rightarrow> uuid \<Rightarrow> string" where
  "generate_lease_token X u v = ''lease_'' @ uuid_simple X u @ uuid_simple X v"

definition partition_of :: "ext \<Rightarrow> nat \<Rightarrow> effect_key \<Rightarrow> nat" where
  "partition_of X partitions key =
     (let bs = ek_project_id key @ [CHR 0x00] @ ek_scope key @ [CHR 0x00] @ ek_idempotency_key key
      in from_le (take 8 (sha256 X bs)) mod partitions)"

definition run_lock :: "uuid \<Rightarrow> ledger \<Rightarrow> ledger" where
  "run_lock run_id lg =
     lg\<lparr>lg_indexes := (lg_indexes lg)\<lparr>ix_run_locks := or_insert run_id () (ix_run_locks (lg_indexes lg))\<rparr>\<rparr>"

definition run_in_scope :: "ext \<Rightarrow> tenant_scope \<Rightarrow> uuid \<Rightarrow> ledger \<Rightarrow> ledger_error + run_record" where
  "run_in_scope X scope run_id lg =
     (case dm_get (ix_runs (lg_indexes lg)) run_id of
        Some r \<Rightarrow> if rr_tenant_id r = sc_tenant_id scope \<and> rr_project_id r = sc_project_id scope then Inr r
                  else Inl (NotFound ''run'' (uuid_to_string X run_id))
      | None \<Rightarrow> Inl (NotFound ''run'' (uuid_to_string X run_id)))"

definition effect_in_scope :: "ext \<Rightarrow> tenant_scope \<Rightarrow> uuid \<Rightarrow> ledger \<Rightarrow> ledger_error + effect_record" where
  "effect_in_scope X scope effect_id lg =
     (case dm_get (ix_effects_by_id (lg_indexes lg)) effect_id of
        Some e \<Rightarrow> if er_tenant_id e = sc_tenant_id scope \<and> er_project_id e = sc_project_id scope then Inr e
                  else Inl (NotFound ''effect'' (uuid_to_string X effect_id))
      | None \<Rightarrow> Inl (NotFound ''effect'' (uuid_to_string X effect_id)))"

section \<open>Events and persistence\<close>

definition build_event ::
  "ext \<Rightarrow> uuid \<Rightarrow> tenant_scope \<Rightarrow> run_record \<Rightarrow> string \<Rightarrow> int \<Rightarrow> json \<Rightarrow> int \<Rightarrow> event_record" where
  "build_event X new_id scope run event_type occurred_at_ms payload now =
     (let event = \<lparr>evr_schema_version = SCHEMA_VERSION, evr_tenant_id = sc_tenant_id scope,
            evr_project_id = sc_project_id scope, evr_id = new_id, evr_run_id = rr_id run,
            evr_sequence = i64_add (rr_last_event_sequence run) 1, evr_event_type = event_type,
            evr_occurred_at_ms = occurred_at_ms, evr_recorded_at_ms = now, evr_payload = payload,
            evr_previous_hash = rr_head_hash run, evr_hash = []\<rparr>
      in event\<lparr>evr_hash := compute_event_hash X (view_event event)\<rparr>)"

definition build_effect_event ::
  "ext \<Rightarrow> op_input \<Rightarrow> tenant_scope \<Rightarrow> effect_record \<Rightarrow> string \<Rightarrow> json \<Rightarrow> int \<Rightarrow> ledger \<Rightarrow>
   (ledger_error + event_record option) \<times> ledger" where
  "build_effect_event X oi scope effect event_type detail now lg =
     (case er_run_id effect of None \<Rightarrow> (Inr None, lg)
      | Some run_id \<Rightarrow>
        let lg = run_lock run_id lg in
        case run_in_scope X scope run_id lg of Inl e \<Rightarrow> (Inl e, lg)
        | Inr run \<Rightarrow>
          let payload = JObject [
                (''effect_id'', JString (uuid_to_string X (er_id effect))),
                (''scope'', JString (er_scope effect)),
                (''idempotency_key'', JString (er_idempotency_key effect)),
                (''tool_name'', JString (er_tool_name effect)),
                (''fencing_token'', JNumber (NumInt (er_fencing_token effect))),
                (''detail'', detail)]
          in (Inr (Some (build_event X (oi_event_id oi) scope run event_type now payload now)), lg))"

definition persist ::
  "ext \<Rightarrow> serde \<Rightarrow> op_input \<Rightarrow> record_kind \<Rightarrow> ledger \<Rightarrow> (ledger_error + unit) \<times> ledger" where
  "persist X K oi kind lg =
     (case encode K kind of Inl e \<Rightarrow> (Inl (Persistence e), lg)
      | Inr payload \<Rightarrow>
        (case wal_append X (oi_io oi) (oi_sync_io oi) (lg_wal lg) Put payload of
           (Inl e, W) \<Rightarrow> (Inl (Persistence e), lg\<lparr>lg_wal := W\<rparr>)
         | (Inr position, W) \<Rightarrow>
           (case indexes_apply X kind (lg_indexes lg) of
              (Inl e, ix) \<Rightarrow> (Inl (Persistence e), lg\<lparr>lg_wal := W, lg_indexes := ix\<rparr>)
            | (Inr _, ix) \<Rightarrow>
                (Inr (), lg\<lparr>lg_wal := W, lg_indexes := ix, lg_last_wal_position := Some position\<rparr>))))"

section \<open>Acquire\<close>

definition reacquire ::
  "ext \<Rightarrow> op_input \<Rightarrow> effect_record \<Rightarrow> acquire_request \<Rightarrow> int \<Rightarrow> int \<Rightarrow> effect_record \<times> string option" where
  "reacquire X oi effect req lease_ms now =
     (let lease_token = generate_lease_token X (oi_token1 oi) (oi_token2 oi) in
      (effect\<lparr>er_state := Claimed,
         er_fencing_token := i64_add (er_fencing_token effect) 1,
         er_lease_expires_at_ms := Some (i64_add now lease_ms),
         er_lease_duration_ms := lease_ms,
         er_lease_token_digest := Some (sha256_digest X lease_token),
         er_tool_name := aq_tool_name req,
         er_updated_at_ms := now\<rparr>, Some lease_token))"

definition wait_decision :: "effect_record \<Rightarrow> int \<Rightarrow> int \<Rightarrow> effect_decision" where
  "wait_decision effect expires_ms now =
     \<lparr>dc_decision = Wait, dc_effect = view_effect effect, dc_lease_token = None,
      dc_poll_after_ms = Some (max (if 0 \<le> i64_sub expires_ms now then nat (i64_sub expires_ms now) else 0) 1)\<rparr>"

datatype plan =
    Decide effect_decision
  | ApplyPlan effect_record string json effect_decision_type "string option"

definition read_decision :: "effect_decision_type \<Rightarrow> effect_record \<Rightarrow> effect_decision" where
  "read_decision d effect =
     \<lparr>dc_decision = d, dc_effect = view_effect effect, dc_lease_token = None, dc_poll_after_ms = None\<rparr>"

definition new_effect ::
  "ext \<Rightarrow> op_input \<Rightarrow> tenant_scope \<Rightarrow> string \<Rightarrow> acquire_request \<Rightarrow> int \<Rightarrow> string \<Rightarrow> string \<Rightarrow> effect_record" where
  "new_effect X oi scope idempotency_key req lease_ms digest lease_token =
     \<lparr>er_schema_version = SCHEMA_VERSION, er_tenant_id = sc_tenant_id scope,
      er_project_id = sc_project_id scope, er_id = oi_id oi, er_run_id = aq_run_id req,
      er_scope = aq_scope req, er_idempotency_key = idempotency_key, er_tool_name = aq_tool_name req,
      er_input_digest = digest, er_state = Claimed, er_fencing_token = 1,
      er_lease_expires_at_ms = Some (i64_add (oi_now oi) lease_ms), er_lease_duration_ms = lease_ms,
      er_lease_token_digest = Some (sha256_digest X lease_token), er_result = None,
      er_external_receipt = None, er_failure = None, er_created_at_ms = oi_now oi,
      er_updated_at_ms = oi_now oi\<rparr>"

definition expire_in_progress :: "effect_record \<Rightarrow> int \<Rightarrow> effect_record" where
  "expire_in_progress effect now =
     effect\<lparr>er_state := OutcomeUnknown, er_lease_expires_at_ms := None, er_lease_token_digest := None,
       er_updated_at_ms := now,
       er_failure := (case er_failure effect of
          None \<Rightarrow> Some \<lparr>fl_kind = ''lease_expired_in_progress'',
            fl_message = ''Lease expired while in progress; outcome cannot be proven'', fl_retryable = False\<rparr>
        | Some f \<Rightarrow> Some f)\<rparr>"

definition reacquire_plan ::
  "ext \<Rightarrow> op_input \<Rightarrow> effect_record \<Rightarrow> acquire_request \<Rightarrow> int \<Rightarrow> json \<Rightarrow> plan" where
  "reacquire_plan X oi effect req lease_ms detail =
     (let (next_effect, lease_token) = reacquire X oi effect req lease_ms (oi_now oi)
      in ApplyPlan next_effect ''effect.reacquired'' detail Execute lease_token)"

definition plan_existing ::
  "ext \<Rightarrow> op_input \<Rightarrow> acquire_request \<Rightarrow> int \<Rightarrow> effect_record \<Rightarrow> plan" where
  "plan_existing X oi req lease_ms effect =
     (let now = oi_now oi in
      case er_state effect of
        Committed \<Rightarrow> Decide (read_decision Replay effect)
      | ReconciledCommitted \<Rightarrow> Decide (read_decision Replay effect)
      | FailedTerminal \<Rightarrow> Decide (read_decision Replay effect)
      | ReconciledFailed \<Rightarrow> Decide (read_decision Replay effect)
      | OutcomeUnknown \<Rightarrow> Decide (read_decision Reconcile effect)
      | FailedRetryable \<Rightarrow>
          reacquire_plan X oi effect req lease_ms
            (JObject [(''from'', JString ''failed_retryable''), (''to'', JString ''claimed'')])
      | Claimed \<Rightarrow>
          let expires = unwrap_or (er_lease_expires_at_ms effect) now in
          if now < expires then Decide (wait_decision effect expires now)
          else reacquire_plan X oi effect req lease_ms
            (JObject [(''from'', JString ''claimed''), (''to'', JString ''claimed''),
               (''reason'', JString ''lease_expired'')])
      | InProgress \<Rightarrow>
          let expires = unwrap_or (er_lease_expires_at_ms effect) now in
          if now < expires then Decide (wait_decision effect expires now)
          else ApplyPlan (expire_in_progress effect now) ''effect.outcome_unknown''
            (JObject [(''from'', JString ''in_progress''), (''to'', JString ''outcome_unknown''),
               (''reason'', JString ''lease_expired'')]) Reconcile None)"

definition existing_effect :: "indexes \<Rightarrow> effect_key \<Rightarrow> effect_record option" where
  "existing_effect ix key =
     (case dm_get (ix_effect_ids ix) key of None \<Rightarrow> None
      | Some eid \<Rightarrow> dm_get (ix_effects_by_id ix) eid)"

definition acquire_plan ::
  "ext \<Rightarrow> op_input \<Rightarrow> tenant_scope \<Rightarrow> string \<Rightarrow> acquire_request \<Rightarrow> int \<Rightarrow> string \<Rightarrow> ledger \<Rightarrow> ledger_error + plan" where
  "acquire_plan X oi scope idempotency_key req lease_ms digest lg =
     (let key = \<lparr>ek_tenant_id = sc_tenant_id scope, ek_project_id = sc_project_id scope,
            ek_scope = aq_scope req, ek_idempotency_key = idempotency_key\<rparr>
      in case existing_effect (lg_indexes lg) key of
        None \<Rightarrow>
          (case (case aq_run_id req of None \<Rightarrow> Inr () | Some run_id \<Rightarrow>
                   (case run_in_scope X scope run_id lg of Inl e \<Rightarrow> Inl e | Inr _ \<Rightarrow> Inr ())) of
             Inl e \<Rightarrow> Inl e
           | Inr _ \<Rightarrow>
             let lease_token = generate_lease_token X (oi_token1 oi) (oi_token2 oi) in
             Inr (ApplyPlan (new_effect X oi scope idempotency_key req lease_ms digest lease_token)
               ''effect.acquired'' (JObject [(''from'', JNull), (''to'', JString ''claimed'')])
               Execute (Some lease_token)))
      | Some effect \<Rightarrow>
          if er_input_digest effect \<noteq> digest \<or> er_tool_name effect \<noteq> aq_tool_name req then
            Inl (IdempotencyConflict (aq_scope req) idempotency_key (er_input_digest effect) digest)
          else Inr (plan_existing X oi req lease_ms effect))"

definition acquire ::
  "ext \<Rightarrow> serde \<Rightarrow> op_input \<Rightarrow> tenant_scope \<Rightarrow> string \<Rightarrow> acquire_request \<Rightarrow> ledger \<Rightarrow>
   (ledger_error + effect_decision) \<times> ledger" where
  "acquire X K oi scope idempotency_key req lg =
     (case validate_effect_fields (aq_scope req) idempotency_key (aq_tool_name req) of
        Inl e \<Rightarrow> (Inl e, lg)
      | Inr _ \<Rightarrow>
     (case resolve_lease_ms lg (aq_lease_duration_seconds req) ''lease_duration_seconds'' of
        Inl e \<Rightarrow> (Inl e, lg)
      | Inr lease_ms \<Rightarrow>
     (case acquire_plan X oi scope idempotency_key req lease_ms (input_digest X (aq_input req)) lg of
        Inl e \<Rightarrow> (Inl e, lg)
      | Inr (Decide decision) \<Rightarrow>
          (Inr decision, lg\<lparr>lg_counters := bump_acquire (dc_decision decision) (lg_counters lg)\<rparr>)
      | Inr (ApplyPlan effect event_type detail decision lease_token) \<Rightarrow>
          (case build_effect_event X oi scope effect event_type detail (oi_now oi) lg of
             (Inl e, lg) \<Rightarrow> (Inl e, lg)
           | (Inr event, lg) \<Rightarrow>
             (case persist X K oi (EffectApplied effect event) lg of
                (Inl e, lg) \<Rightarrow> (Inl e, lg)
              | (Inr _, lg) \<Rightarrow>
                (Inr \<lparr>dc_decision = decision, dc_effect = view_effect effect,
                    dc_lease_token = lease_token, dc_poll_after_ms = None\<rparr>,
                 lg\<lparr>lg_counters := bump_acquire decision (lg_counters lg)\<rparr>))))))"

section \<open>Transition\<close>

fun legal_transition :: "effect_transition \<Rightarrow> effect_status \<Rightarrow> bool" where
  "legal_transition Start Claimed = True"
| "legal_transition Renew Claimed = True"
| "legal_transition Renew InProgress = True"
| "legal_transition Commit Claimed = True"
| "legal_transition Commit InProgress = True"
| "legal_transition FailRetryable Claimed = True"
| "legal_transition FailRetryable InProgress = True"
| "legal_transition FailTerminal Claimed = True"
| "legal_transition FailTerminal InProgress = True"
| "legal_transition MarkOutcomeUnknown Claimed = True"
| "legal_transition MarkOutcomeUnknown InProgress = True"
| "legal_transition ReconcileCommitted OutcomeUnknown = True"
| "legal_transition ReconcileFailed OutcomeUnknown = True"
| "legal_transition _ _ = False"

definition authorize ::
  "ext \<Rightarrow> effect_record \<Rightarrow> update_request \<Rightarrow> capabilities \<Rightarrow> ledger_error + unit" where
  "authorize X effect req caps =
     (if is_worker_transition (up_transition req) then
        (case up_lease_token req of
           None \<Rightarrow> Inl (Validation ''lease_token'' ''required for worker transitions'')
         | Some token \<Rightarrow>
             if er_lease_token_digest effect \<noteq> Some (sha256_digest X token) then
               Inl (Forbidden ''lease token does not match the active lease'')
             else Inr ())
      else if \<not> can_reconcile caps then
        Inl (Forbidden ''reconcile transitions require the effects:reconcile capability'')
      else Inr ())"

definition drop_lease :: "effect_record \<Rightarrow> effect_record" where
  "drop_lease e = e\<lparr>er_lease_expires_at_ms := None, er_lease_token_digest := None\<rparr>"

definition default_failure :: "effect_failure option \<Rightarrow> string \<Rightarrow> string \<Rightarrow> bool \<Rightarrow> effect_failure" where
  "default_failure f kind message retryable =
     unwrap_or f \<lparr>fl_kind = kind, fl_message = message, fl_retryable = retryable\<rparr>"

definition next_effect ::
  "ledger \<Rightarrow> int \<Rightarrow> effect_record \<Rightarrow> update_request \<Rightarrow> ledger_error + effect_record \<times> string" where
  "next_effect lg now effect req =
     (let e = effect\<lparr>er_updated_at_ms := now\<rparr> in
      case up_transition req of
        Start \<Rightarrow> Inr (e\<lparr>er_state := InProgress\<rparr>, ''effect.started'')
      | Renew \<Rightarrow>
          (case (case up_lease_duration_seconds req of
                   Some secs \<Rightarrow> resolve_lease_ms lg (Some secs) ''lease_duration_seconds''
                 | None \<Rightarrow> Inr (er_lease_duration_ms effect)) of
             Inl err \<Rightarrow> Inl err
           | Inr lease_ms \<Rightarrow>
               Inr (e\<lparr>er_lease_expires_at_ms := Some (i64_add now lease_ms), er_lease_duration_ms := lease_ms\<rparr>,
                 ''effect.renewed''))
      | Commit \<Rightarrow>
          Inr (drop_lease (e\<lparr>er_state := Committed, er_result := up_result req,
            er_external_receipt := up_external_receipt req, er_failure := None\<rparr>), ''effect.committed'')
      | FailRetryable \<Rightarrow>
          Inr (drop_lease (e\<lparr>er_state := FailedRetryable,
            er_failure := Some (default_failure (up_failure req) ''failed'' ''worker reported failure'' True)\<rparr>),
            ''effect.failed'')
      | FailTerminal \<Rightarrow>
          Inr (drop_lease (e\<lparr>er_state := FailedTerminal,
            er_failure := Some (default_failure (up_failure req) ''failed'' ''worker reported failure'' False)\<rparr>),
            ''effect.failed'')
      | MarkOutcomeUnknown \<Rightarrow>
          Inr (drop_lease (e\<lparr>er_state := OutcomeUnknown, er_failure := up_failure req\<rparr>),
            ''effect.outcome_unknown'')
      | ReconcileCommitted \<Rightarrow>
          Inr (e\<lparr>er_state := ReconciledCommitted, er_result := up_result req,
            er_external_receipt := up_external_receipt req\<rparr>, ''effect.reconciled'')
      | ReconcileFailed \<Rightarrow>
          Inr (e\<lparr>er_state := ReconciledFailed,
            er_failure := Some (default_failure (up_failure req) ''reconciled_failed''
              ''reconciliation proved the tool did not fire'' False)\<rparr>, ''effect.reconciled''))"

definition transition ::
  "ext \<Rightarrow> serde \<Rightarrow> op_input \<Rightarrow> tenant_scope \<Rightarrow> uuid \<Rightarrow> update_request \<Rightarrow> capabilities \<Rightarrow> ledger \<Rightarrow>
   (ledger_error + effect_view) \<times> ledger" where
  "transition X K oi scope effect_id req caps lg =
     (case effect_in_scope X scope effect_id lg of Inl e \<Rightarrow> (Inl e, lg)
      | Inr _ \<Rightarrow>
     (case dm_get (ix_effects_by_id (lg_indexes lg)) effect_id of
        None \<Rightarrow> (Inl (NotFound ''effect'' (uuid_to_string X effect_id)), lg)
      | Some effect \<Rightarrow>
        if up_fencing_token req \<noteq> er_fencing_token effect then
          (Inl (StaleFencingToken (er_fencing_token effect) (up_fencing_token req)), lg)
        else if \<not> legal_transition (up_transition req) (er_state effect) then
          (Inl (InvalidTransition (status_str (er_state effect)) (transition_str (up_transition req))), lg)
        else
     (case authorize X effect req caps of Inl e \<Rightarrow> (Inl e, lg)
      | Inr _ \<Rightarrow>
     (case next_effect lg (oi_now oi) effect req of Inl e \<Rightarrow> (Inl e, lg)
      | Inr (next, event_type) \<Rightarrow>
        let detail = JObject [(''from'', JString (status_str (er_state effect))),
              (''to'', JString (status_str (er_state next))),
              (''transition'', JString (transition_str (up_transition req)))]
        in case build_effect_event X oi scope next event_type detail (oi_now oi) lg of
             (Inl e, lg) \<Rightarrow> (Inl e, lg)
           | (Inr event, lg) \<Rightarrow>
             (case persist X K oi (EffectApplied next event) lg of
                (Inl e, lg) \<Rightarrow> (Inl e, lg)
              | (Inr _, lg) \<Rightarrow>
                (Inr (view_effect next),
                 lg\<lparr>lg_counters := (lg_counters lg)
                   \<lparr>ct_transitions_total := u64_add (ct_transitions_total (lg_counters lg)) 1\<rparr>\<rparr>))))))"

definition get_effect :: "ext \<Rightarrow> tenant_scope \<Rightarrow> uuid \<Rightarrow> ledger \<Rightarrow> ledger_error + effect_view" where
  "get_effect X scope effect_id lg =
     (case effect_in_scope X scope effect_id lg of Inl e \<Rightarrow> Inl e | Inr e \<Rightarrow> Inr (view_effect e))"

end
