(* ===== verification/Ledger_Runs.thy ===== *)
theory Ledger_Runs
  imports Ledger
begin

text \<open>
  Runs, events, checkpoints, retention, export and statistics of
  \<open>calod-ledger/src/ledger.rs\<close>.
\<close>

section \<open>Runs\<close>

definition new_run :: "op_input \<Rightarrow> tenant_scope \<Rightarrow> string \<Rightarrow> string \<Rightarrow> uuid option \<Rightarrow> int option \<Rightarrow>
    json option \<Rightarrow> run_record" where
  "new_run oi scope external_id agent_name parent forked_from metadata =
     \<lparr>rr_schema_version = SCHEMA_VERSION, rr_tenant_id = sc_tenant_id scope,
      rr_project_id = sc_project_id scope, rr_id = oi_id oi, rr_external_id = external_id,
      rr_agent_name = agent_name, rr_status = Running, rr_version = 1, rr_last_event_sequence = 0,
      rr_head_hash = GENESIS_HASH, rr_parent_run_id = parent, rr_forked_from_event_sequence = forked_from,
      rr_metadata = metadata, rr_created_at_ms = oi_now oi, rr_updated_at_ms = oi_now oi\<rparr>"

definition create_run ::
  "ext \<Rightarrow> serde \<Rightarrow> op_input \<Rightarrow> tenant_scope \<Rightarrow> create_run_request \<Rightarrow> ledger \<Rightarrow>
   (ledger_error + run_view) \<times> ledger" where
  "create_run X K oi scope req lg =
     (if cr_external_id req = [] \<or> 255 < length (cr_external_id req) then
        (Inl (Validation ''external_id'' ''must be 1..=255 characters''), lg)
      else if cr_agent_name req = [] \<or> 200 < length (cr_agent_name req) then
        (Inl (Validation ''agent_name'' ''must be 1..=200 characters''), lg)
      else
        let run = new_run oi scope (cr_external_id req) (cr_agent_name req) None None (cr_metadata req)
        in case persist X K oi (RunCreated run) lg of
             (Inl e, lg) \<Rightarrow> (Inl e, lg)
           | (Inr _, lg) \<Rightarrow> (Inr (view_run run), lg))"

definition get_run :: "ext \<Rightarrow> tenant_scope \<Rightarrow> uuid \<Rightarrow> ledger \<Rightarrow> ledger_error + run_view" where
  "get_run X scope run_id lg =
     (case run_in_scope X scope run_id lg of Inl e \<Rightarrow> Inl e | Inr r \<Rightarrow> Inr (view_run r))"

definition check_version :: "int option \<Rightarrow> run_record \<Rightarrow> ledger_error + unit" where
  "check_version expected_version run =
     (case expected_version of None \<Rightarrow> Inr ()
      | Some expected \<Rightarrow> if expected \<noteq> rr_version run then Inl (PreconditionFailed expected (rr_version run))
                         else Inr ())"

definition update_run ::
  "ext \<Rightarrow> serde \<Rightarrow> op_input \<Rightarrow> tenant_scope \<Rightarrow> uuid \<Rightarrow> update_run_request \<Rightarrow> int option \<Rightarrow> ledger \<Rightarrow>
   (ledger_error + run_view) \<times> ledger" where
  "update_run X K oi scope run_id req expected_version lg =
     (let lg = run_lock run_id lg in
      case run_in_scope X scope run_id lg of Inl e \<Rightarrow> (Inl e, lg)
      | Inr run \<Rightarrow>
     (case check_version expected_version run of Inl e \<Rightarrow> (Inl e, lg)
      | Inr _ \<Rightarrow>
        if is_terminal (rr_status run) \<and> ur_status req \<noteq> rr_status run then
          (Inl (InvalidTransition (run_status_str (rr_status run)) (run_status_str (ur_status req))), lg)
        else
          let next = run\<lparr>rr_status := ur_status req, rr_version := i64_add (rr_version run) 1,
                rr_updated_at_ms := oi_now oi\<rparr>
          in case persist X K oi (RunUpdated next) lg of
               (Inl e, lg) \<Rightarrow> (Inl e, lg)
             | (Inr _, lg) \<Rightarrow> (Inr (view_run next), lg)))"

definition fork_point ::
  "ext \<Rightarrow> uuid \<Rightarrow> run_record \<Rightarrow> fork_run_request \<Rightarrow> ledger \<Rightarrow> ledger_error + int" where
  "fork_point X run_id parent req lg =
     (case (fk_from_event_sequence req, fk_from_checkpoint_id req) of
        (Some sq, None) \<Rightarrow>
          if sq < 0 \<or> rr_last_event_sequence parent < sq then
            Inl (Validation ''from_event_sequence'' (''must be within 0..='' @
              int_to_string (rr_last_event_sequence parent) @ '' for this run''))
          else Inr sq
      | (None, Some checkpoint_id) \<Rightarrow>
          (case find (\<lambda>c. cpr_id c = checkpoint_id) (run_checkpoints (lg_indexes lg) run_id) of
             Some c \<Rightarrow> Inr (cpr_event_sequence c)
           | None \<Rightarrow> Inl (NotFound ''checkpoint'' (uuid_to_string X checkpoint_id)))
      | _ \<Rightarrow> Inl (Validation ''from_event_sequence''
          ''exactly one of from_event_sequence / from_checkpoint_id is required''))"

definition fork_run ::
  "ext \<Rightarrow> serde \<Rightarrow> op_input \<Rightarrow> tenant_scope \<Rightarrow> uuid \<Rightarrow> fork_run_request \<Rightarrow> ledger \<Rightarrow>
   (ledger_error + run_view) \<times> ledger" where
  "fork_run X K oi scope run_id req lg =
     (if fk_reason req = [] \<or> 500 < length (fk_reason req) then
        (Inl (Validation ''reason'' ''must be 1..=500 characters''), lg)
      else
        let lg = run_lock run_id lg in
        case run_in_scope X scope run_id lg of Inl e \<Rightarrow> (Inl e, lg)
        | Inr parent \<Rightarrow>
       (case fork_point X run_id parent req lg of Inl e \<Rightarrow> (Inl e, lg)
        | Inr sq \<Rightarrow>
          let fork = new_run oi scope (rr_external_id parent @ '':fork'') (rr_agent_name parent)
                (Some (rr_id parent)) (Some sq) (fk_metadata req)
          in case persist X K oi (RunCreated fork) lg of
               (Inl e, lg) \<Rightarrow> (Inl e, lg)
             | (Inr _, lg) \<Rightarrow> (Inr (view_run fork), lg)))"

section \<open>Events\<close>

definition append_event ::
  "ext \<Rightarrow> serde \<Rightarrow> op_input \<Rightarrow> tenant_scope \<Rightarrow> uuid \<Rightarrow> append_event_request \<Rightarrow> ledger \<Rightarrow>
   (ledger_error + event_view) \<times> ledger" where
  "append_event X K oi scope run_id req lg =
     (case validate_event_type (ae_event_type req) of Inl e \<Rightarrow> (Inl e, lg)
      | Inr _ \<Rightarrow>
        let lg = run_lock run_id lg in
        case run_in_scope X scope run_id lg of Inl e \<Rightarrow> (Inl e, lg)
        | Inr run \<Rightarrow>
          let event = build_event X (oi_event_id oi) scope run (ae_event_type req) (ae_occurred_at_ms req)
                (ae_payload req) (oi_now oi)
          in case persist X K oi (EventAppended event) lg of
               (Inl e, lg) \<Rightarrow> (Inl e, lg)
             | (Inr _, lg) \<Rightarrow> (Inr (view_event event), lg))"

definition verify_run_events :: "ext \<Rightarrow> tenant_scope \<Rightarrow> uuid \<Rightarrow> ledger \<Rightarrow> ledger_error + bool" where
  "verify_run_events X scope run_id lg =
     (case run_in_scope X scope run_id lg of Inl e \<Rightarrow> Inl e
      | Inr _ \<Rightarrow> Inr (verify_event_chain X (map view_event (run_events (lg_indexes lg) run_id))))"

section \<open>Checkpoints\<close>

definition create_checkpoint ::
  "ext \<Rightarrow> serde \<Rightarrow> op_input \<Rightarrow> tenant_scope \<Rightarrow> uuid \<Rightarrow> create_checkpoint_request \<Rightarrow> int option \<Rightarrow> ledger \<Rightarrow>
   (ledger_error + checkpoint_view) \<times> ledger" where
  "create_checkpoint X K oi scope run_id req expected_version lg =
     (let lg = run_lock run_id lg in
      case run_in_scope X scope run_id lg of Inl e \<Rightarrow> (Inl e, lg)
      | Inr run \<Rightarrow>
     (case check_version expected_version run of Inl e \<Rightarrow> (Inl e, lg)
      | Inr _ \<Rightarrow>
        if cc_event_sequence req < 0 \<or> rr_last_event_sequence run < cc_event_sequence req then
          (Inl (Validation ''event_sequence'' (''must be within 0..='' @
             int_to_string (rr_last_event_sequence run) @ '' for this run'')), lg)
        else
          let checkpoint = \<lparr>cpr_schema_version = SCHEMA_VERSION, cpr_tenant_id = sc_tenant_id scope,
                cpr_project_id = sc_project_id scope, cpr_id = oi_id oi, cpr_run_id = run_id,
                cpr_event_sequence = cc_event_sequence req, cpr_state = cc_state req,
                cpr_state_digest = sha256_digest X (canonical_json X (cc_state req)),
                cpr_created_at_ms = oi_now oi\<rparr>
          in case persist X K oi (CheckpointCreated checkpoint) lg of
               (Inl e, lg) \<Rightarrow> (Inl e, lg)
             | (Inr _, lg) \<Rightarrow> (Inr (view_checkpoint checkpoint), lg)))"

section \<open>Retention\<close>

definition pruned_runs :: "int \<Rightarrow> indexes \<Rightarrow> uuid list" where
  "pruned_runs cutoff_ms ix =
     sort (map rr_id (filter (\<lambda>run. is_terminal (rr_status run) \<and> rr_updated_at_ms run \<le> cutoff_ms)
       (dm_values (ix_runs ix))))"

definition pruned_effects :: "int \<Rightarrow> uuid list \<Rightarrow> indexes \<Rightarrow> uuid list" where
  "pruned_effects cutoff_ms run_ids ix =
     sort (map er_id (filter (\<lambda>e.
         (is_retention_terminal (er_state e) \<and> er_updated_at_ms e \<le> cutoff_ms) \<or>
         is_some_and (er_run_id e) (\<lambda>r. r \<in> set run_ids)) (dm_values (ix_effects_by_id ix))))"

definition apply_retention ::
  "ext \<Rightarrow> serde \<Rightarrow> op_input \<Rightarrow> retention_policy \<Rightarrow> ledger \<Rightarrow> (ledger_error + retention_report) \<times> ledger" where
  "apply_retention X K oi policy lg =
     (let cutoff_ms = i64_saturating_sub (oi_now oi) (max (rp_max_age_ms policy) 0);
          run_ids = pruned_runs cutoff_ms (lg_indexes lg);
          effect_ids = pruned_effects cutoff_ms run_ids (lg_indexes lg);
          events_removed = sum_list (map (\<lambda>i. length (run_events (lg_indexes lg) i)) run_ids);
          report = \<lparr>rp_runs_removed = length run_ids, rp_effects_removed = length effect_ids,
            rp_events_removed = events_removed, rp_cutoff_ms = cutoff_ms\<rparr>
      in if run_ids = [] \<and> effect_ids = [] then (Inr report, lg)
         else case persist X K oi (RetentionApplied cutoff_ms run_ids effect_ids) lg of
                (Inl e, lg) \<Rightarrow> (Inl e, lg)
              | (Inr _, lg) \<Rightarrow>
                (Inr report, lg\<lparr>lg_counters := (lg_counters lg)
                  \<lparr>ct_retention_runs_removed := u64_add (ct_retention_runs_removed (lg_counters lg)) (rp_runs_removed report),
                   ct_retention_effects_removed := u64_add (ct_retention_effects_removed (lg_counters lg)) (rp_effects_removed report)\<rparr>\<rparr>))"

section \<open>Export and statistics\<close>

definition export_run :: "ext \<Rightarrow> tenant_scope \<Rightarrow> uuid \<Rightarrow> ledger \<Rightarrow> ledger_error + run_export" where
  "export_run X scope run_id lg =
     (case run_in_scope X scope run_id lg of Inl e \<Rightarrow> Inl e
      | Inr run \<Rightarrow>
        let ix = lg_indexes lg;
            effects = sort_key (\<lambda>e. (ef_created_at e, ef_id e))
              (map view_effect (filter (\<lambda>e. er_run_id e = Some run_id) (dm_values (ix_effects_by_id ix))));
            events = map view_event (run_events ix run_id);
            checkpoints = sort_key cp_event_sequence (map view_checkpoint (run_checkpoints ix run_id))
        in Inr \<lparr>rx_run = view_run run, rx_effects = effects, rx_events = events, rx_checkpoints = checkpoints\<rparr>)"

record ledger_stats =
  ls_acquires_execute :: nat
  ls_acquires_replay :: nat
  ls_acquires_wait :: nat
  ls_acquires_reconcile :: nat
  ls_transitions_total :: nat
  ls_retention_runs_removed :: nat
  ls_retention_effects_removed :: nat
  ls_runs_current :: nat
  ls_effects_current :: nat
  ls_events_current :: nat
  ls_effects_by_state :: "(string \<times> nat) list"

fun effect_state_str :: "effect_state \<Rightarrow> string" where
  "effect_state_str ApiInProgress = ''in_progress''"
| "effect_state_str ApiCommitted = ''committed''"
| "effect_state_str ApiFailedRetryable = ''failed_retryable''"
| "effect_state_str ApiFailedTerminal = ''failed_terminal''"
| "effect_state_str ApiOutcomeUnknown = ''outcome_unknown''"
| "effect_state_str ApiReconciledCommitted = ''reconciled_committed''"
| "effect_state_str ApiReconciledFailed = ''reconciled_failed''"

definition count_state :: "string \<Rightarrow> (string \<times> nat) list \<Rightarrow> (string \<times> nat) list" where
  "count_state st m = dm_insert st (Suc (unwrap_or (dm_get m st) 0)) m"

definition stats :: "ledger \<Rightarrow> ledger_stats" where
  "stats lg =
     (let ix = lg_indexes lg; c = lg_counters lg in
      \<lparr>ls_acquires_execute = ct_acquires_execute c, ls_acquires_replay = ct_acquires_replay c,
       ls_acquires_wait = ct_acquires_wait c, ls_acquires_reconcile = ct_acquires_reconcile c,
       ls_transitions_total = ct_transitions_total c,
       ls_retention_runs_removed = ct_retention_runs_removed c,
       ls_retention_effects_removed = ct_retention_effects_removed c,
       ls_runs_current = length (ix_runs ix), ls_effects_current = length (ix_effects_by_id ix),
       ls_events_current = sum_list (map length (dm_values (ix_events ix))),
       ls_effects_by_state = sort_key fst (fold (\<lambda>e. count_state (effect_state_str (api_state (er_state e))))
         (dm_values (ix_effects_by_id ix)) [])\<rparr>)"

end
