(* ===== verification/Ledger_Invariant.thy ===== *)
theory Ledger_Invariant
  imports Ledger_Runs
begin

text \<open>
  The invariant of the ledger, one preservation lemma per handler.

  \<open>effect_wf\<close> is the invariant of one effect: a lease exists exactly while the effect is
  claimed or in progress, fencing tokens are positive, and the effect's run exists in the
  effect's own tenant and project.  \<open>ledger_inv\<close> adds the invariant of the indexes and that
  checkpoints stay within their run's timeline.  The
  handlers keep it as long as the UUIDs they are given are fresh.
\<close>

section \<open>The invariant\<close>

definition leased :: "effect_status \<Rightarrow> bool" where
  "leased s \<longleftrightarrow> s = Claimed \<or> s = InProgress"

definition effect_wf :: "indexes \<Rightarrow> effect_record \<Rightarrow> bool" where
  "effect_wf ix e \<longleftrightarrow>
     (leased (er_state e) \<longrightarrow> er_lease_expires_at_ms e \<noteq> None \<and> er_lease_token_digest e \<noteq> None) \<and>
     (\<not> leased (er_state e) \<longrightarrow> er_lease_expires_at_ms e = None \<and> er_lease_token_digest e = None) \<and>
     1 \<le> er_fencing_token e \<and>
     (\<forall>r. er_run_id e = Some r \<longrightarrow> (\<exists>run. dm_get (ix_runs ix) r = Some run \<and>
        rr_tenant_id run = er_tenant_id e \<and> rr_project_id run = er_project_id e))"

definition checkpoints_bounded :: "indexes \<Rightarrow> bool" where
  "checkpoints_bounded ix \<longleftrightarrow> (\<forall>i. \<forall>c \<in> set (run_checkpoints ix i).
     0 \<le> cpr_event_sequence c \<and> cpr_event_sequence c \<le> int (length (run_events ix i)))"

definition ledger_inv :: "ext \<Rightarrow> ledger \<Rightarrow> bool" where
  "ledger_inv X lg \<longleftrightarrow> indexes_ok X (lg_indexes lg) \<and> checkpoints_bounded (lg_indexes lg) \<and>
     (\<forall>i e. dm_get (ix_effects_by_id (lg_indexes lg)) i = Some e \<longrightarrow> effect_wf (lg_indexes lg) e)"

text \<open>The id a handler is given is not in use, and no counter of the state is at its limit.\<close>

definition fresh_input :: "op_input \<Rightarrow> ledger \<Rightarrow> bool" where
  "fresh_input oi lg \<longleftrightarrow>
     dm_get (ix_effects_by_id (lg_indexes lg)) (oi_id oi) = None \<and>
     dm_get (ix_runs (lg_indexes lg)) (oi_id oi) = None \<and>
     (\<forall>i. int (length (run_events (lg_indexes lg) i)) < i64_max) \<and>
     (\<forall>i e. dm_get (ix_effects_by_id (lg_indexes lg)) i = Some e \<longrightarrow> er_fencing_token e < i64_max)"

section \<open>Frame lemmas\<close>

text \<open>Two index states that agree but for the map of run locks.\<close>

definition same_data :: "indexes \<Rightarrow> indexes \<Rightarrow> bool" where
  "same_data ix ix' \<longleftrightarrow> ix_effects_by_id ix' = ix_effects_by_id ix \<and> ix_effect_ids ix' = ix_effect_ids ix \<and>
     ix_runs ix' = ix_runs ix \<and> ix_events ix' = ix_events ix \<and> ix_checkpoints ix' = ix_checkpoints ix \<and>
     (dm_ok (ix_run_locks ix) \<longrightarrow> dm_ok (ix_run_locks ix'))"

lemma same_data_refl [simp]: "same_data ix ix"
  by (simp add: same_data_def)

lemma same_data_trans: "same_data a b \<Longrightarrow> same_data b c \<Longrightarrow> same_data a c"
  by (simp add: same_data_def)

lemma same_data_run_lock [simp]: "same_data (lg_indexes lg) (lg_indexes (run_lock r lg))"
  by (simp add: same_data_def run_lock_def)

lemma run_lock_sel [simp]:
  "ix_runs (lg_indexes (run_lock r lg)) = ix_runs (lg_indexes lg)"
  "ix_effects_by_id (lg_indexes (run_lock r lg)) = ix_effects_by_id (lg_indexes lg)"
  "ix_effect_ids (lg_indexes (run_lock r lg)) = ix_effect_ids (lg_indexes lg)"
  "run_events (lg_indexes (run_lock r lg)) i = run_events (lg_indexes lg) i"
  "run_checkpoints (lg_indexes (run_lock r lg)) i = run_checkpoints (lg_indexes lg) i"
  "lg_counters (run_lock r lg) = lg_counters lg"
  "lg_wal (run_lock r lg) = lg_wal lg"
  "lg_default_lease (run_lock r lg) = lg_default_lease lg"
  "lg_min_lease (run_lock r lg) = lg_min_lease lg"
  "lg_max_lease (run_lock r lg) = lg_max_lease lg"
  by (simp_all add: run_lock_def run_events_def run_checkpoints_def)

lemma run_in_scope_run_lock [simp]: "run_in_scope X scope r (run_lock r' lg) = run_in_scope X scope r lg"
  by (simp add: run_in_scope_def)

lemma same_data_sel:
  assumes "same_data ix ix'"
  shows "run_events ix' i = run_events ix i" "run_checkpoints ix' i = run_checkpoints ix i"
    "ix_runs ix' = ix_runs ix" "ix_effects_by_id ix' = ix_effects_by_id ix" "ix_effect_ids ix' = ix_effect_ids ix"
  using assms by (simp_all add: same_data_def run_events_def run_checkpoints_def)

lemma indexes_ok_same: "same_data ix ix' \<Longrightarrow> indexes_ok X ix \<Longrightarrow> indexes_ok X ix'"
proof -
  assume s: "same_data ix ix'" and ok: "indexes_ok X ix"
  have "run_ok X ix' i = run_ok X ix i" for i
    using s by (intro run_ok_cong) (simp_all add: same_data_def)
  then show ?thesis using s ok by (simp add: indexes_ok_def effects_ok_def same_data_def)
qed

lemma effect_wf_runs: "ix_runs ix' = ix_runs ix \<Longrightarrow> effect_wf ix' e = effect_wf ix e"
  by (simp add: effect_wf_def)

lemma ledger_inv_same:
  "same_data (lg_indexes lg) (lg_indexes lg') \<Longrightarrow> ledger_inv X lg \<Longrightarrow> ledger_inv X lg'"
  using indexes_ok_same effect_wf_runs [of "lg_indexes lg'" "lg_indexes lg"]
  by (auto simp: ledger_inv_def checkpoints_bounded_def same_data_sel)

text \<open>
  What \<open>persist\<close> does with a mutation that fits: it fails before anything is applied, or the
  mutation is applied.
\<close>

lemma persist_cases:
  assumes "persist X K oi kind lg = (r, lg')" "indexes_ok X (lg_indexes lg)" "kind_fits X (lg_indexes lg) kind"
  shows "(\<exists>e. r = Inl (Persistence e) \<and> lg_indexes lg' = lg_indexes lg) \<or>
    (r = Inr () \<and> lg_indexes lg' = snd (indexes_apply X kind (lg_indexes lg)))"
proof -
  obtain ix where ix: "indexes_apply X kind (lg_indexes lg) = (Inr (), ix)"
    using apply_fits(1) [OF assms(2,3)] by (cases "indexes_apply X kind (lg_indexes lg)") auto
  then show ?thesis
    using assms(1) by (auto simp: persist_def split: sum.splits prod.splits)
qed

lemma persist_frame:
  assumes "persist X K oi kind lg = (r, lg')"
  shows "lg_counters lg' = lg_counters lg" "lg_default_lease lg' = lg_default_lease lg"
    "lg_min_lease lg' = lg_min_lease lg" "lg_max_lease lg' = lg_max_lease lg"
    "lg_retention lg' = lg_retention lg" "lg_partitions lg' = lg_partitions lg"
  using assms by (auto simp: persist_def split: sum.splits prod.splits)

text \<open>The next event of a run's timeline is what the builder makes of the run record.\<close>

lemma run_row:
  assumes "indexes_ok X ix" "dm_get (ix_runs ix) i = Some run"
  shows "rr_id run = i" "rr_last_event_sequence run = int (length (run_events ix i))"
    "rr_head_hash run = stored.head_hash (run_events ix i)"
proof -
  have "row_ok X i (run_events ix i) (run_checkpoints ix i) (Some run)"
    using assms by (metis indexes_ok_def run_ok_def)
  then show "rr_id run = i" "rr_last_event_sequence run = int (length (run_events ix i))"
    "rr_head_hash run = stored.head_hash (run_events ix i)"
    by (simp_all add: row_ok_def)
qed

lemma build_event_next:
  assumes ok: "indexes_ok X ix" and run: "dm_get (ix_runs ix) i = Some run"
    and room: "int (length (run_events ix i)) < i64_max"
  shows "event_next X ix (build_event X u scope run t occurred payload now)"
proof -
  have "i64_add (int (length (run_events ix i))) 1 = int (length (run_events ix i)) + 1"
    using room by (simp add: i64_add_eq in_i64_def i64_min_def)
  then show ?thesis
    using run_row [OF ok run] run room
    by (simp add: event_next_def build_event_def Let_def compute_event_hash_def view_event_def event_hash_input_def)
qed

lemma build_event_run_id [simp]: "evr_run_id (build_event X u scope run t occurred payload now) = rr_id run"
  by (simp add: build_event_def Let_def)

lemma run_in_scope_Inr:
  "run_in_scope X scope r lg = Inr run \<longleftrightarrow> dm_get (ix_runs (lg_indexes lg)) r = Some run \<and>
     rr_tenant_id run = sc_tenant_id scope \<and> rr_project_id run = sc_project_id scope"
  by (auto simp: run_in_scope_def split: option.splits if_splits)

lemma build_effect_event_same:
  "build_effect_event X oi scope e t detail now lg = (r, lg') \<Longrightarrow> same_data (lg_indexes lg) (lg_indexes lg')"
  by (auto simp: build_effect_event_def Let_def split: option.splits sum.splits)

lemma build_effect_event_next:
  assumes b: "build_effect_event X oi scope e t detail now lg = (Inr evo, lg')"
    and ok: "indexes_ok X (lg_indexes lg)" "fresh_input oi lg"
  shows "case evo of None \<Rightarrow> er_run_id e = None
    | Some ev \<Rightarrow> event_next X (lg_indexes lg) ev \<and> er_run_id e = Some (evr_run_id ev)"
proof (cases "er_run_id e")
  case None
  with b show ?thesis by (simp add: build_effect_event_def)
next
  case (Some i)
  with b obtain run p where run: "dm_get (ix_runs (lg_indexes lg)) i = Some run"
    and evo: "evo = Some (build_event X (oi_event_id oi) scope run t now p now)"
    by (auto simp: build_effect_event_def Let_def run_in_scope_Inr split: sum.splits)
  show ?thesis
    using Some evo run_row(1) [OF ok(1) run] build_event_next [OF ok(1) run] ok(2)
    by (simp add: fresh_input_def)
qed

section \<open>The lifecycle of an effect\<close>

text \<open>What never changes of an effect.\<close>

definition same_identity :: "effect_record \<Rightarrow> effect_record \<Rightarrow> bool" where
  "same_identity e e' \<longleftrightarrow> er_id e' = er_id e \<and> er_tenant_id e' = er_tenant_id e \<and>
     er_project_id e' = er_project_id e \<and> er_run_id e' = er_run_id e \<and> er_scope e' = er_scope e \<and>
     er_idempotency_key e' = er_idempotency_key e \<and> er_tool_name e' = er_tool_name e \<and>
     er_input_digest e' = er_input_digest e \<and> er_created_at_ms e' = er_created_at_ms e"

definition lease_over :: "int \<Rightarrow> effect_record \<Rightarrow> bool" where
  "lease_over now e \<longleftrightarrow> unwrap_or (er_lease_expires_at_ms e) now \<le> now"

text \<open>
  The specification of the effect lifecycle: every change the ledger may make to an effect,
  \<open>None\<close> being an effect that does not exist.  \<open>reclaim\<close> is the only step that gives a new
  lease on an existing effect, and the only one that changes the fencing token.
\<close>

inductive effect_step :: "int \<Rightarrow> effect_record option \<Rightarrow> effect_record option \<Rightarrow> bool" for now where
  create: "er_state e = Claimed \<Longrightarrow> er_fencing_token e = 1 \<Longrightarrow> effect_step now None (Some e)"
| reclaim: "er_state e = FailedRetryable \<or> er_state e = Claimed \<and> lease_over now e \<Longrightarrow>
    er_state e' = Claimed \<Longrightarrow> er_fencing_token e' = er_fencing_token e + 1 \<Longrightarrow>
    same_identity e e' \<Longrightarrow> effect_step now (Some e) (Some e')"
| expire: "er_state e = InProgress \<Longrightarrow> lease_over now e \<Longrightarrow> er_state e' = OutcomeUnknown \<Longrightarrow>
    er_fencing_token e' = er_fencing_token e \<Longrightarrow> same_identity e e' \<Longrightarrow> effect_step now (Some e) (Some e')"
| worker: "leased (er_state e) \<Longrightarrow>
    er_state e' = er_state e \<or> er_state e' \<in> {InProgress, Committed, FailedRetryable, FailedTerminal, OutcomeUnknown} \<Longrightarrow>
    er_fencing_token e' = er_fencing_token e \<Longrightarrow> same_identity e e' \<Longrightarrow> effect_step now (Some e) (Some e')"
| reconcile: "er_state e = OutcomeUnknown \<Longrightarrow> er_state e' \<in> {ReconciledCommitted, ReconciledFailed} \<Longrightarrow>
    er_fencing_token e' = er_fencing_token e \<Longrightarrow> same_identity e e' \<Longrightarrow> effect_step now (Some e) (Some e')"
| prune: "effect_step now (Some e) None"

inductive_cases effect_step_SomeE: "effect_step now (Some e) (Some e')"
inductive_cases effect_step_NoneE: "effect_step now None (Some e')"

text \<open>Terminal effects have no step but pruning.\<close>

lemma terminal_no_step: "effect_step now (Some e) (Some e') \<Longrightarrow> \<not> is_retention_terminal (er_state e)"
  by (erule effect_step_SomeE) (auto simp: leased_def)

lemma step_identity: "effect_step now (Some e) (Some e') \<Longrightarrow> same_identity e e'"
  by (erule effect_step_SomeE)

lemma step_fencing: "effect_step now (Some e) (Some e') \<Longrightarrow>
    er_fencing_token e' = er_fencing_token e \<or> er_fencing_token e' = er_fencing_token e + 1 \<and> er_state e' = Claimed"
  by (erule effect_step_SomeE) auto

end
