(* ===== verification/Ledger_Steps.thy ===== *)
theory Ledger_Steps
  imports Ledger_Invariant
begin

text \<open>
  What every handler of the ledger does to the state: nothing, or one mutation that was logged
  first, fits the state and is a legal step of the lifecycle of effects and runs
  (\<open>outcome\<close>).  The invariant \<open>ledger_inv\<close> follows once for all mutations, and sequences of
  operations (\<open>ledger_run\<close>) inherit it.
\<close>

section \<open>Legal mutations\<close>

definition run_step :: "run_record \<Rightarrow> run_record \<Rightarrow> bool" where
  "run_step r r' \<longleftrightarrow> rr_id r' = rr_id r \<and> rr_tenant_id r' = rr_tenant_id r \<and> rr_project_id r' = rr_project_id r \<and>
     rr_parent_run_id r' = rr_parent_run_id r \<and> rr_version r' = i64_add (rr_version r) 1 \<and>
     (is_terminal (rr_status r) \<longrightarrow> rr_status r' = rr_status r)"

text \<open>The tenant and project a request is made for; retention is made for none.\<close>

definition owned :: "tenant_scope option \<Rightarrow> string \<Rightarrow> string \<Rightarrow> bool" where
  "owned sc tenant project \<longleftrightarrow> is_none_or sc (\<lambda>s. tenant = sc_tenant_id s \<and> project = sc_project_id s)"

definition run_owned :: "tenant_scope option \<Rightarrow> indexes \<Rightarrow> uuid \<Rightarrow> bool" where
  "run_owned sc ix i \<longleftrightarrow>
     (\<exists>run. dm_get (ix_runs ix) i = Some run \<and> owned sc (rr_tenant_id run) (rr_project_id run))"

fun kind_legal :: "op_input \<Rightarrow> tenant_scope option \<Rightarrow> indexes \<Rightarrow> record_kind \<Rightarrow> bool" where
  "kind_legal oi sc ix (RunCreated run) \<longleftrightarrow> rr_id run = oi_id oi \<and> rr_status run = Running \<and>
     rr_version run = 1 \<and> owned sc (rr_tenant_id run) (rr_project_id run)"
| "kind_legal oi sc ix (RunUpdated run) \<longleftrightarrow> (\<exists>old. dm_get (ix_runs ix) (rr_id run) = Some old \<and> run_step old run) \<and>
     run_owned sc ix (rr_id run)"
| "kind_legal oi sc ix (EffectApplied e event) \<longleftrightarrow>
     effect_step (oi_now oi) (dm_get (ix_effects_by_id ix) (er_id e)) (Some e) \<and> effect_wf ix e \<and>
     er_run_id e = map_option evr_run_id event \<and> owned sc (er_tenant_id e) (er_project_id e) \<and>
     (dm_get (ix_effects_by_id ix) (er_id e) = None \<longrightarrow> er_id e = oi_id oi)"
| "kind_legal oi sc ix (EventAppended ev) \<longleftrightarrow> run_owned sc ix (evr_run_id ev)"
| "kind_legal oi sc ix (CheckpointCreated c) \<longleftrightarrow> run_owned sc ix (cpr_run_id c) \<and>
     0 \<le> cpr_event_sequence c \<and> cpr_event_sequence c \<le> int (length (run_events ix (cpr_run_id c)))"
| "kind_legal oi sc ix (RetentionApplied cutoff run_ids effect_ids) \<longleftrightarrow> sc = None \<and>
     run_ids = pruned_runs cutoff ix \<and> effect_ids = pruned_effects cutoff run_ids ix"

definition kept :: "ext \<Rightarrow> op_input \<Rightarrow> ledger \<Rightarrow> ledger \<Rightarrow> bool" where
  "kept X oi lg lg' \<longleftrightarrow> same_data (lg_indexes lg) (lg_indexes lg') \<and>
     lg_last_wal_position lg' = lg_last_wal_position lg \<and>
     (lg_wal lg' = lg_wal lg \<or>
      (\<exists>bs e. wal_append X (oi_io oi) (oi_sync_io oi) (lg_wal lg) Put bs = (Inl e, lg_wal lg')))"

definition applied ::
  "ext \<Rightarrow> serde \<Rightarrow> op_input \<Rightarrow> tenant_scope option \<Rightarrow> record_kind \<Rightarrow> ledger \<Rightarrow> ledger \<Rightarrow> bool" where
  "applied X K oi sc kind lg lg' \<longleftrightarrow> (\<exists>ix. same_data (lg_indexes lg) ix \<and> kind_fits X ix kind \<and>
     kind_legal oi sc ix kind \<and> lg_indexes lg' = snd (indexes_apply X kind ix)) \<and>
     (\<exists>bs position. encode K kind = Inr bs \<and> lg_last_wal_position lg' = Some position \<and>
       wal_append X (oi_io oi) (oi_sync_io oi) (lg_wal lg) Put bs = (Inr position, lg_wal lg'))"

definition outcome ::
  "ext \<Rightarrow> serde \<Rightarrow> op_input \<Rightarrow> tenant_scope option \<Rightarrow> ledger \<Rightarrow> 'e + 'a \<Rightarrow> ledger \<Rightarrow> bool" where
  "outcome X K oi sc lg r lg' \<longleftrightarrow> kept X oi lg lg' \<or> (\<not> isl r \<and> (\<exists>kind. applied X K oi sc kind lg lg'))"

lemma kept_same [dest]: "kept X oi lg lg' \<Longrightarrow> same_data (lg_indexes lg) (lg_indexes lg')"
  by (simp add: kept_def)

text \<open>Before it logs anything a handler may at most have created a lock.\<close>

definition idle :: "ledger \<Rightarrow> ledger \<Rightarrow> bool" where
  "idle lg lg' \<longleftrightarrow> same_data (lg_indexes lg) (lg_indexes lg') \<and> lg_wal lg' = lg_wal lg \<and>
     lg_last_wal_position lg' = lg_last_wal_position lg"

lemma idle_same: "idle lg lg' \<Longrightarrow> same_data (lg_indexes lg) (lg_indexes lg')"
  by (simp add: idle_def)

lemma idle_kept: "idle lg lg' \<Longrightarrow> kept X oi lg lg'"
  by (simp add: idle_def kept_def)

lemma idle_refl [simp]: "idle lg lg"
  by (simp add: idle_def)

lemma idle_run_lock [simp]: "idle lg (run_lock i lg)"
  by (simp add: idle_def run_lock_def same_data_def)

lemma idle_build_event: "build_effect_event X oi scope e t detail now lg = (r, lg') \<Longrightarrow> idle lg lg'"
  by (auto simp: build_effect_event_def Let_def split: option.splits sum.splits)

lemma kept_refl [simp]: "kept X oi lg lg" and kept_run_lock [simp]: "kept X oi lg (run_lock i lg)"
  by (simp_all add: idle_kept)

lemma applied_counters [simp]: "applied X K oi sc kind lg (lg'\<lparr>lg_counters := c\<rparr>) = applied X K oi sc kind lg lg'"
  by (simp add: applied_def)

lemma kept_counters [simp]: "kept X oi lg (lg'\<lparr>lg_counters := c\<rparr>) = kept X oi lg lg'"
  by (simp add: kept_def)

lemma outcome_counters [simp]:
  "outcome X K oi sc lg r (lg'\<lparr>lg_counters := c\<rparr>) = outcome X K oi sc lg r lg'"
  by (simp add: outcome_def)

lemma owned_simps [simp]:
  "owned None t p" "owned (Some scope) t p \<longleftrightarrow> t = sc_tenant_id scope \<and> p = sc_project_id scope"
  by (simp_all add: owned_def)

lemma run_owned_same: "same_data ix ix' \<Longrightarrow> run_owned sc ix' i = run_owned sc ix i"
  by (simp add: run_owned_def same_data_sel)

lemma run_owned_scope: "run_in_scope X scope i lg = Inr run \<Longrightarrow> run_owned (Some scope) (lg_indexes lg) i"
  by (auto simp: run_in_scope_Inr run_owned_def)

text \<open>Logging and applying a mutation that fits.\<close>

lemma persist_outcome:
  assumes p: "persist X K oi kind lg1 = (r, lg2)" and idle: "idle lg lg1"
    and ok: "indexes_ok X (lg_indexes lg)" and fits: "kind_fits X (lg_indexes lg1) kind"
    and legal: "kind_legal oi sc (lg_indexes lg1) kind"
  shows "(\<exists>e. r = Inl e \<and> kept X oi lg lg2) \<or> (r = Inr () \<and> applied X K oi sc kind lg lg2)"
proof -
  note same = idle_same [OF idle]
  obtain ix where ix: "indexes_apply X kind (lg_indexes lg1) = (Inr (), ix)"
    using apply_fits(1) [OF indexes_ok_same [OF same ok] fits]
    by (cases "indexes_apply X kind (lg_indexes lg1)") auto
  show ?thesis
    using p idle fits legal same ix
    by (auto simp: persist_def kept_def applied_def idle_def split: sum.splits prod.splits intro!: exI [of _ "lg_indexes lg1"])
qed

section \<open>Handlers\<close>

lemma ledger_invD:
  assumes "ledger_inv X lg"
  shows "indexes_ok X (lg_indexes lg)" "effects_ok (lg_indexes lg)"
    "indexes_ok X (lg_indexes (run_lock i lg))"
    "dm_get (ix_effects_by_id (lg_indexes lg)) i = Some e \<Longrightarrow> effect_wf (lg_indexes lg) e"
  using assms indexes_ok_same [OF same_data_run_lock] by (auto simp: ledger_inv_def indexes_ok_def)

lemma effect_fits_step:
  assumes "effects_ok ix" "dm_get (ix_effects_by_id ix) i = Some e" "same_identity e e'"
  shows "effect_fits ix e'" "er_id e' = i"
  using assms effects_okD(1) [OF assms(1,2)]
  by (auto simp: effect_fits_def same_identity_def effect_key_of_def)

text \<open>The tail of \<open>acquire\<close> and \<open>transition\<close>: build the event, log both, apply.\<close>

lemma commit_effect:
  assumes inv: "ledger_inv X lg" and fresh: "fresh_input oi lg"
    and b: "build_effect_event X oi scope e t detail (oi_now oi) lg = (Inr evo, lg1)"
    and p: "persist X K oi (EffectApplied e evo) lg1 = (r, lg2)"
    and fits: "effect_fits (lg_indexes lg) e" and wf: "effect_wf (lg_indexes lg) e"
    and step: "effect_step (oi_now oi) (dm_get (ix_effects_by_id (lg_indexes lg)) (er_id e)) (Some e)"
    and own: "er_tenant_id e = sc_tenant_id scope" "er_project_id e = sc_project_id scope"
    and new: "dm_get (ix_effects_by_id (lg_indexes lg)) (er_id e) = None \<Longrightarrow> er_id e = oi_id oi"
  shows "(\<exists>err. r = Inl err \<and> kept X oi lg lg2) \<or>
    (r = Inr () \<and> applied X K oi (Some scope) (EffectApplied e evo) lg lg2)"
proof -
  have ok: "indexes_ok X (lg_indexes lg)" using inv by (simp add: ledger_inv_def)
  note same = build_effect_event_same [OF b]
  note next_ev = build_effect_event_next [OF b ok fresh]
  have "event_next X (lg_indexes lg1) ev = event_next X (lg_indexes lg) ev" for ev
    by (simp add: event_next_def same_data_sel [OF same])
  then have "kind_fits X (lg_indexes lg1) (EffectApplied e evo)"
    using fits next_ev same_data_sel [OF same] by (auto simp: effect_fits_def split: option.splits)
  moreover have "kind_legal oi (Some scope) (lg_indexes lg1) (EffectApplied e evo)"
    using next_ev wf step own new same_data_sel(3,4) [OF same] effect_wf_runs [of "lg_indexes lg1" "lg_indexes lg" e]
    by (auto split: option.splits)
  ultimately show ?thesis using persist_outcome [OF p idle_build_event [OF b] ok] by blast
qed

lemma fencing_step:
  assumes "fresh_input oi lg" "ledger_inv X lg" "dm_get (ix_effects_by_id (lg_indexes lg)) i = Some e"
  shows "i64_add (er_fencing_token e) 1 = er_fencing_token e + 1"
proof -
  have "1 \<le> er_fencing_token e" "er_fencing_token e < i64_max"
    using assms unfolding fresh_input_def ledger_inv_def effect_wf_def by blast+
  then show ?thesis by (simp add: i64_add_eq in_i64_def i64_min_def)
qed

text \<open>The two plans that change an existing effect.\<close>

lemma plan_existing_cases:
  assumes "plan_existing X oi req lease_ms e = ApplyPlan e' t detail d tok"
  shows "(er_state e = FailedRetryable \<or> er_state e = Claimed \<and> lease_over (oi_now oi) e) \<and>
      (e', tok) = reacquire X oi e req lease_ms (oi_now oi) \<and> d = Execute \<or>
    er_state e = InProgress \<and> lease_over (oi_now oi) e \<and> e' = expire_in_progress e (oi_now oi) \<and>
      tok = None \<and> d = Reconcile"
  using assms
  by (auto simp: plan_existing_def reacquire_plan_def Let_def lease_over_def
      split: effect_status.splits if_splits prod.splits)

lemma plan_existing_step:
  assumes "ledger_inv X lg" "fresh_input oi lg" "dm_get (ix_effects_by_id (lg_indexes lg)) i = Some e"
    and "er_tool_name e = aq_tool_name req" "plan_existing X oi req lease_ms e = ApplyPlan e' t detail d tok"
  shows "effect_step (oi_now oi) (Some e) (Some e') \<and> effect_wf (lg_indexes lg) e'"
proof -
  have wf: "effect_wf (lg_indexes lg) e" using assms by (simp add: ledger_inv_def)
  note fs = fencing_step [OF assms(2,1,3)]
  show ?thesis
    using plan_existing_cases [OF assms(5)]
  proof (elim disjE conjE)
    assume "(e', tok) = reacquire X oi e req lease_ms (oi_now oi)"
    then have e': "e' = e\<lparr>er_state := Claimed, er_fencing_token := er_fencing_token e + 1,
        er_lease_expires_at_ms := Some (i64_add (oi_now oi) lease_ms), er_lease_duration_ms := lease_ms,
        er_lease_token_digest := Some (sha256_digest X (generate_lease_token X (oi_token1 oi) (oi_token2 oi))),
        er_tool_name := er_tool_name e, er_updated_at_ms := oi_now oi\<rparr>"
      by (simp add: reacquire_def Let_def fs assms(4))
    have w: "effect_wf (lg_indexes lg) e'" using wf by (simp add: e' effect_wf_def leased_def)
    have i: "same_identity e e'" by (simp add: e' same_identity_def)
    show ?thesis if "er_state e = FailedRetryable"
      using w effect_step.reclaim [OF _ _ _ i] that by (simp add: e')
    show ?thesis if "er_state e = Claimed" "lease_over (oi_now oi) e"
      using w effect_step.reclaim [OF _ _ _ i] that by (simp add: e')
  next
    assume h: "er_state e = InProgress" "lease_over (oi_now oi) e" "e' = expire_in_progress e (oi_now oi)"
    have "same_identity e e'" by (simp add: h(3) expire_in_progress_def same_identity_def)
    with h wf show ?thesis
      by (auto intro!: effect_step.expire simp: expire_in_progress_def effect_wf_def leased_def)
  qed
qed

definition key_in :: "tenant_scope \<Rightarrow> string \<Rightarrow> string \<Rightarrow> effect_key" where
  "key_in scope s key = \<lparr>ek_tenant_id = sc_tenant_id scope, ek_project_id = sc_project_id scope,
     ek_scope = s, ek_idempotency_key = key\<rparr>"

lemma existing_effect_ok:
  assumes "effects_ok ix"
  shows "existing_effect ix k = Some e \<longleftrightarrow> dm_get (ix_effects_by_id ix) (er_id e) = Some e \<and> effect_key_of e = k"
    and "existing_effect ix k = None \<longleftrightarrow> dm_get (ix_effect_ids ix) k = None"
proof -
  note D = effects_okD [OF assms]
  have none: "existing_effect ix k = None" if "dm_get (ix_effect_ids ix) k = None"
    using that by (simp add: existing_effect_def)
  have some: "\<exists>e. existing_effect ix k = Some e \<and> effect_key_of e = k \<and> dm_get (ix_effects_by_id ix) (er_id e) = Some e"
    if i: "dm_get (ix_effect_ids ix) k = Some i" for i
  proof -
    obtain e where "dm_get (ix_effects_by_id ix) i = Some e" "effect_key_of e = k" using D(3) [OF i] by blast
    with D(1) i show ?thesis by (auto simp: existing_effect_def)
  qed
  show "existing_effect ix k = None \<longleftrightarrow> dm_get (ix_effect_ids ix) k = None"
    using none some by (cases "dm_get (ix_effect_ids ix) k") auto
  show "existing_effect ix k = Some e \<longleftrightarrow> dm_get (ix_effects_by_id ix) (er_id e) = Some e \<and> effect_key_of e = k"
  proof
    assume "dm_get (ix_effects_by_id ix) (er_id e) = Some e \<and> effect_key_of e = k"
    with D(2) [of "er_id e" e] show "existing_effect ix k = Some e" by (simp add: existing_effect_def)
  qed (use none some in \<open>cases "dm_get (ix_effect_ids ix) k"; auto\<close>)
qed

lemma acquire_plan_new:
  assumes "acquire_plan X oi scope key req lease_ms digest lg = Inr (ApplyPlan e t detail d tok)"
    and "existing_effect (lg_indexes lg) (key_in scope (aq_scope req) key) = None"
  shows "e = new_effect X oi scope key req lease_ms digest (generate_lease_token X (oi_token1 oi) (oi_token2 oi))"
    "d = Execute" "tok = Some (generate_lease_token X (oi_token1 oi) (oi_token2 oi))"
    "aq_run_id req = Some r \<Longrightarrow> \<exists>run. run_in_scope X scope r lg = Inr run"
  using assms by (auto simp: acquire_plan_def key_in_def Let_def split: option.splits sum.splits)

lemma acquire_plan_old:
  assumes "acquire_plan X oi scope key req lease_ms digest lg = Inr p"
    and "existing_effect (lg_indexes lg) (key_in scope (aq_scope req) key) = Some e"
  shows "p = plan_existing X oi req lease_ms e" "er_input_digest e = digest" "er_tool_name e = aq_tool_name req"
  using assms by (auto simp: acquire_plan_def key_in_def Let_def split: if_splits)

lemma new_effect_ok:
  assumes "ledger_inv X lg" "fresh_input oi lg"
    and "existing_effect (lg_indexes lg) (key_in scope (aq_scope req) key) = None"
    and "\<And>r. aq_run_id req = Some r \<Longrightarrow> \<exists>run. run_in_scope X scope r lg = Inr run"
    and e_def: "e = new_effect X oi scope key req lease_ms digest tok"
  shows "effect_fits (lg_indexes lg) e \<and> effect_wf (lg_indexes lg) e \<and>
    effect_step (oi_now oi) (dm_get (ix_effects_by_id (lg_indexes lg)) (er_id e)) (Some e) \<and>
    er_tenant_id e = sc_tenant_id scope \<and> er_project_id e = sc_project_id scope \<and>
    (dm_get (ix_effects_by_id (lg_indexes lg)) (er_id e) = None \<longrightarrow> er_id e = oi_id oi)"
proof -
  have free: "dm_get (ix_effects_by_id (lg_indexes lg)) (er_id e) = None"
    using assms(2) by (simp add: e_def new_effect_def fresh_input_def)
  have "effect_key_of e = key_in scope (aq_scope req) key"
    by (simp add: e_def new_effect_def effect_key_of_def key_in_def)
  then have "dm_get (ix_effect_ids (lg_indexes lg)) (effect_key_of e) = None"
    using assms(1,3) existing_effect_ok(2) by (simp add: ledger_inv_def indexes_ok_def)
  with free have "effect_fits (lg_indexes lg) e" by (simp add: effect_fits_def)
  moreover have "effect_wf (lg_indexes lg) e"
    using assms(4) by (fastforce simp: e_def new_effect_def effect_wf_def leased_def run_in_scope_Inr)
  moreover have "effect_step (oi_now oi) None (Some e)"
    by (rule effect_step.create) (simp_all add: e_def new_effect_def)
  ultimately show ?thesis using free by (simp add: e_def new_effect_def)
qed

lemma acquire_plan_step:
  assumes inv: "ledger_inv X lg" and fresh: "fresh_input oi lg"
    and p: "acquire_plan X oi scope key req lease_ms digest lg = Inr (ApplyPlan e t detail d tok)"
  shows "effect_fits (lg_indexes lg) e \<and> effect_wf (lg_indexes lg) e \<and>
    effect_step (oi_now oi) (dm_get (ix_effects_by_id (lg_indexes lg)) (er_id e)) (Some e) \<and>
    er_tenant_id e = sc_tenant_id scope \<and> er_project_id e = sc_project_id scope \<and>
    (dm_get (ix_effects_by_id (lg_indexes lg)) (er_id e) = None \<longrightarrow> er_id e = oi_id oi)"
proof (cases "existing_effect (lg_indexes lg) (key_in scope (aq_scope req) key)")
  case None
  from acquire_plan_new(1,4) [OF p None] new_effect_ok [OF inv fresh None] show ?thesis by blast
next
  case (Some old)
  have eff: "effects_ok (lg_indexes lg)" using inv by (simp add: ledger_inv_def indexes_ok_def)
  have old: "dm_get (ix_effects_by_id (lg_indexes lg)) (er_id old) = Some old"
    using existing_effect_ok(1) [OF eff] Some by blast
  have own: "effect_key_of old = key_in scope (aq_scope req) key"
    using existing_effect_ok(1) [OF eff] Some by blast
  have st: "effect_step (oi_now oi) (Some old) (Some e) \<and> effect_wf (lg_indexes lg) e"
    using plan_existing_step [OF inv fresh old acquire_plan_old(3) [OF p Some]] acquire_plan_old(1) [OF p Some] by metis
  then have "same_identity old e" by (rule step_identity [OF conjunct1])
  with own have "er_tenant_id e = sc_tenant_id scope" "er_project_id e = sc_project_id scope"
    by (simp_all add: same_identity_def effect_key_of_def key_in_def)
  moreover note effect_fits_step [OF eff old \<open>same_identity old e\<close>]
  ultimately show ?thesis using st old by simp
qed

lemma acquire_cases:
  assumes inv: "ledger_inv X lg" and fresh: "fresh_input oi lg"
    and a: "acquire X K oi scope key req lg = (r, lg')"
  shows "(\<exists>err. r = Inl err \<and> kept X oi lg lg') \<or>
    (\<exists>lease_ms dec. resolve_lease_ms lg (aq_lease_duration_seconds req) ''lease_duration_seconds'' = Inr lease_ms \<and>
       acquire_plan X oi scope key req lease_ms (input_digest X (aq_input req)) lg = Inr (Decide dec) \<and>
       r = Inr dec \<and> kept X oi lg lg') \<or>
    (\<exists>lease_ms e t detail d tok evo.
       resolve_lease_ms lg (aq_lease_duration_seconds req) ''lease_duration_seconds'' = Inr lease_ms \<and>
       acquire_plan X oi scope key req lease_ms (input_digest X (aq_input req)) lg = Inr (ApplyPlan e t detail d tok) \<and>
       r = Inr \<lparr>dc_decision = d, dc_effect = view_effect e, dc_lease_token = tok, dc_poll_after_ms = None\<rparr> \<and>
       applied X K oi (Some scope) (EffectApplied e evo) lg lg')"
proof (cases "\<exists>lease_ms e t detail d tok. validate_effect_fields (aq_scope req) key (aq_tool_name req) = Inr () \<and>
    resolve_lease_ms lg (aq_lease_duration_seconds req) ''lease_duration_seconds'' = Inr lease_ms \<and>
    acquire_plan X oi scope key req lease_ms (input_digest X (aq_input req)) lg = Inr (ApplyPlan e t detail d tok)")
  case False
  then show ?thesis
    using a by (auto simp: acquire_def split: sum.splits plan.splits)
next
  case True
  then obtain lease_ms e t detail d tok where h:
    "validate_effect_fields (aq_scope req) key (aq_tool_name req) = Inr ()"
    "resolve_lease_ms lg (aq_lease_duration_seconds req) ''lease_duration_seconds'' = Inr lease_ms"
    "acquire_plan X oi scope key req lease_ms (input_digest X (aq_input req)) lg = Inr (ApplyPlan e t detail d tok)"
    by blast
  obtain br lg1 where b: "build_effect_event X oi scope e t detail (oi_now oi) lg = (br, lg1)"
    by fastforce
  show ?thesis
  proof (cases br)
    case (Inl err)
    then show ?thesis using a h b idle_kept [OF idle_build_event [OF b]] by (auto simp: acquire_def)
  next
    case (Inr evo)
    obtain pr lg2 where p: "persist X K oi (EffectApplied e evo) lg1 = (pr, lg2)" by fastforce
    have "(\<exists>err. pr = Inl err \<and> kept X oi lg lg2) \<or>
        (pr = Inr () \<and> applied X K oi (Some scope) (EffectApplied e evo) lg lg2)"
      using acquire_plan_step [OF inv fresh h(3)] by (intro commit_effect [OF inv fresh b [unfolded Inr] p]) blast+
    moreover have "(r, lg') = (case pr of Inl err \<Rightarrow> (Inl err, lg2)
        | Inr _ \<Rightarrow> (Inr \<lparr>dc_decision = d, dc_effect = view_effect e, dc_lease_token = tok, dc_poll_after_ms = None\<rparr>,
            lg2\<lparr>lg_counters := bump_acquire d (lg_counters lg2)\<rparr>))"
      using a h b Inr p by (simp add: acquire_def)
    ultimately consider err where "r = Inl err" "kept X oi lg lg'"
      | "r = Inr \<lparr>dc_decision = d, dc_effect = view_effect e, dc_lease_token = tok, dc_poll_after_ms = None\<rparr>"
        "applied X K oi (Some scope) (EffectApplied e evo) lg lg'"
      by (cases pr) auto
    then show ?thesis using h by (cases, blast+)
  qed
qed

text \<open>Transitions.\<close>

fun target :: "effect_transition \<Rightarrow> effect_status \<Rightarrow> effect_status" where
  "target Start s = InProgress"
| "target Renew s = s"
| "target Commit s = Committed"
| "target FailRetryable s = FailedRetryable"
| "target FailTerminal s = FailedTerminal"
| "target MarkOutcomeUnknown s = OutcomeUnknown"
| "target ReconcileCommitted s = ReconciledCommitted"
| "target ReconcileFailed s = ReconciledFailed"

lemma next_effect_fields:
  assumes "next_effect lg now e req = Inr (e', t)"
  shows "same_identity e e'" "er_state e' = target (up_transition req) (er_state e)"
    "er_fencing_token e' = er_fencing_token e"
  using assms
  by (auto simp: next_effect_def Let_def drop_lease_def same_identity_def
      split: effect_transition.splits sum.splits)

lemma legal_source:
  "legal_transition t s \<Longrightarrow> (if is_worker_transition t then leased s else s = OutcomeUnknown)"
  by (cases t; cases s) (simp_all add: leased_def)

lemma next_effect_step:
  assumes n: "next_effect lg now e req = Inr (e', t)" and legal: "legal_transition (up_transition req) (er_state e)"
    and wf: "effect_wf ix e"
  shows "effect_step now (Some e) (Some e') \<and> effect_wf ix e'"
proof
  note f = next_effect_fields [OF n]
  show "effect_step now (Some e) (Some e')"
  proof (cases "is_worker_transition (up_transition req)")
    case True
    have "leased (er_state e)" using legal_source [OF legal] True by simp
    then show ?thesis
      using True f by (intro effect_step.worker) (cases "up_transition req"; simp)+
  next
    case False
    have "er_state e = OutcomeUnknown" using legal_source [OF legal] False by simp
    then show ?thesis
      using False f by (intro effect_step.reconcile) (cases "up_transition req"; simp)+
  qed
  show "effect_wf ix e'"
    using n legal wf
    by (cases "up_transition req"; cases "er_state e")
      (auto simp: next_effect_def Let_def drop_lease_def effect_wf_def leased_def split: sum.splits)
qed

lemma effect_in_scope_Inr:
  "effect_in_scope X scope i lg = Inr e \<longleftrightarrow> dm_get (ix_effects_by_id (lg_indexes lg)) i = Some e \<and>
     er_tenant_id e = sc_tenant_id scope \<and> er_project_id e = sc_project_id scope"
  by (auto simp: effect_in_scope_def split: option.splits if_splits)

text \<open>The guards of a transition, in the order of the code.\<close>

definition transition_ok ::
  "ext \<Rightarrow> tenant_scope \<Rightarrow> uuid \<Rightarrow> update_request \<Rightarrow> capabilities \<Rightarrow> int \<Rightarrow> ledger \<Rightarrow> effect_record \<Rightarrow> effect_record \<Rightarrow> bool" where
  "transition_ok X scope i req caps now lg e e' \<longleftrightarrow> effect_in_scope X scope i lg = Inr e \<and>
     up_fencing_token req = er_fencing_token e \<and> legal_transition (up_transition req) (er_state e) \<and>
     authorize X e req caps = Inr () \<and> (\<exists>t. next_effect lg now e req = Inr (e', t))"

lemma transition_cases:
  assumes inv: "ledger_inv X lg" and fresh: "fresh_input oi lg"
    and tr: "transition X K oi scope i req caps lg = (r, lg')"
  shows "(\<exists>err. r = Inl err \<and> kept X oi lg lg') \<or>
    (\<exists>e e' evo. transition_ok X scope i req caps (oi_now oi) lg e e' \<and> r = Inr (view_effect e') \<and>
       applied X K oi (Some scope) (EffectApplied e' evo) lg lg')"
proof (cases "\<exists>e e'. transition_ok X scope i req caps (oi_now oi) lg e e'")
  case False
  then show ?thesis
    using tr by (auto simp: transition_def transition_ok_def effect_in_scope_Inr split: sum.splits option.splits if_splits)
next
  case True
  then obtain e e' t where ok: "transition_ok X scope i req caps (oi_now oi) lg e e'"
    and h: "dm_get (ix_effects_by_id (lg_indexes lg)) i = Some e" "effect_in_scope X scope i lg = Inr e"
      "up_fencing_token req = er_fencing_token e" "legal_transition (up_transition req) (er_state e)"
      "authorize X e req caps = Inr ()" "next_effect lg (oi_now oi) e req = Inr (e', t)"
    by (auto simp: transition_ok_def effect_in_scope_Inr)
  have eff: "effects_ok (lg_indexes lg)" using inv by (simp add: ledger_inv_def indexes_ok_def)
  have wf: "effect_wf (lg_indexes lg) e" using inv h(1) by (simp add: ledger_inv_def)
  note st = next_effect_step [OF h(6,4) wf]
  note fits = effect_fits_step [OF eff h(1) step_identity [OF conjunct1 [OF st]]]
  define detail where "detail = JObject [(''from'', JString (status_str (er_state e))),
    (''to'', JString (status_str (er_state e'))), (''transition'', JString (transition_str (up_transition req)))]"
  obtain br lg1 where b: "build_effect_event X oi scope e' t detail (oi_now oi) lg = (br, lg1)" by fastforce
  show ?thesis
  proof (cases br)
    case (Inl err)
    then show ?thesis
      using tr h b idle_kept [OF idle_build_event [OF b]] by (auto simp: transition_def detail_def)
  next
    case (Inr evo)
    obtain pr lg2 where p: "persist X K oi (EffectApplied e' evo) lg1 = (pr, lg2)" by fastforce
    have "(\<exists>err. pr = Inl err \<and> kept X oi lg lg2) \<or>
        (pr = Inr () \<and> applied X K oi (Some scope) (EffectApplied e' evo) lg lg2)"
      using st fits h(1,2) step_identity [OF conjunct1 [OF st]]
      by (intro commit_effect [OF inv fresh b [unfolded Inr] p]) (simp_all add: effect_in_scope_Inr same_identity_def)
    moreover have "(r, lg') = (case pr of Inl err \<Rightarrow> (Inl err, lg2) | Inr _ \<Rightarrow> (Inr (view_effect e'),
        lg2\<lparr>lg_counters := (lg_counters lg2)\<lparr>ct_transitions_total := u64_add (ct_transitions_total (lg_counters lg2)) 1\<rparr>\<rparr>))"
      using tr h b Inr p by (simp add: transition_def detail_def)
    ultimately consider err where "r = Inl err" "kept X oi lg lg'"
      | "r = Inr (view_effect e')" "applied X K oi (Some scope) (EffectApplied e' evo) lg lg'"
      by (cases pr) auto
    then show ?thesis using ok by (cases, blast+)
  qed
qed

text \<open>Runs, events and checkpoints.\<close>

lemma persist_tail:
  assumes "(case persist X K oi kind lg1 of (Inl e, lg) \<Rightarrow> (Inl e, lg) | (Inr _, lg) \<Rightarrow> (Inr v, lg)) = (r, lg')"
    and "ledger_inv X lg" "idle lg lg1"
    and "kind_fits X (lg_indexes lg1) kind" "kind_legal oi sc (lg_indexes lg1) kind"
  shows "(\<exists>err. r = Inl err \<and> kept X oi lg lg') \<or> (r = Inr v \<and> applied X K oi sc kind lg lg')"
proof -
  obtain pr lg2 where p: "persist X K oi kind lg1 = (pr, lg2)" by fastforce
  have ok: "indexes_ok X (lg_indexes lg)" using assms(2) by (simp add: ledger_inv_def)
  show ?thesis
    using assms(1) p persist_outcome [OF p assms(3) ok assms(4,5)] by (cases pr) auto
qed

lemma create_run_cases:
  assumes "ledger_inv X lg" "fresh_input oi lg" "create_run X K oi scope req lg = (r, lg')"
  shows "(\<exists>err. r = Inl err \<and> kept X oi lg lg') \<or>
    (\<exists>run. run = new_run oi scope (cr_external_id req) (cr_agent_name req) None None (cr_metadata req) \<and>
       r = Inr (view_run run) \<and> applied X K oi (Some scope) (RunCreated run) lg lg')"
proof -
  let ?run = "new_run oi scope (cr_external_id req) (cr_agent_name req) None None (cr_metadata req)"
  have "kind_fits X (lg_indexes lg) (RunCreated ?run)" "kind_legal oi (Some scope) (lg_indexes lg) (RunCreated ?run)"
    using assms(2) by (simp_all add: new_run_def fresh_input_def)
  from persist_tail [OF _ assms(1) idle_refl this, where K = K and v = "view_run ?run" and r = r and lg' = lg'] show ?thesis
    using assms(3) by (auto simp: create_run_def Let_def split: if_splits)
qed

lemma update_run_cases:
  assumes inv: "ledger_inv X lg" and u: "update_run X K oi scope i req expected lg = (r, lg')"
  shows "(\<exists>err. r = Inl err \<and> kept X oi lg lg') \<or>
    (\<exists>run next. run_in_scope X scope i lg = Inr run \<and> check_version expected run = Inr () \<and>
       (is_terminal (rr_status run) \<longrightarrow> ur_status req = rr_status run) \<and>
       next = run\<lparr>rr_status := ur_status req, rr_version := i64_add (rr_version run) 1, rr_updated_at_ms := oi_now oi\<rparr> \<and>
       r = Inr (view_run next) \<and> applied X K oi (Some scope) (RunUpdated next) lg lg')"
proof (cases "run_in_scope X scope i lg")
  case (Inl err)
  with u show ?thesis by (auto simp: update_run_def Let_def)
next
  case (Inr run)
  obtain n where n: "n = run\<lparr>rr_status := ur_status req, rr_version := i64_add (rr_version run) 1, rr_updated_at_ms := oi_now oi\<rparr>"
    by simp
  show ?thesis
  proof (cases "check_version expected run = Inr () \<and> (is_terminal (rr_status run) \<longrightarrow> ur_status req = rr_status run)")
    case False
    with u Inr show ?thesis by (auto simp: update_run_def Let_def split: sum.splits if_splits)
  next
    case True
    have run: "dm_get (ix_runs (lg_indexes lg)) i = Some run" using Inr by (simp add: run_in_scope_Inr)
    have i: "rr_id run = i" by (rule run_row(1) [OF ledger_invD(1) [OF inv] run])
    have "kind_fits X (lg_indexes (run_lock i lg)) (RunUpdated n)"
      "kind_legal oi (Some scope) (lg_indexes (run_lock i lg)) (RunUpdated n)"
      using run i True run_owned_scope [OF Inr] run_owned_same [OF same_data_run_lock] by (simp_all add: run_step_def n)
    note tail = persist_tail [OF _ inv idle_run_lock this, where K = K and v = "view_run n" and r = r and lg' = lg']
    have "(case persist X K oi (RunUpdated n) (run_lock i lg) of (Inl e, lg) \<Rightarrow> (Inl e, lg)
        | (Inr _, lg) \<Rightarrow> (Inr (view_run n), lg)) = (r, lg')"
      unfolding n using u True Inr by (simp add: update_run_def Let_def cong: conj_cong)
    from tail [OF this] show ?thesis using True Inr n by blast
  qed
qed

lemma fork_run_cases:
  assumes inv: "ledger_inv X lg" and fresh: "fresh_input oi lg" and f: "fork_run X K oi scope i req lg = (r, lg')"
  shows "(\<exists>err. r = Inl err \<and> kept X oi lg lg') \<or>
    (\<exists>parent sq fork. run_in_scope X scope i lg = Inr parent \<and> fork_point X i parent req (run_lock i lg) = Inr sq \<and>
       fork = new_run oi scope (rr_external_id parent @ '':fork'') (rr_agent_name parent) (Some (rr_id parent)) (Some sq)
         (fk_metadata req) \<and>
       r = Inr (view_run fork) \<and> applied X K oi (Some scope) (RunCreated fork) lg lg')"
proof (cases "\<exists>parent sq. run_in_scope X scope i lg = Inr parent \<and> fork_point X i parent req (run_lock i lg) = Inr sq")
  case False
  with f show ?thesis by (auto simp: fork_run_def Let_def split: sum.splits if_splits)
next
  case True
  then obtain parent sq where h: "run_in_scope X scope i lg = Inr parent" "fork_point X i parent req (run_lock i lg) = Inr sq"
    by blast
  let ?fork = "new_run oi scope (rr_external_id parent @ '':fork'') (rr_agent_name parent) (Some (rr_id parent)) (Some sq)
    (fk_metadata req)"
  have "kind_fits X (lg_indexes (run_lock i lg)) (RunCreated ?fork)"
    "kind_legal oi (Some scope) (lg_indexes (run_lock i lg)) (RunCreated ?fork)"
    using fresh by (simp_all add: new_run_def fresh_input_def)
  from persist_tail [OF _ inv idle_run_lock this, where K = K and v = "view_run ?fork" and r = r and lg' = lg'] show ?thesis
    using f h by (auto simp: fork_run_def Let_def split: if_splits)
qed

lemma append_event_cases:
  assumes inv: "ledger_inv X lg" and fresh: "fresh_input oi lg" and a: "append_event X K oi scope i req lg = (r, lg')"
  shows "(\<exists>err. r = Inl err \<and> kept X oi lg lg') \<or>
    (\<exists>run ev. run_in_scope X scope i lg = Inr run \<and>
       ev = build_event X (oi_event_id oi) scope run (ae_event_type req) (ae_occurred_at_ms req) (ae_payload req) (oi_now oi) \<and>
       r = Inr (view_event ev) \<and> applied X K oi (Some scope) (EventAppended ev) lg lg')"
proof (cases "run_in_scope X scope i lg")
  case (Inl err)
  with a show ?thesis by (auto simp: append_event_def Let_def split: sum.splits)
next
  case (Inr run)
  let ?ev = "build_event X (oi_event_id oi) scope run (ae_event_type req) (ae_occurred_at_ms req) (ae_payload req) (oi_now oi)"
  have run: "dm_get (ix_runs (lg_indexes (run_lock i lg))) i = Some run" using Inr by (simp add: run_in_scope_Inr)
  have ok: "indexes_ok X (lg_indexes (run_lock i lg))"
    by (rule ledger_invD(3) [OF inv])
  have "kind_fits X (lg_indexes (run_lock i lg)) (EventAppended ?ev)"
    "kind_legal oi (Some scope) (lg_indexes (run_lock i lg)) (EventAppended ?ev)"
    using build_event_next [OF ok run] fresh run_owned_scope [OF Inr] run_owned_same [OF same_data_run_lock]
      run_row(1) [OF ok run] by (simp_all add: fresh_input_def)
  from persist_tail [OF _ inv idle_run_lock this, where K = K and v = "view_event ?ev" and r = r and lg' = lg'] show ?thesis
    using a Inr by (auto simp: append_event_def Let_def split: sum.splits)
qed

lemma create_checkpoint_cases:
  assumes inv: "ledger_inv X lg" and a: "create_checkpoint X K oi scope i req expected lg = (r, lg')"
  shows "(\<exists>err. r = Inl err \<and> kept X oi lg lg') \<or>
    (\<exists>run cp. run_in_scope X scope i lg = Inr run \<and> check_version expected run = Inr () \<and>
       cpr_run_id cp = i \<and> cpr_id cp = oi_id oi \<and> cpr_event_sequence cp = cc_event_sequence req \<and>
       cpr_state cp = cc_state req \<and> cpr_state_digest cp = sha256_digest X (canonical_json X (cc_state req)) \<and>
       r = Inr (view_checkpoint cp) \<and> applied X K oi (Some scope) (CheckpointCreated cp) lg lg')"
proof (cases "\<exists>run. run_in_scope X scope i lg = Inr run \<and> check_version expected run = Inr () \<and>
    0 \<le> cc_event_sequence req \<and> cc_event_sequence req \<le> rr_last_event_sequence run")
  case False
  with a show ?thesis by (auto simp: create_checkpoint_def Let_def split: sum.splits if_splits)
next
  case True
  then obtain run where h: "run_in_scope X scope i lg = Inr run" "check_version expected run = Inr ()"
    "0 \<le> cc_event_sequence req" "cc_event_sequence req \<le> rr_last_event_sequence run" by blast
  let ?cp = "\<lparr>cpr_schema_version = SCHEMA_VERSION, cpr_tenant_id = sc_tenant_id scope,
    cpr_project_id = sc_project_id scope, cpr_id = oi_id oi, cpr_run_id = i,
    cpr_event_sequence = cc_event_sequence req, cpr_state = cc_state req,
    cpr_state_digest = sha256_digest X (canonical_json X (cc_state req)), cpr_created_at_ms = oi_now oi\<rparr>"
  have run: "dm_get (ix_runs (lg_indexes lg)) i = Some run" using h(1) by (simp add: run_in_scope_Inr)
  have "rr_last_event_sequence run = int (length (run_events (lg_indexes lg) i))"
    by (rule run_row(2) [OF ledger_invD(1) [OF inv] run])
  then have "kind_fits X (lg_indexes (run_lock i lg)) (CheckpointCreated ?cp)"
    "kind_legal oi (Some scope) (lg_indexes (run_lock i lg)) (CheckpointCreated ?cp)"
    using run h(3,4) run_owned_scope [OF h(1)] run_owned_same [OF same_data_run_lock] by simp_all
  from persist_tail [OF _ inv idle_run_lock this, where K = K and v = "view_checkpoint ?cp" and r = r and lg' = lg'] a h
  have "(\<exists>err. r = Inl err \<and> kept X oi lg lg') \<or>
      (r = Inr (view_checkpoint ?cp) \<and> applied X K oi (Some scope) (CheckpointCreated ?cp) lg lg')"
    by (simp add: create_checkpoint_def Let_def)
  then show ?thesis using h by (elim disjE) (blast, intro disjI2 exI [of _ run] exI [of _ ?cp], simp)
qed

lemma apply_retention_cases:
  assumes inv: "ledger_inv X lg" and a: "apply_retention X K oi policy lg = (r, lg')"
  defines "cutoff \<equiv> i64_saturating_sub (oi_now oi) (max (rp_max_age_ms policy) 0)"
  defines "rs \<equiv> pruned_runs cutoff (lg_indexes lg)"
  defines "es \<equiv> pruned_effects cutoff rs (lg_indexes lg)"
  shows "(\<exists>err. r = Inl err \<and> kept X oi lg lg') \<or>
    (\<exists>report. r = Inr report \<and> rp_runs_removed report = length rs \<and> rp_effects_removed report = length es \<and>
       rp_cutoff_ms report = cutoff \<and>
       (rs = [] \<and> es = [] \<and> lg' = lg \<or> applied X K oi None (RetentionApplied cutoff rs es) lg lg'))"
proof (cases "rs = [] \<and> es = []")
  note a = a [unfolded apply_retention_def Let_def, folded cutoff_def, folded rs_def, folded es_def]
  case True
  with a show ?thesis by auto
next
  note a = a [unfolded apply_retention_def Let_def, folded cutoff_def, folded rs_def, folded es_def]
  case False
  obtain pr lg2 where p: "persist X K oi (RetentionApplied cutoff rs es) lg = (pr, lg2)" by fastforce
  have "(\<exists>err. pr = Inl err \<and> kept X oi lg lg2) \<or>
      (pr = Inr () \<and> applied X K oi None (RetentionApplied cutoff rs es) lg lg2)"
    using inv by (intro persist_outcome [OF p idle_refl]) (simp_all add: ledger_inv_def rs_def es_def)
  then show ?thesis
  proof (elim disjE exE conjE)
    assume "pr = Inr ()" and ap: "applied X K oi None (RetentionApplied cutoff rs es) lg lg2"
    then have "r = Inr \<lparr>rp_runs_removed = length rs, rp_effects_removed = length es,
          rp_events_removed = sum_list (map (\<lambda>i. length (run_events (lg_indexes lg) i)) rs), rp_cutoff_ms = cutoff\<rparr>"
      "lg_indexes lg' = lg_indexes lg2" "lg_wal lg' = lg_wal lg2" "lg_last_wal_position lg' = lg_last_wal_position lg2"
      using a p False by auto
    with ap show ?thesis by (intro disjI2 exI conjI) (auto simp: applied_def)
  qed (use a p False in auto)
qed

section \<open>Every mutation keeps the invariant\<close>

lemma remove_effect_effects:
  "effects_ok ix \<Longrightarrow> dm_get (ix_effects_by_id (remove_effect i ix)) j = (if j = i then None else dm_get (ix_effects_by_id ix) j)"
  by (auto simp: remove_effect_def dm_simps split: option.splits)

lemma fold_remove_effects:
  "indexes_ok X ix \<Longrightarrow> dm_get (ix_effects_by_id (fold remove_effect is ix)) j =
     (if j \<in> set is then None else dm_get (ix_effects_by_id ix) j)"
proof (induction "is" arbitrary: ix)
  case (Cons i "is")
  then show ?case
    using indexes_ok_remove_effect [OF Cons.prems] remove_effect_effects by (simp add: indexes_ok_def)
qed simp

lemma fold_remove_effect_sel [simp]:
  "ix_runs (fold remove_effect is ix) = ix_runs ix" "ix_events (fold remove_effect is ix) = ix_events ix"
  "ix_checkpoints (fold remove_effect is ix) = ix_checkpoints ix"
  by (induction "is" arbitrary: ix) (simp_all add: remove_effect_def split: option.splits)

lemma fold_remove_run_sel:
  "dm_get (ix_runs (fold remove_run is ix)) j = (if j \<in> set is then None else dm_get (ix_runs ix) j)"
  "run_events (fold remove_run is ix) j = (if j \<in> set is then [] else run_events ix j)"
  "ix_effects_by_id (fold remove_run is ix) = ix_effects_by_id ix"
  by (induction "is" arbitrary: ix) (auto simp: remove_run_def run_events_def dm_simps)

lemma retention_sel:
  assumes "indexes_ok X ix"
  shows "dm_get (ix_effects_by_id (snd (indexes_apply X (RetentionApplied c rs es) ix))) j =
      (if j \<in> set es then None else dm_get (ix_effects_by_id ix) j)"
    "dm_get (ix_runs (snd (indexes_apply X (RetentionApplied c rs es) ix))) j =
      (if j \<in> set rs then None else dm_get (ix_runs ix) j)"
    "run_events (snd (indexes_apply X (RetentionApplied c rs es) ix)) j =
      (if j \<in> set rs then [] else run_events ix j)"
proof -
  have "indexes_ok X (fold remove_run rs ix)"
    using assms by (simp add: fold_preserves [where P = "indexes_ok X"] inv_intros)
  from fold_remove_effects [OF this, of es j] fold_remove_run_sel(1,2) [of rs ix j] fold_remove_run_sel(3) [of rs ix]
  show "dm_get (ix_effects_by_id (snd (indexes_apply X (RetentionApplied c rs es) ix))) j =
      (if j \<in> set es then None else dm_get (ix_effects_by_id ix) j)"
    "dm_get (ix_runs (snd (indexes_apply X (RetentionApplied c rs es) ix))) j =
      (if j \<in> set rs then None else dm_get (ix_runs ix) j)"
    "run_events (snd (indexes_apply X (RetentionApplied c rs es) ix)) j =
      (if j \<in> set rs then [] else run_events ix j)"
    by (simp_all add: run_events_def)
qed

text \<open>What each mutation does to the effects and to the runs.\<close>

lemma apply_event_push: "kind_fits X ix (EffectApplied e (Some ev)) \<Longrightarrow>
    snd (indexes_apply X (EffectApplied e (Some ev)) ix) = push_event ev (insert_effect e ix)"
  using apply_event_next [of X "insert_effect e ix" ev]
  by (simp add: event_next_def insert_effect_def run_events_def)

lemma applied_effects:
  assumes ok: "indexes_ok X ix" and fits: "kind_fits X ix kind"
  shows "dm_get (ix_effects_by_id (snd (indexes_apply X kind ix))) i =
    (case kind of EffectApplied e _ \<Rightarrow> if i = er_id e then Some e else dm_get (ix_effects_by_id ix) i
     | RetentionApplied _ _ es \<Rightarrow> if i \<in> set es then None else dm_get (ix_effects_by_id ix) i
     | _ \<Rightarrow> dm_get (ix_effects_by_id ix) i)"
proof (cases kind)
  case (EffectApplied e evo)
  then show ?thesis
    using fits apply_event_push [of X ix e]
    by (cases evo) (simp_all add: push_event_sel insert_effect_def dm_simps del: kind_fits.simps)
next
  case (RetentionApplied c rs es)
  then show ?thesis using retention_sel(1) [OF ok] by simp
qed (use fits in \<open>simp_all add: insert_run_def apply_event_next push_event_sel Let_def\<close>)

lemma applied_effect_step:
  assumes ok: "indexes_ok X ix" and fits: "kind_fits X ix kind" and legal: "kind_legal oi sc ix kind"
  defines "ix' \<equiv> snd (indexes_apply X kind ix)"
  shows "dm_get (ix_effects_by_id ix') i = dm_get (ix_effects_by_id ix) i \<or>
    effect_step (oi_now oi) (dm_get (ix_effects_by_id ix) i) (dm_get (ix_effects_by_id ix') i)"
proof (cases kind)
  case (EffectApplied e evo)
  then show ?thesis using applied_effects [OF ok fits] legal by (auto simp: ix'_def)
next
  case (RetentionApplied c rs es)
  then show ?thesis
    using applied_effects [OF ok fits] by (cases "dm_get (ix_effects_by_id ix) i") (auto simp: ix'_def intro: effect_step.prune)
qed (use applied_effects [OF ok fits] in \<open>simp_all add: ix'_def\<close>)

text \<open>A run stays in its tenant and project until retention removes it.\<close>

definition same_owner :: "run_record option \<Rightarrow> run_record option \<Rightarrow> bool" where
  "same_owner r r' \<longleftrightarrow> (\<forall>x. r = Some x \<longrightarrow>
     (\<exists>y. r' = Some y \<and> rr_tenant_id y = rr_tenant_id x \<and> rr_project_id y = rr_project_id x))"

lemma applied_runs:
  assumes ok: "indexes_ok X ix" and fits: "kind_fits X ix kind" and legal: "kind_legal oi sc ix kind"
  shows "same_owner (dm_get (ix_runs ix) i) (dm_get (ix_runs (snd (indexes_apply X kind ix))) i) \<or>
    (\<exists>c es. kind = RetentionApplied c (pruned_runs c ix) es \<and> i \<in> set (pruned_runs c ix))"
proof (cases kind)
  case (EffectApplied e evo)
  then show ?thesis
    using fits apply_event_push [of X ix e]
    by (cases evo) (auto simp: push_event_sel insert_effect_def same_owner_def simp del: kind_fits.simps)
next
  case (RetentionApplied c rs es)
  then show ?thesis using retention_sel(2) [OF ok, of c rs es i] legal by (auto simp: same_owner_def)
qed (use fits legal in \<open>auto simp: insert_run_def apply_event_next push_event_sel Let_def same_owner_def dm_simps run_step_def\<close>)

lemma dm_ids:
  assumes "dm_ok m" "\<And>i v. dm_get m i = Some v \<Longrightarrow> f v = i"
  shows "i \<in> f ` {v \<in> set (dm_values m). P v} \<longleftrightarrow> (\<exists>v. dm_get m i = Some v \<and> P v)"
proof
  assume "i \<in> f ` {v \<in> set (dm_values m). P v}"
  then obtain v k where "i = f v" "P v" "dm_get m k = Some v" using dm_values_iff [OF assms(1)] by auto
  with assms(2) show "\<exists>v. dm_get m i = Some v \<and> P v" by metis
next
  assume "\<exists>v. dm_get m i = Some v \<and> P v"
  then obtain v where v: "dm_get m i = Some v" "P v" by blast
  then have "v \<in> set (dm_values m)" "f v = i" using dm_values_iff [OF assms(1)] assms(2) by blast+
  with v show "i \<in> f ` {v \<in> set (dm_values m). P v}" by auto
qed

lemma pruned_effects_iff:
  assumes "effects_ok ix"
  shows "i \<in> set (pruned_effects c rs ix) \<longleftrightarrow> (\<exists>e. dm_get (ix_effects_by_id ix) i = Some e \<and>
     (is_retention_terminal (er_state e) \<and> er_updated_at_ms e \<le> c \<or> is_some_and (er_run_id e) (\<lambda>r. r \<in> set rs)))"
  unfolding pruned_effects_def set_sort set_map set_filter
  using effects_okD(1) [OF assms] assms by (intro dm_ids) (simp_all add: effects_ok_def)

lemma pruned_runs_iff:
  assumes "indexes_ok X ix"
  shows "i \<in> set (pruned_runs c ix) \<longleftrightarrow> (\<exists>run. dm_get (ix_runs ix) i = Some run \<and>
     is_terminal (rr_status run) \<and> rr_updated_at_ms run \<le> c)"
  unfolding pruned_runs_def set_sort set_map set_filter
  using run_row(1) [OF assms] assms by (intro dm_ids) (simp_all add: indexes_ok_def)

lemma effect_wf_owner:
  assumes "effect_wf ix e" "\<And>r. er_run_id e = Some r \<Longrightarrow> same_owner (dm_get (ix_runs ix) r) (dm_get (ix_runs ix') r)"
  shows "effect_wf ix' e"
proof -
  have "\<exists>run. dm_get (ix_runs ix') r = Some run \<and> rr_tenant_id run = er_tenant_id e \<and> rr_project_id run = er_project_id e"
    if r: "er_run_id e = Some r" for r
  proof -
    obtain run where "dm_get (ix_runs ix) r = Some run" "rr_tenant_id run = er_tenant_id e"
      "rr_project_id run = er_project_id e"
      using assms(1) r unfolding effect_wf_def by blast
    with assms(2) [OF r] show ?thesis by (auto simp: same_owner_def)
  qed
  with assms(1) show ?thesis by (simp add: effect_wf_def)
qed

lemma applied_wf:
  assumes ok: "indexes_ok X ix" and wf: "\<forall>i e. dm_get (ix_effects_by_id ix) i = Some e \<longrightarrow> effect_wf ix e"
    and fits: "kind_fits X ix kind" and legal: "kind_legal oi sc ix kind"
    and e: "dm_get (ix_effects_by_id (snd (indexes_apply X kind ix))) i = Some e"
  shows "effect_wf (snd (indexes_apply X kind ix)) e"
proof (rule effect_wf_owner)
  show "effect_wf ix e"
    using e wf legal unfolding applied_effects [OF ok fits] by (auto split: record_kind.splits if_splits)
  show "same_owner (dm_get (ix_runs ix) r) (dm_get (ix_runs (snd (indexes_apply X kind ix))) r)"
    if r: "er_run_id e = Some r" for r
  proof (rule ccontr)
    assume "\<not> ?thesis"
    with applied_runs [OF ok fits legal, of r] obtain c es
      where k: "kind = RetentionApplied c (pruned_runs c ix) es" "r \<in> set (pruned_runs c ix)" by blast
    have "i \<notin> set es" and old: "dm_get (ix_effects_by_id ix) i = Some e"
      using e unfolding applied_effects [OF ok fits] by (simp_all add: k split: if_splits)
    moreover have "effects_ok ix" using ok by (simp add: indexes_ok_def)
    ultimately show False using legal k r pruned_effects_iff by (auto simp: k(1))
  qed
qed

lemma run_checkpoints_sel [simp]:
  "run_checkpoints (insert_run r ix) i = run_checkpoints ix i"
  "run_checkpoints (insert_effect e ix) i = run_checkpoints ix i"
  "run_checkpoints (push_event ev ix) i = run_checkpoints ix i"
  "run_events (insert_run r ix) i = run_events ix i"
  "run_events (insert_effect e ix) i = run_events ix i"
  by (simp_all add: run_checkpoints_def run_events_def insert_run_def insert_effect_def push_event_sel)

lemma fold_remove_checkpoints:
  "run_checkpoints (fold remove_run is ix) j = (if j \<in> set is then [] else run_checkpoints ix j)"
  by (induction "is" arbitrary: ix) (auto simp: remove_run_def run_checkpoints_def dm_simps)

lemma fold_remove_effect_checkpoints [simp]: "run_checkpoints (fold remove_effect is ix) j = run_checkpoints ix j"
  by (simp add: run_checkpoints_def)

lemma bounded_grow:
  assumes "checkpoints_bounded ix" "\<And>i. run_checkpoints ix' i = run_checkpoints ix i"
    and "\<And>i. length (run_events ix i) \<le> length (run_events ix' i)"
  shows "checkpoints_bounded ix'"
  using assms unfolding checkpoints_bounded_def by (metis of_nat_mono order_trans)

lemma applied_bounded:
  assumes ok: "indexes_ok X ix" and b: "checkpoints_bounded ix" and fits: "kind_fits X ix kind"
    and legal: "kind_legal oi sc ix kind"
  shows "checkpoints_bounded (snd (indexes_apply X kind ix))"
proof (cases kind)
  case (EffectApplied e evo)
  then show ?thesis
    using fits apply_event_push [of X ix e]
    by (cases evo) (auto intro!: bounded_grow [OF b] simp: push_event_sel simp del: kind_fits.simps)
next
  case (EventAppended ev)
  then show ?thesis using fits by (auto intro!: bounded_grow [OF b] simp: apply_event_next push_event_sel)
next
  case (CheckpointCreated c)
  obtain ix' where ix': "ix' = snd (indexes_apply X kind ix)" by simp
  have ev: "run_events ix' i = run_events ix i"
    and sub: "set (run_checkpoints ix' i) \<subseteq> set (run_checkpoints ix i) \<union> (if i = cpr_run_id c then {c} else {})" for i
    by (auto simp: ix' CheckpointCreated Let_def run_events_def run_checkpoints_def dm_simps)
  have "0 \<le> cpr_event_sequence d \<and> cpr_event_sequence d \<le> int (length (run_events ix i))"
    if "d \<in> set (run_checkpoints ix' i)" for i d
    using subsetD [OF sub that] b legal by (auto simp: checkpoints_bounded_def CheckpointCreated split: if_splits)
  then show ?thesis by (simp add: checkpoints_bounded_def ev flip: ix')
next
  case (RetentionApplied c rs es)
  then show ?thesis
    using b retention_sel(3) [OF ok, of c rs es]
    by (simp add: checkpoints_bounded_def fold_remove_checkpoints)
qed (use b in \<open>simp_all add: checkpoints_bounded_def\<close>)

lemma applied_inv:
  assumes "ledger_inv X lg" "applied X K oi sc kind lg lg'"
  shows "ledger_inv X lg'"
proof -
  obtain ix where ix: "same_data (lg_indexes lg) ix" "kind_fits X ix kind" "kind_legal oi sc ix kind"
    "lg_indexes lg' = snd (indexes_apply X kind ix)"
    using assms(2) by (auto simp: applied_def)
  have ok: "indexes_ok X ix" by (rule indexes_ok_same [OF ix(1) ledger_invD(1) [OF assms(1)]])
  have "\<forall>i e. dm_get (ix_effects_by_id ix) i = Some e \<longrightarrow> effect_wf ix e"
    using assms(1) effect_wf_runs [of ix "lg_indexes lg"] by (simp add: ledger_inv_def same_data_sel [OF ix(1)])
  moreover have "checkpoints_bounded ix"
    using assms(1) by (simp add: ledger_inv_def checkpoints_bounded_def same_data_sel [OF ix(1)])
  ultimately show ?thesis
    unfolding ledger_inv_def ix(4)
    using applied_wf [OF ok _ ix(2,3)] apply_fits(2) [OF ok ix(2)] applied_bounded [OF ok _ ix(2,3)] by blast
qed

lemma outcome_inv: "ledger_inv X lg \<Longrightarrow> outcome X K oi sc lg r lg' \<Longrightarrow> ledger_inv X lg'"
  unfolding outcome_def using applied_inv ledger_inv_same kept_same by blast

lemma outcome_effect_step:
  assumes inv: "ledger_inv X lg" and out: "outcome X K oi sc lg r lg'"
  shows "dm_get (ix_effects_by_id (lg_indexes lg')) i = dm_get (ix_effects_by_id (lg_indexes lg)) i \<or>
    effect_step (oi_now oi) (dm_get (ix_effects_by_id (lg_indexes lg)) i) (dm_get (ix_effects_by_id (lg_indexes lg')) i)"
proof -
  consider "same_data (lg_indexes lg) (lg_indexes lg')" | kind where "applied X K oi sc kind lg lg'"
    using out kept_same unfolding outcome_def by blast
  then show ?thesis
  proof cases
    case 1
    then show ?thesis by (simp add: same_data_sel)
  next
    case 2
    then obtain ix where ix: "same_data (lg_indexes lg) ix" "kind_fits X ix kind" "kind_legal oi sc ix kind"
      "lg_indexes lg' = snd (indexes_apply X kind ix)"
      by (auto simp: applied_def)
    have "indexes_ok X ix" by (rule indexes_ok_same [OF ix(1) ledger_invD(1) [OF inv]])
    from applied_effect_step [OF this ix(2,3), of i] show ?thesis
      unfolding ix(4) same_data_sel(4) [OF ix(1)] .
  qed
qed

section \<open>Sequences of operations\<close>

datatype ledger_op =
    OpAcquire tenant_scope string acquire_request
  | OpTransition tenant_scope uuid update_request capabilities
  | OpCreateRun tenant_scope create_run_request
  | OpUpdateRun tenant_scope uuid update_run_request "int option"
  | OpForkRun tenant_scope uuid fork_run_request
  | OpAppendEvent tenant_scope uuid append_event_request
  | OpCreateCheckpoint tenant_scope uuid create_checkpoint_request "int option"
  | OpRetention retention_policy

definition drop_value :: "('e + 'a) \<times> ledger \<Rightarrow> ('e + unit) \<times> ledger" where
  "drop_value p = (map_sum id (\<lambda>_. ()) (fst p), snd p)"

fun ledger_op_exec :: "ext \<Rightarrow> serde \<Rightarrow> op_input \<Rightarrow> ledger_op \<Rightarrow> ledger \<Rightarrow> (ledger_error + unit) \<times> ledger" where
  "ledger_op_exec X K oi (OpAcquire scope key req) lg = drop_value (acquire X K oi scope key req lg)"
| "ledger_op_exec X K oi (OpTransition scope i req caps) lg = drop_value (transition X K oi scope i req caps lg)"
| "ledger_op_exec X K oi (OpCreateRun scope req) lg = drop_value (create_run X K oi scope req lg)"
| "ledger_op_exec X K oi (OpUpdateRun scope i req v) lg = drop_value (update_run X K oi scope i req v lg)"
| "ledger_op_exec X K oi (OpForkRun scope i req) lg = drop_value (fork_run X K oi scope i req lg)"
| "ledger_op_exec X K oi (OpAppendEvent scope i req) lg = drop_value (append_event X K oi scope i req lg)"
| "ledger_op_exec X K oi (OpCreateCheckpoint scope i req v) lg = drop_value (create_checkpoint X K oi scope i req v lg)"
| "ledger_op_exec X K oi (OpRetention policy) lg = drop_value (apply_retention X K oi policy lg)"

fun op_scope :: "ledger_op \<Rightarrow> tenant_scope option" where
  "op_scope (OpAcquire scope _ _) = Some scope"
| "op_scope (OpTransition scope _ _ _) = Some scope"
| "op_scope (OpCreateRun scope _) = Some scope"
| "op_scope (OpUpdateRun scope _ _ _) = Some scope"
| "op_scope (OpForkRun scope _ _) = Some scope"
| "op_scope (OpAppendEvent scope _ _) = Some scope"
| "op_scope (OpCreateCheckpoint scope _ _ _) = Some scope"
| "op_scope (OpRetention _) = None"

lemma outcome_drop:
  "(\<And>r lg'. p = (r, lg') \<Longrightarrow> outcome X K oi sc lg r lg') \<Longrightarrow>
     outcome X K oi sc lg (fst (drop_value p)) (snd (drop_value p))"
  by (cases p; cases "fst p") (auto simp: drop_value_def outcome_def)

lemma ledger_op_outcome:
  assumes "ledger_inv X lg" "fresh_input oi lg"
  shows "outcome X K oi (op_scope op) lg (fst (ledger_op_exec X K oi op lg)) (snd (ledger_op_exec X K oi op lg))"
proof (cases op)
  case (OpAcquire scope key req)
  show ?thesis unfolding OpAcquire ledger_op_exec.simps op_scope.simps
    by (rule outcome_drop) (use acquire_cases [OF assms, of K scope key req] in \<open>fastforce simp: outcome_def\<close>)
next
  case (OpTransition scope i req caps)
  show ?thesis unfolding OpTransition ledger_op_exec.simps op_scope.simps
    by (rule outcome_drop) (use transition_cases [OF assms, of K scope i req caps] in \<open>fastforce simp: outcome_def\<close>)
next
  case (OpCreateRun scope req)
  show ?thesis unfolding OpCreateRun ledger_op_exec.simps op_scope.simps
    by (rule outcome_drop) (use create_run_cases [OF assms, of K scope req] in \<open>fastforce simp: outcome_def\<close>)
next
  case (OpUpdateRun scope i req v)
  show ?thesis unfolding OpUpdateRun ledger_op_exec.simps op_scope.simps
    by (rule outcome_drop) (use update_run_cases [OF assms(1), of K oi scope i req v] in \<open>fastforce simp: outcome_def\<close>)
next
  case (OpForkRun scope i req)
  show ?thesis unfolding OpForkRun ledger_op_exec.simps op_scope.simps
    by (rule outcome_drop) (use fork_run_cases [OF assms, of K scope i req] in \<open>fastforce simp: outcome_def\<close>)
next
  case (OpAppendEvent scope i req)
  show ?thesis unfolding OpAppendEvent ledger_op_exec.simps op_scope.simps
    by (rule outcome_drop) (use append_event_cases [OF assms, of K scope i req] in \<open>fastforce simp: outcome_def\<close>)
next
  case (OpCreateCheckpoint scope i req v)
  show ?thesis unfolding OpCreateCheckpoint ledger_op_exec.simps op_scope.simps
    by (rule outcome_drop) (use create_checkpoint_cases [OF assms(1), of K oi scope i req v] in \<open>fastforce simp: outcome_def\<close>)
next
  case (OpRetention policy)
  show ?thesis unfolding OpRetention ledger_op_exec.simps op_scope.simps
    by (rule outcome_drop) (use apply_retention_cases [OF assms(1), of K oi policy] in \<open>fastforce simp: outcome_def\<close>)
qed

end
