(* ===== verification/Wal_Log.thy ===== *)
theory Wal_Log
  imports Wal
begin

text \<open>
  What the write-ahead log holds and what survives.

  \<open>dir_log\<close> reads a directory as the sequence of its records.  \<open>wal_inv\<close> is the invariant of
  the writer task: canonical segment names, whole records in every segment, the active
  segment last.  \<open>sync_inv\<close> says which bytes are durable.  The lemmas: appends extend the log
  by the record at the acknowledged position, a machine crash leaves a prefix of the log that
  contains everything synced, recovery truncates exactly the torn tail, and replay yields the
  log in write order.
\<close>

section \<open>Segment names\<close>

lemma pad_zero_ascii: "list_all is_ascii_digit (pad_zero w (nat_to_string n))"
  using pad_zero_digits [of _ w n] by (auto simp: list_all_iff is_ascii_digit_def)

lemma pad_zero_nonempty: "pad_zero w (nat_to_string n) \<noteq> []"
  by (simp add: pad_zero_def nat_to_string_def)

lemma parse_segment_path [simp]: "n < 2 ^ 64 \<Longrightarrow> parse_segment_file_name (segment_path n) = Some n"
  using pad_zero_ascii [of 8 n] pad_zero_nonempty [of 8 n] pad_zero_value [of 8 n]
  by (simp add: parse_segment_file_name_def segment_path_def parse_u64_digits_def)

lemma segment_path_inj: "m < 2 ^ 64 \<Longrightarrow> n < 2 ^ 64 \<Longrightarrow> segment_path m = segment_path n \<longleftrightarrow> m = n"
  by (metis option.inject parse_segment_path)

section \<open>Directories as logs\<close>

definition file_data :: "wal_dir \<Rightarrow> string \<Rightarrow> bytes" where
  "file_data D path = (case dm_get D path of None \<Rightarrow> [] | Some f \<Rightarrow> fdata f)"

definition segments :: "wal_dir \<Rightarrow> (nat \<times> string) list" where
  "segments D = sort_key fst (segment_entries D)"

definition to_wal_record :: "nat \<Rightarrow> nat \<times> record_type \<times> bytes \<Rightarrow> wal_record" where
  "to_wal_record sid r =
     \<lparr>wr_segment_id = sid, wr_offset = fst r, wr_record_type = fst (snd r), wr_payload = snd (snd r)\<rparr>"

definition segment_log :: "ext \<Rightarrow> nat \<Rightarrow> bytes \<Rightarrow> wal_record list" where
  "segment_log X sid data = map (to_wal_record sid) (fst (scan_segment X data))"

definition segs_log :: "ext \<Rightarrow> wal_dir \<Rightarrow> (nat \<times> string) list \<Rightarrow> wal_record list" where
  "segs_log X D ss = concat (map (\<lambda>(sid, path). segment_log X sid (file_data D path)) ss)"

definition dir_log :: "ext \<Rightarrow> wal_dir \<Rightarrow> wal_record list" where
  "dir_log X D = segs_log X D (segments D)"

definition whole :: "ext \<Rightarrow> bytes \<Rightarrow> bool" where
  "whole X data \<longleftrightarrow> (\<exists>rs. (\<forall>r \<in> set rs. payload_fits r) \<and> data = wal.frames X rs)"

definition canonical_names :: "wal_dir \<Rightarrow> bool" where
  "canonical_names D \<longleftrightarrow> dm_ok D \<and>
     (\<forall>path sid f. dm_get D path = Some f \<longrightarrow> parse_segment_file_name path = Some sid \<longrightarrow>
        path = segment_path sid)"

lemma segs_log_simps:
  "segs_log X D [] = []"
  "segs_log X D ((sid, path) # ss) = segment_log X sid (file_data D path) @ segs_log X D ss"
  "segs_log X D (ss @ ss') = segs_log X D ss @ segs_log X D ss'"
  by (simp_all add: segs_log_def)

lemma segs_log_cong:
  "(\<And>i n. (i, n) \<in> set ss \<Longrightarrow> file_data D n = file_data D' n) \<Longrightarrow> segs_log X D ss = segs_log X D' ss"
  unfolding segs_log_def by (rule arg_cong [of _ _ concat], rule map_cong) auto

lemma segment_entries_names:
  "segment_entries D = List.map_filter (\<lambda>n. map_option (\<lambda>sid. (sid, n)) (parse_segment_file_name n)) (map fst D)"
  by (induction D) (auto simp: segment_entries_def map_filter_simps split: option.splits)

lemma segment_entries_iff:
  "(sid, path) \<in> set (segment_entries D) \<longleftrightarrow> dm_get D path \<noteq> None \<and> parse_segment_file_name path = Some sid"
  unfolding segment_entries_names List.map_filter_def dm_get_def
  by (force simp: map_of_eq_None_iff image_iff)

lemma segments_iff:
  "(sid, path) \<in> set (segments D) \<longleftrightarrow> dm_get D path \<noteq> None \<and> parse_segment_file_name path = Some sid"
  by (simp add: segments_def segment_entries_iff)

lemma segments_cong: "map fst D = map fst D' \<Longrightarrow> segments D = segments D'"
  by (simp add: segments_def segment_entries_names)

lemma list_segments_good [simp]: "list_segments no_faults D = Inr (segments D)"
  by (simp add: list_segments_def no_faults_def segments_def)

lemma read_file_good: "dm_get D path \<noteq> None \<Longrightarrow> read_file no_faults D path = Inr (file_data D path)"
  by (auto simp: read_file_def no_faults_def file_data_def)

lemma distinct_segment_ids:
  assumes "canonical_names D"
  shows "distinct (map fst (segments D))"
proof -
  have "distinct (map fst (segment_entries D))"
  proof -
    have "inj_on fst (set (segment_entries D))"
      using assms unfolding inj_on_def canonical_names_def
      by (clarsimp simp: segment_entries_iff) metis
    moreover have "distinct (segment_entries D)"
      using assms unfolding segment_entries_names canonical_names_def dm_ok_def List.map_filter_def
      by (auto simp: distinct_map inj_on_def)
    ultimately show ?thesis by (simp add: distinct_map)
  qed
  then show ?thesis by (simp add: segments_def distinct_map)
qed

lemma sorted_segments: "sorted (map fst (segments D))"
  by (simp add: segments_def)

lemma sorted_last_max:
  assumes "sorted (map fst xs)" "distinct (map fst xs)" "(k, v) \<in> set xs"
    and "\<And>k' v'. (k', v') \<in> set xs \<Longrightarrow> k' \<le> (k :: nat)"
  shows "\<exists>ys. xs = ys @ [(k, v)] \<and> (\<forall>(k', v') \<in> set ys. k' < k)"
proof -
  from assms(3) obtain ys zs where xs: "xs = ys @ (k, v) # zs" by (meson split_list)
  have "zs = []"
  proof (cases zs)
    case (Cons z zs')
    then have "k \<le> fst z" "fst z \<le> k" "k \<noteq> fst z"
      using assms(1,2) assms(4) [of "fst z" "snd z"] xs by (auto simp: sorted_append)
    then show ?thesis by simp
  qed
  moreover have "\<forall>(k', v') \<in> set ys. k' < k"
    using assms(2,4) xs by (force simp: order_less_le)
  ultimately show ?thesis using xs by blast
qed

lemma sort_key_snoc_max:
  "(\<And>x. x \<in> set xs \<Longrightarrow> f x \<le> f m) \<Longrightarrow> sort_key f (xs @ [m]) = sort_key f xs @ [m]"
proof (induction xs)
  case (Cons x xs)
  have ins: "insort_key f x (ys @ [m]) = insort_key f x ys @ [m]" for ys
    using Cons.prems [of x] by (induction ys) auto
  with Cons show ?case by simp
qed simp

section \<open>Replay\<close>

lemma replay_collect_parse:
  assumes "\<not> rpl_finished r" "scan_loop X (rpl_buf r) (rpl_offset r) = (rs, None)"
    and "rpl_offset r \<le> length (rpl_buf r)"
  shows "replay_collect X F D r =
    map_sum id ((@) (map (to_wal_record (rpl_current_segment r)) rs))
      (replay_collect X F D (r\<lparr>rpl_offset := length (rpl_buf r)\<rparr>))"
  using assms
proof (induction rs arbitrary: r)
  case Nil
  then have "rpl_offset r = length (rpl_buf r)"
    by (subst (asm) scan_loop.simps) (auto split: if_splits sum.splits prod.splits)
  then have "r\<lparr>rpl_offset := length (rpl_buf r)\<rparr> = r" by simp
  then show ?case by (simp add: map_sum.identity sum.map_id0 flip: id_def)
next
  case (Cons x rs)
  obtain p where p: "rpl_offset r < length (rpl_buf r)" "parse_one X (rpl_buf r) (rpl_offset r) = Inr p"
    "x = (rpl_offset r, pr_record_type p, pr_payload p)"
    "scan_loop X (rpl_buf r) (pr_next_offset p) = (rs, None)"
    using Cons.prems(2) by (subst (asm) scan_loop.simps) (auto split: if_splits sum.splits prod.splits)
  let ?r = "r\<lparr>rpl_offset := pr_next_offset p\<rparr>"
  have nxt: "replay_next X F D r = (Some (Inr (to_wal_record (rpl_current_segment r) x)), ?r)"
    using p Cons.prems(1) by (simp add: replay_next_def replay_loop_parse to_wal_record_def)
  have "replay_collect X F D ?r = map_sum id ((@) (map (to_wal_record (rpl_current_segment ?r)) rs))
      (replay_collect X F D (?r\<lparr>rpl_offset := length (rpl_buf ?r)\<rparr>))"
    using Cons.prems p parse_one_progress [OF p(2)] by (intro Cons.IH) auto
  then show ?case
    by (subst replay_collect.simps)
      (cases "replay_collect X F D (r\<lparr>rpl_offset := length (rpl_buf r)\<rparr>)"; simp add: nxt)
qed

lemma replay_collect_rest:
  assumes "\<forall>(sid, path) \<in> set (rpl_segments r). dm_get D path \<noteq> None \<and> snd (scan_segment X (file_data D path)) = None"
    and "\<not> rpl_finished r" "rpl_offset r = length (rpl_buf r)"
  shows "replay_collect X no_faults D r =
    Inr (segs_log X D (drop (rpl_next_segment r) (rpl_segments r)))"
  using assms
proof (induction "length (rpl_segments r) - rpl_next_segment r" arbitrary: r)
  case 0
  then show ?case by (subst replay_collect.simps) (simp add: replay_next_def replay_loop_end segs_log_simps)
next
  case (Suc n)
  obtain sid path where sp: "rpl_segments r ! rpl_next_segment r = (sid, path)" by fastforce
  from Suc.hyps(2) have lt: "rpl_next_segment r < length (rpl_segments r)" by simp
  then have mem: "(sid, path) \<in> set (rpl_segments r)" using sp by (metis nth_mem)
  let ?r = "r\<lparr>rpl_next_segment := Suc (rpl_next_segment r), rpl_current_segment := sid,
      rpl_buf := file_data D path, rpl_offset := 0\<rparr>"
  obtain rs where rs: "scan_loop X (file_data D path) 0 = (rs, None)"
    using Suc.prems(1) mem by (cases "scan_loop X (file_data D path) 0") (auto simp: scan_segment_def)
  have "replay_collect X no_faults D r = replay_collect X no_faults D ?r"
    using Suc.prems mem lt sp
    by (subst (1 2) replay_collect.simps) (force simp: replay_next_def replay_loop_open read_file_good)
  also have "\<dots> = map_sum id ((@) (map (to_wal_record sid) rs))
      (replay_collect X no_faults D (?r\<lparr>rpl_offset := length (rpl_buf ?r)\<rparr>))"
    using replay_collect_parse [of ?r X rs] rs Suc.prems by simp
  also have "replay_collect X no_faults D (?r\<lparr>rpl_offset := length (rpl_buf ?r)\<rparr>) =
      Inr (segs_log X D (drop (Suc (rpl_next_segment r)) (rpl_segments r)))"
    using Suc.hyps Suc.prems by (subst Suc.hyps(1)) auto
  finally show ?case
    using lt sp rs by (simp add: segs_log_simps segment_log_def scan_segment_def flip: Cons_nth_drop_Suc)
qed

lemma replay_all_after:
  assumes "recover X no_faults D = (Inr rep, D')"
    and "map (\<lambda>info. (si_id info, si_path info)) (rep_segments rep) = segments D'"
    and "\<forall>(sid, path) \<in> set (segments D'). snd (scan_segment X (file_data D' path)) = None"
  shows "replay_all X no_faults D = (Inr (dir_log X D'), D')"
proof -
  have "\<forall>(sid, path) \<in> set (segments D'). dm_get D' path \<noteq> None \<and> snd (scan_segment X (file_data D' path)) = None"
    using assms(3) by (force simp: segments_iff)
  then show ?thesis
    using assms(1,2) replay_collect_rest [of "\<lparr>rpl_segments = segments D', rpl_report = rep, rpl_next_segment = 0,
      rpl_current_segment = 0, rpl_buf = [], rpl_offset = 0, rpl_finished = False\<rparr>" D' X]
    by (simp add: replay_all_def replay_open_def dir_log_def)
qed

section \<open>Recovery\<close>

definition note_clean :: "ext \<Rightarrow> wal_dir \<Rightarrow> nat \<times> string \<Rightarrow> recovery_report \<Rightarrow> recovery_report" where
  "note_clean X D s report =
     (let data = file_data D (snd s); rs = fst (scan_segment X data)
      in note_segment (fst s) (snd s) (if rs = [] then None else Some (fst (last rs))) (length data) report)"

definition clean_info :: "wal_dir \<Rightarrow> nat \<times> string \<Rightarrow> segment_info" where
  "clean_info D s = \<lparr>si_id = fst s, si_path = snd s, si_valid_len = length (file_data D (snd s))\<rparr>"

lemma recover_loop_append:
  assumes "\<forall>(sid, path) \<in> set segs. dm_get D path \<noteq> None \<and> snd (scan_segment X (file_data D path)) = None"
  shows "recover_loop X no_faults l i (segs @ rest) report D =
    recover_loop X no_faults l (i + length segs) rest (fold (note_clean X D) segs report) D"
  using assms
proof (induction segs arbitrary: i report)
  case (Cons s segs)
  obtain sid path where s: "s = (sid, path)" by (cases s)
  obtain rs where rs: "scan_segment X (file_data D path) = (rs, None)"
    using Cons.prems s by (cases "scan_segment X (file_data D path)") auto
  have rd: "read_file no_faults D path = Inr (file_data D path)"
    using Cons.prems s by (intro read_file_good) auto
  have "recover_loop X no_faults l i ((s # segs) @ rest) report D =
      recover_loop X no_faults l (Suc i) (segs @ rest) (note_clean X D s report) D"
    by (simp add: s rd rs note_clean_def)
  with Cons show ?case by simp
qed simp

lemma fold_note_clean:
  "rep_segments (fold (note_clean X D) segs report) = rep_segments report @ map (clean_info D) segs"
  "rep_truncated (fold (note_clean X D) segs report) = rep_truncated report"
  by (induction segs arbitrary: report) (simp_all add: note_clean_def note_segment_def clean_info_def Let_def)

lemma recover_clean:
  assumes "\<forall>(sid, path) \<in> set (segments D). snd (scan_segment X (file_data D path)) = None"
  shows "\<exists>rep. recover X no_faults D = (Inr rep, D) \<and> rep_segments rep = map (clean_info D) (segments D) \<and>
    rep_truncated rep = None"
proof -
  have "\<forall>(sid, path) \<in> set (segments D). dm_get D path \<noteq> None \<and> snd (scan_segment X (file_data D path)) = None"
    using assms by (force simp: segments_iff)
  from recover_loop_append [OF this, where rest = "[]"] show ?thesis
    by (simp add: recover_def Let_def fold_note_clean)
qed

lemma recover_torn:
  assumes segs: "segments D = ss @ [(sid, path)]" "path \<notin> snd ` set ss"
    and clean: "\<forall>(sid, path) \<in> set ss. snd (scan_segment X (file_data D path)) = None"
    and torn: "scan_segment X (file_data D path) = (rs, Some (Truncated v))"
  shows "\<exists>rep. recover X no_faults D = (Inr rep, update_file path (set_len v) D) \<and>
    rep_segments rep = map (clean_info D) ss @ [\<lparr>si_id = sid, si_path = path, si_valid_len = v\<rparr>] \<and>
    rep_truncated rep =
      Some \<lparr>tt_segment_id = sid, tt_original_len = length (file_data D path), tt_valid_len = v\<rparr>"
proof -
  have mem: "dm_get D n \<noteq> None" if "(i, n) \<in> set (ss @ [(sid, path)])" for i n
    using that segments_iff [of i n D] unfolding segs(1) by blast
  have "\<forall>(sid, path) \<in> set ss. dm_get D path \<noteq> None \<and> snd (scan_segment X (file_data D path)) = None"
    using mem clean by fastforce
  moreover have "read_file no_faults D path = Inr (file_data D path)"
    using mem by (intro read_file_good) auto
  moreover have "iof_set_len no_faults path = None" by (simp add: no_faults_def)
  ultimately show ?thesis
    using segs(1) torn by (simp add: recover_def recover_loop_append note_segment_def fold_note_clean Let_def)
qed

section \<open>The writer's invariant\<close>

definition wal_inv :: "ext \<Rightarrow> writer_state \<Rightarrow> wal_dir \<Rightarrow> bool" where
  "wal_inv X st D \<longleftrightarrow> canonical_names D \<and>
     (\<forall>sid path. (sid, path) \<in> set (segments D) \<longrightarrow> whole X (file_data D path) \<and> sid \<le> ws_segment_id st) \<and>
     ws_segment_id st < 2 ^ 64 \<and> ws_file st = segment_path (ws_segment_id st) \<and>
     ws_active_segment st = ws_segment_id st \<and>
     dm_get D (ws_file st) \<noteq> None \<and> length (file_data D (ws_file st)) = ws_segment_len st"

lemma map_fst_update_file [simp]: "map fst (update_file path g D) = map fst D"
  by (auto simp: update_file_def dm_insert_def update_keys dm_get_def map_of_eq_None_iff
      split: option.splits)

lemma segments_update_file [simp]: "segments (update_file path g D) = segments D"
  by (rule segments_cong) simp

lemma file_data_update_file:
  "dm_get D path = Some f \<Longrightarrow> file_data (update_file path g D) n = (if n = path then fdata (g f) else file_data D n)"
  by (simp add: file_data_def update_file_def dm_simps)

lemma dm_get_update_file:
  "dm_get (update_file path g D) n = (if n = path then map_option g (dm_get D n) else dm_get D n)"
  by (simp add: update_file_def dm_simps split: option.splits)

lemma canonical_update_file [simp]: "canonical_names (update_file path g D) \<longleftrightarrow> canonical_names D"
  unfolding canonical_names_def dm_ok_def
  by (auto simp: dm_get_update_file split: if_splits)

lemma segments_split:
  assumes "canonical_names D" "dm_get D (segment_path sid) \<noteq> None" "sid < 2 ^ 64"
    and "\<And>i n. (i, n) \<in> set (segments D) \<Longrightarrow> i \<le> sid"
  obtains ss where "segments D = ss @ [(sid, segment_path sid)]"
    "\<And>i n. (i, n) \<in> set ss \<Longrightarrow> i < sid \<and> n \<noteq> segment_path sid"
proof -
  have "(sid, segment_path sid) \<in> set (segments D)" using assms by (simp add: segments_iff)
  then obtain ss where ss: "segments D = ss @ [(sid, segment_path sid)]" "\<forall>(i, n) \<in> set ss. i < sid"
    using sorted_last_max [OF sorted_segments distinct_segment_ids [OF assms(1)]] assms(4) by blast
  have "i < sid \<and> n \<noteq> segment_path sid" if "(i, n) \<in> set ss" for i n
  proof -
    from that have "parse_segment_file_name n = Some i"
      using ss(1) segments_iff [of i n D] by simp
    with that ss(2) assms(3) show ?thesis by auto
  qed
  with ss(1) that show ?thesis by blast
qed

lemma scan_frames_whole:
  "\<forall>r \<in> set rs. payload_fits r \<Longrightarrow> scan_segment X (wal.frames X rs) = (wal.placed X 0 rs, None)"
  by (simp add: scan_segment_def wal.scan_frames)

lemma whole_clean: "whole X data \<Longrightarrow> snd (scan_segment X data) = None"
  by (auto simp: whole_def scan_frames_whole)

lemma whole_empty: "whole X []"
  unfolding whole_def by (rule exI [of _ "[]"]) simp

lemma whole_snoc:
  assumes "whole X data" "length p < 2 ^ 32"
  shows "whole X (data @ encode_record X t p [])"
    and "segment_log X sid (data @ encode_record X t p []) = segment_log X sid data @
      [\<lparr>wr_segment_id = sid, wr_offset = length data, wr_record_type = t, wr_payload = p\<rparr>]"
proof -
  from assms(1) obtain rs where rs: "\<forall>r \<in> set rs. payload_fits r" "data = wal.frames X rs"
    by (auto simp: whole_def)
  have fit: "\<forall>r \<in> set (rs @ [(t, p)]). payload_fits r" using rs assms(2) by (simp add: payload_fits_def)
  have eq: "data @ encode_record X t p [] = wal.frames X (rs @ [(t, p)])" by (simp add: rs)
  show "whole X (data @ encode_record X t p [])"
    unfolding whole_def eq using fit by blast
  show "segment_log X sid (data @ encode_record X t p []) = segment_log X sid data @
      [\<lparr>wr_segment_id = sid, wr_offset = length data, wr_record_type = t, wr_payload = p\<rparr>]"
    unfolding segment_log_def eq scan_frames_whole [OF fit]
    by (simp add: rs scan_frames_whole wal.placed_append to_wal_record_def)
qed

text \<open>The active segment is the last one; an update of its file changes the end of the log only.\<close>

definition sealed_log :: "ext \<Rightarrow> writer_state \<Rightarrow> wal_dir \<Rightarrow> wal_record list" where
  "sealed_log X st D = segs_log X D (butlast (segments D))"

lemma wal_inv_segments:
  assumes "wal_inv X st D"
  obtains ss where "segments D = ss @ [(ws_segment_id st, ws_file st)]"
    "\<And>i n. (i, n) \<in> set ss \<Longrightarrow> i < ws_segment_id st \<and> n \<noteq> ws_file st"
  using assms segments_split [of D "ws_segment_id st"] unfolding wal_inv_def by metis

lemma dir_log_split:
  "wal_inv X st D \<Longrightarrow>
     dir_log X D = sealed_log X st D @ segment_log X (ws_segment_id st) (file_data D (ws_file st))"
  by (erule wal_inv_segments) (simp add: dir_log_def sealed_log_def segs_log_simps)

lemma sealed_log_update:
  assumes "wal_inv X st D"
  shows "sealed_log X st' (update_file (ws_file st) g D) = sealed_log X st D"
proof -
  obtain ss where ss: "segments D = ss @ [(ws_segment_id st, ws_file st)]"
    "\<And>i n. (i, n) \<in> set ss \<Longrightarrow> i < ws_segment_id st \<and> n \<noteq> ws_file st"
    using wal_inv_segments [OF assms] by blast
  obtain f where "dm_get D (ws_file st) = Some f" using assms by (auto simp: wal_inv_def)
  then have "file_data (update_file (ws_file st) g D) n = file_data D n" if "(i, n) \<in> set ss" for i n
    using ss(2) [OF that] by (simp add: file_data_update_file)
  then show ?thesis by (auto simp: sealed_log_def ss(1) intro: segs_log_cong)
qed

lemma wal_inv_update:
  assumes inv: "wal_inv X st D" and f: "dm_get D (ws_file st) = Some f"
    and st': "ws_segment_id st' = ws_segment_id st" "ws_file st' = ws_file st"
      "ws_active_segment st' = ws_active_segment st" "ws_segment_len st' = length (fdata (g f))"
    and "whole X (fdata (g f))"
  shows "wal_inv X st' (update_file (ws_file st) g D)"
  using assms unfolding wal_inv_def
  by (auto simp: file_data_update_file dm_get_update_file)

lemma append_log:
  assumes inv: "wal_inv X st D" and "length p < 2 ^ 32"
    and D': "D' = update_file (ws_file st) (append_bytes (encode_record X t p [])) D"
    and st': "st' = st\<lparr>ws_segment_len := ws_segment_len st + length (encode_record X t p []), ws_dirty := True\<rparr>"
  shows "wal_inv X st' D'"
    and "dir_log X D' = dir_log X D @ [\<lparr>wr_segment_id = ws_segment_id st, wr_offset = ws_segment_len st,
      wr_record_type = t, wr_payload = p\<rparr>]"
proof -
  obtain f where f: "dm_get D (ws_file st) = Some f" using inv by (auto simp: wal_inv_def)
  have len: "length (fdata f) = ws_segment_len st" using inv f by (simp add: wal_inv_def file_data_def)
  have "(ws_segment_id st, ws_file st) \<in> set (segments D)"
    using inv by (auto simp: wal_inv_def segments_iff)
  then have w: "whole X (fdata f)" using inv f by (fastforce simp: wal_inv_def file_data_def)
  show inv': "wal_inv X st' D'"
    unfolding D' st' using inv f len [symmetric] whole_snoc(1) [OF w assms(2)]
    by (intro wal_inv_update) (simp_all add: append_bytes_def)
  have "file_data D (ws_file st) = fdata f" "file_data D' (ws_file st) = fdata f @ encode_record X t p []"
    using f by (simp_all add: file_data_def D' dm_get_update_file append_bytes_def)
  then show "dir_log X D' = dir_log X D @ [\<lparr>wr_segment_id = ws_segment_id st, wr_offset = ws_segment_len st,
      wr_record_type = t, wr_payload = p\<rparr>]"
    unfolding dir_log_split [OF inv] dir_log_split [OF inv']
    using whole_snoc(2) [OF w assms(2)] len by (simp add: D' sealed_log_update [OF inv] st')
qed

lemma wal_inv_cong:
  "wal_inv X st D \<Longrightarrow> ws_segment_id st' = ws_segment_id st \<Longrightarrow> ws_file st' = ws_file st \<Longrightarrow>
     ws_active_segment st' = ws_active_segment st \<Longrightarrow> ws_segment_len st' = ws_segment_len st \<Longrightarrow> wal_inv X st' D"
  unfolding wal_inv_def by auto

lemma sync_all_log:
  assumes "wal_inv X st D"
  shows "wal_inv X st (update_file (ws_file st) sync_all D)"
    and "dir_log X (update_file (ws_file st) sync_all D) = dir_log X D"
proof -
  obtain f where f: "dm_get D (ws_file st) = Some f" using assms by (auto simp: wal_inv_def)
  have fd: "file_data (update_file (ws_file st) sync_all D) = file_data D"
    using f by (auto simp: file_data_def dm_get_update_file sync_all_def)
  show "wal_inv X st (update_file (ws_file st) sync_all D)"
    using assms unfolding wal_inv_def fd by (auto simp: dm_get_update_file)
  show "dir_log X (update_file (ws_file st) sync_all D) = dir_log X D"
    by (auto simp: dir_log_def fd intro: segs_log_cong)
qed

text \<open>A fresh segment: the old ones stay, the new one is empty and last.\<close>

definition dir_ok :: "ext \<Rightarrow> wal_dir \<Rightarrow> bool" where
  "dir_ok X D \<longleftrightarrow> canonical_names D \<and> (\<forall>sid path. (sid, path) \<in> set (segments D) \<longrightarrow> whole X (file_data D path))"

lemma wal_inv_dir_ok: "wal_inv X st D \<Longrightarrow> dir_ok X D"
  by (auto simp: wal_inv_def dir_ok_def)

lemma add_segment:
  assumes ok: "dir_ok X D" and le: "\<forall>i n. (i, n) \<in> set (segments D) \<longrightarrow> i < sid" and sid: "sid < 2 ^ 64"
    and D': "D' = dm_insert (segment_path sid) \<lparr>fdata = [], fsynced = 0\<rparr> D"
  shows "dm_get D (segment_path sid) = None" and "segments D' = segments D @ [(sid, segment_path sid)]"
    and "dir_log X D' = dir_log X D" and "dir_ok X D'" and "file_data D' (segment_path sid) = []"
proof -
  let ?n = "segment_path sid"
  show fresh: "dm_get D ?n = None"
    using le [rule_format, of sid ?n] sid by (cases "dm_get D ?n") (auto simp: segments_iff)
  have keys: "map fst D' = map fst D @ [?n]"
    using fresh by (auto simp: D' dm_insert_def update_keys dm_get_def map_of_eq_None_iff)
  have "segment_entries D' = segment_entries D @ [(sid, ?n)]"
    using sid by (simp add: segment_entries_names keys List.map_filter_def)
  then show segs: "segments D' = segments D @ [(sid, ?n)]"
    unfolding segments_def using le
    by (simp only:) (rule sort_key_snoc_max, force simp: segments_def)
  have fd: "file_data D' n = (if n = ?n then [] else file_data D n)" for n
    by (simp add: file_data_def D' dm_simps)
  then show "file_data D' ?n = []" by simp
  have other: "n \<noteq> ?n" if "(i, n) \<in> set (segments D)" for i n
    using that fresh by (auto simp: segments_iff)
  have "segment_log X i [] = []" for i
    by (simp add: segment_log_def scan_segment_def scan_loop.simps)
  moreover have "segs_log X D' (segments D) = segs_log X D (segments D)"
    using other fd by (intro segs_log_cong) auto
  ultimately show "dir_log X D' = dir_log X D"
    by (simp add: dir_log_def segs fd segs_log_simps)
  have "canonical_names D'"
    using ok sid by (auto simp: dir_ok_def canonical_names_def D' dm_simps split: if_splits)
  then show "dir_ok X D'"
    using ok other by (auto simp: dir_ok_def segs fd whole_empty)
qed

lemma new_segment:
  assumes inv: "wal_inv X st D" and sid: "Suc (ws_segment_id st) < 2 ^ 64"
    and D': "D' = dm_insert (segment_path (Suc (ws_segment_id st))) \<lparr>fdata = [], fsynced = 0\<rparr> D"
  shows "dm_get D (segment_path (Suc (ws_segment_id st))) = None"
    and "segments D' = segments D @ [(Suc (ws_segment_id st), segment_path (Suc (ws_segment_id st)))]"
    and "dir_log X D' = dir_log X D"
    and "wal_inv X (st\<lparr>ws_segment_id := Suc (ws_segment_id st), ws_file := segment_path (Suc (ws_segment_id st)),
      ws_segment_len := 0, ws_active_segment := Suc (ws_segment_id st)\<rparr>) D'"
proof -
  have le: "i \<le> ws_segment_id st" if "(i, n) \<in> set (segments D)" for i n
    using inv that by (auto simp: wal_inv_def)
  then have lt: "\<forall>i n. (i, n) \<in> set (segments D) \<longrightarrow> i < Suc (ws_segment_id st)"
    by (simp add: less_Suc_eq_le)
  note add = add_segment [OF wal_inv_dir_ok [OF inv] lt sid D']
  from add(1-3) show "dm_get D (segment_path (Suc (ws_segment_id st))) = None"
    and "segments D' = segments D @ [(Suc (ws_segment_id st), segment_path (Suc (ws_segment_id st)))]"
    and "dir_log X D' = dir_log X D" by blast+
  show "wal_inv X (st\<lparr>ws_segment_id := Suc (ws_segment_id st), ws_file := segment_path (Suc (ws_segment_id st)),
      ws_segment_len := 0, ws_active_segment := Suc (ws_segment_id st)\<rparr>) D'"
    using add(2,4,5) sid le by (auto simp: wal_inv_def dir_ok_def le_Suc_eq) (simp add: D' dm_simps)
qed

end
