(* ===== verification/Wal_Durability.thy ===== *)
theory Wal_Durability
  imports Wal_Log
begin

text \<open>
  Group commit and crashes.  A batch of appends extends the log by its records in order and
  acknowledges their positions; the records an acknowledgement promised to be durable are in
  the log that start-up reads after any machine crash.
\<close>

section \<open>Appending\<close>

definition record_position :: "wal_record \<Rightarrow> wal_position" where
  "record_position r = \<lparr>segment_id = wr_segment_id r, offset = wr_offset r\<rparr>"

definition record_content :: "wal_record \<Rightarrow> record_type \<times> bytes" where
  "record_content r = (wr_record_type r, wr_payload r)"

text \<open>
  Which bytes are on stable storage: with any strategy but \<open>No\<close>, all of a sealed segment and,
  when nothing was written since the last sync, all of the active one.
\<close>

definition sync_inv :: "writer_state \<Rightarrow> wal_dir \<Rightarrow> bool" where
  "sync_inv st D \<longleftrightarrow> ws_fsync_strategy st \<noteq> No \<longrightarrow>
     (\<forall>n f sid. dm_get D n = Some f \<longrightarrow> parse_segment_file_name n = Some sid \<longrightarrow>
        n \<noteq> ws_file st \<or> \<not> ws_dirty st \<longrightarrow> fsynced f = length (fdata f))"

text \<open>The first \<open>k\<close> records of the log lie in synced bytes.\<close>

definition covered :: "ext \<Rightarrow> writer_state \<Rightarrow> wal_dir \<Rightarrow> nat \<Rightarrow> bool" where
  "covered X st D m \<longleftrightarrow> (\<exists>f rs. dm_get D (ws_file st) = Some f \<and> (\<forall>r \<in> set rs. payload_fits r) \<and>
     fdata f = wal.frames X rs \<and> m \<le> length rs \<and> length (wal.frames X (take m rs)) \<le> fsynced f)"

definition durable :: "ext \<Rightarrow> writer_state \<Rightarrow> wal_dir \<Rightarrow> nat \<Rightarrow> bool" where
  "durable X st D k \<longleftrightarrow> k \<le> length (sealed_log X st D) \<or>
     (\<exists>m. covered X st D m \<and> k \<le> length (sealed_log X st D) + m)"

text \<open>Where the next record goes, and where a record is: pairs in lexicographic order.\<close>

definition wal_end :: "writer_state \<Rightarrow> nat \<times> nat" where
  "wal_end st = (ws_segment_id st, ws_segment_len st)"

definition record_at :: "wal_record \<Rightarrow> nat \<times> nat" where
  "record_at r = (wr_segment_id r, wr_offset r)"

definition grown :: "ext \<Rightarrow> writer_state \<Rightarrow> wal_dir \<Rightarrow> writer_state \<Rightarrow> wal_dir \<Rightarrow> wal_record list \<Rightarrow> bool" where
  "grown X st D st' D' recs \<longleftrightarrow> wal_inv X st' D' \<and> dir_log X D' = dir_log X D @ recs \<and>
     ws_fsync_strategy st' = ws_fsync_strategy st \<and> ws_max_segment_size st' = ws_max_segment_size st \<and>
     (sync_inv st D \<longrightarrow> sync_inv st' D') \<and> (\<forall>k. durable X st D k \<longrightarrow> durable X st' D' k) \<and>
     ws_segment_id st' \<le> ws_segment_id st + length recs \<and> wal_end st \<le> wal_end st' \<and>
     (\<forall>r \<in> set recs. wal_end st \<le> record_at r \<and> record_at r < wal_end st')"

lemma grown_refl: "wal_inv X st D \<Longrightarrow> grown X st D st D []"
  by (simp add: grown_def)

lemma grown_trans:
  "grown X st D st1 D1 rs \<Longrightarrow> grown X st1 D1 st2 D2 ss \<Longrightarrow> grown X st D st2 D2 (rs @ ss)"
  unfolding grown_def by (auto intro: order_trans order_less_le_trans)

lemma active_file:
  assumes "wal_inv X st D"
  obtains f rs where "dm_get D (ws_file st) = Some f" "\<forall>r \<in> set rs. payload_fits r"
    "fdata f = wal.frames X rs" "ws_segment_len st = length (fdata f)"
proof -
  obtain f where f: "dm_get D (ws_file st) = Some f" using assms by (auto simp: wal_inv_def)
  have "(ws_segment_id st, ws_file st) \<in> set (segments D)" using assms by (auto simp: wal_inv_def segments_iff)
  then have "whole X (fdata f)" using assms f by (fastforce simp: wal_inv_def file_data_def)
  then obtain rs where "\<forall>r \<in> set rs. payload_fits r" "fdata f = wal.frames X rs" by (auto simp: whole_def)
  moreover have "ws_segment_len st = length (fdata f)"
    using assms f by (simp add: wal_inv_def file_data_def)
  ultimately show ?thesis using that f by blast
qed

lemma length_placed: "length (wal.placed X off rs) = length rs"
  by (metis length_map wal.map_snd_placed)

lemma length_dir_log:
  assumes "wal_inv X st D" "dm_get D (ws_file st) = Some f" "\<forall>r \<in> set rs. payload_fits r"
    "fdata f = wal.frames X rs"
  shows "length (dir_log X D) = length (sealed_log X st D) + length rs"
  using assms by (simp add: dir_log_split file_data_def segment_log_def scan_frames_whole length_placed)

lemma durable_le:
  assumes "wal_inv X st D" "durable X st D k"
  shows "k \<le> length (dir_log X D)"
  using assms(2) unfolding durable_def
proof
  assume "k \<le> length (sealed_log X st D)"
  then show ?thesis by (simp add: dir_log_split [OF assms(1)])
next
  assume "\<exists>m. covered X st D m \<and> k \<le> length (sealed_log X st D) + m"
  then obtain m f rs where "dm_get D (ws_file st) = Some f" "\<forall>r \<in> set rs. payload_fits r"
    "fdata f = wal.frames X rs" "m \<le> length rs" "k \<le> length (sealed_log X st D) + m"
    unfolding covered_def by blast
  with length_dir_log [OF assms(1)] show ?thesis by fastforce
qed

lemma durable_mono: "durable X st D k \<Longrightarrow> j \<le> k \<Longrightarrow> durable X st D j"
  unfolding durable_def by (meson le_trans)

lemma write_grown:
  assumes inv: "wal_inv X st D" and fit: "length p < 2 ^ 32"
    and D': "D' = update_file (ws_file st) (append_bytes (encode_record X t p [])) D"
    and st': "st' = st\<lparr>ws_segment_len := ws_segment_len st + length (encode_record X t p []), ws_dirty := True\<rparr>"
  shows "grown X st D st' D' [\<lparr>wr_segment_id = ws_segment_id st, wr_offset = ws_segment_len st,
    wr_record_type = t, wr_payload = p\<rparr>]"
proof -
  have sync: "sync_inv st' D'" if "sync_inv st D"
    using that by (auto simp: sync_inv_def D' st' dm_get_update_file)
  have seal: "sealed_log X st' D' = sealed_log X st D" unfolding D' by (rule sealed_log_update [OF inv])
  have "covered X st' D' m" if m: "covered X st D m" for m
  proof -
    from m obtain f rs where f: "dm_get D (ws_file st) = Some f" "\<forall>r \<in> set rs. payload_fits r"
      "fdata f = wal.frames X rs" "m \<le> length rs" "length (wal.frames X (take m rs)) \<le> fsynced f"
      by (auto simp: covered_def)
    have "\<forall>r \<in> set (rs @ [(t, p)]). payload_fits r" using f fit by (simp add: payload_fits_def)
    moreover have "dm_get D' (ws_file st') = Some (append_bytes (encode_record X t p []) f)"
      "fdata (append_bytes (encode_record X t p []) f) = wal.frames X (rs @ [(t, p)])"
      "length (wal.frames X (take m (rs @ [(t, p)]))) \<le> fsynced (append_bytes (encode_record X t p []) f)"
      "m \<le> length (rs @ [(t, p)])"
      using f by (simp_all add: D' st' dm_get_update_file append_bytes_def)
    ultimately show ?thesis unfolding covered_def by blast
  qed
  then have dur: "durable X st' D' k" if "durable X st D k" for k
    using that unfolding durable_def seal by blast
  show ?thesis
    using append_log [OF inv fit D' st'] sync dur
    by (simp add: grown_def st' wal_end_def record_at_def length_frame HEADER_LEN_def)
qed

lemma sync_grown:
  assumes inv: "wal_inv X st D"
    and D': "D' = update_file (ws_file st) sync_all D" and st': "st' = st\<lparr>ws_dirty := False\<rparr>"
  shows "grown X st D st' D' []" and "durable X st' D' (length (dir_log X D'))"
proof -
  obtain f rs where f: "dm_get D (ws_file st) = Some f" "\<forall>r \<in> set rs. payload_fits r"
    "fdata f = wal.frames X rs" "ws_segment_len st = length (fdata f)"
    by (rule active_file [OF inv])
  have inv': "wal_inv X st' D'"
    using sync_all_log(1) [OF inv] unfolding D' st' by (rule wal_inv_cong) simp_all
  have f': "dm_get D' (ws_file st') = Some (sync_all f)" by (simp add: D' st' dm_get_update_file f)
  have log: "dir_log X D' = dir_log X D" unfolding D' by (rule sync_all_log(2) [OF inv])
  have "length (dir_log X D') = length (sealed_log X st' D') + length rs"
    using f by (intro length_dir_log [OF inv' f']) (simp_all add: sync_all_def)
  moreover have "length (wal.frames X (take (length rs) rs)) \<le> fsynced (sync_all f)"
    "fdata (sync_all f) = wal.frames X rs" by (simp_all add: sync_all_def f(3))
  then have "covered X st' D' (length rs)"
    unfolding covered_def using f' f(2) by blast
  ultimately have all: "durable X st' D' (length (dir_log X D'))"
    unfolding durable_def by (metis le_refl)
  have le: "durable X st' D' k" if "durable X st D k" for k
    using durable_le [OF inv that] all durable_mono log by metis
  have "sync_inv st' D'" if "sync_inv st D"
    using that by (auto simp: sync_inv_def D' st' dm_get_update_file sync_all_def split: if_splits)
  with inv' log le show "grown X st D st' D' []" by (simp add: grown_def st' wal_end_def)
  from all show "durable X st' D' (length (dir_log X D'))" .
qed

text \<open>Rolling keeps the log; the sealed segment is synced unless the strategy is \<open>No\<close>.\<close>

lemma roll_grown:
  assumes inv: "wal_inv X st D" and sid: "Suc (ws_segment_id st) < 2 ^ 64"
  obtains st' D' where "roll_segment io_good st D = (Inr (), st', D')" "wal_inv X st' D'"
    "dir_log X D' = dir_log X D" "ws_fsync_strategy st' = ws_fsync_strategy st"
    "ws_max_segment_size st' = ws_max_segment_size st" "sync_inv st D \<longrightarrow> sync_inv st' D'"
    "\<forall>k. durable X st D k \<longrightarrow> durable X st' D' k" "ws_segment_id st' = Suc (ws_segment_id st)"
    "ws_segment_len st' = 0"
proof -
  define D1 where "D1 = (if ws_dirty st \<and> ws_fsync_strategy st \<noteq> No then update_file (ws_file st) sync_all D else D)"
  define st1 where "st1 = st\<lparr>ws_dirty := False\<rparr>"
  let ?n = "segment_path (Suc (ws_segment_id st))"
  define D' where "D' = dm_insert ?n \<lparr>fdata = [], fsynced = 0\<rparr> D1"
  define st' where "st' = st1\<lparr>ws_segment_id := Suc (ws_segment_id st), ws_file := ?n, ws_segment_len := 0,
    ws_active_segment := Suc (ws_segment_id st)\<rparr>"
  have inv1: "wal_inv X st1 D1"
  proof -
    have "wal_inv X st D1" using inv sync_all_log(1) [OF inv] by (simp add: D1_def)
    then show ?thesis unfolding st1_def by (rule wal_inv_cong) simp_all
  qed
  have log1: "dir_log X D1 = dir_log X D" using sync_all_log(2) [OF inv] by (simp add: D1_def)
  have new: "dm_get D1 ?n = None" "segments D' = segments D1 @ [(Suc (ws_segment_id st), ?n)]"
    "dir_log X D' = dir_log X D1" "wal_inv X st' D'"
    using new_segment [OF inv1, of D'] sid by (simp_all add: D'_def st'_def st1_def)
  have flush: "(if ws_dirty st then flush_file io_good (ws_file st) (ws_fsync_strategy st \<noteq> No) D else (Inr (), D)) = (Inr (), D1)"
    by (simp add: flush_file_def io_good_def D1_def)
  have roll: "roll_segment io_good st D = (Inr (), st', D')"
    unfolding roll_segment_def flush
    using new(1) sid by (simp add: io_good_def Let_def u64_add_def D'_def st'_def st1_def)
  have "segs_log X D' (segments D1) = segs_log X D1 (segments D1)"
    using new(1) by (intro segs_log_cong) (auto simp: file_data_def D'_def dm_simps segments_iff)
  then have seal: "sealed_log X st' D' = dir_log X D"
    using log1 by (simp add: sealed_log_def new(2) dir_log_def)
  have dur: "durable X st' D' k" if "durable X st D k" for k
    using durable_le [OF inv that] by (simp add: durable_def seal)
  have sync: "sync_inv st' D'" if s: "sync_inv st D"
  proof -
    have "fsynced f = length (fdata f)"
      if "ws_fsync_strategy st \<noteq> No" "dm_get D' n = Some f" "parse_segment_file_name n = Some i" for n f i
      using s that unfolding sync_inv_def D'_def D1_def
      by (auto simp: dm_simps dm_get_update_file sync_all_def split: if_splits)
    then show ?thesis by (simp add: sync_inv_def st'_def st1_def)
  qed
  show ?thesis
    by (rule that [OF roll new(4)]) (use new(3) log1 dur sync in \<open>simp_all add: st'_def st1_def\<close>)
qed

lemma io_good_write [simp]: "wio_write io_good = None"
  by (simp add: io_good_def)

lemma handle_append_good:
  assumes inv: "wal_inv X st D" and fit: "length p < 2 ^ 32" and sid: "Suc (ws_segment_id st) < 2 ^ 64"
  obtains st' D' r where "handle_append X io_good st D t p = (Inr (record_position r), st', D')"
    "grown X st D st' D' [r]" "record_content r = (t, p)" "ws_dirty st'"
    "ws_segment_len st' \<le> ws_max_segment_size st \<or> ws_segment_len st' = HEADER_LEN + length p"
proof (cases "0 < ws_segment_len st \<and> ws_max_segment_size st < ws_segment_len st + length (encode_record X t p [])")
  case True
  obtain st1 D1 where r: "roll_segment io_good st D = (Inr (), st1, D1)" "wal_inv X st1 D1"
    "dir_log X D1 = dir_log X D" "ws_fsync_strategy st1 = ws_fsync_strategy st"
    "ws_max_segment_size st1 = ws_max_segment_size st" "sync_inv st D \<longrightarrow> sync_inv st1 D1"
    "\<forall>k. durable X st D k \<longrightarrow> durable X st1 D1 k" "ws_segment_id st1 = Suc (ws_segment_id st)"
    "ws_segment_len st1 = 0" by (rule roll_grown [OF inv sid])
  note g = write_grown [OF r(2) fit refl refl, of t]
  let ?st = "st1\<lparr>ws_segment_len := ws_segment_len st1 + length (encode_record X t p []), ws_dirty := True\<rparr>"
  let ?D = "update_file (ws_file st1) (append_bytes (encode_record X t p [])) D1"
  let ?r = "\<lparr>wr_segment_id = ws_segment_id st1, wr_offset = ws_segment_len st1,
    wr_record_type = t, wr_payload = p\<rparr>"
  have g': "grown X st D ?st ?D [?r]" using g r by (auto simp: grown_def wal_end_def record_at_def)
  have h: "handle_append X io_good st D t p = (Inr (record_position ?r), ?st, ?D)"
    using True r(1) by (simp add: handle_append_def record_position_def Let_def)
  show ?thesis using r(9) by (intro that [OF h g']) (simp_all add: record_content_def length_frame)
next
  case False
  note g = write_grown [OF inv fit refl refl, of t]
  let ?st = "st\<lparr>ws_segment_len := ws_segment_len st + length (encode_record X t p []), ws_dirty := True\<rparr>"
  let ?D = "update_file (ws_file st) (append_bytes (encode_record X t p [])) D"
  let ?r = "\<lparr>wr_segment_id = ws_segment_id st, wr_offset = ws_segment_len st,
    wr_record_type = t, wr_payload = p\<rparr>"
  have h: "handle_append X io_good st D t p = (Inr (record_position ?r), ?st, ?D)"
    using False by (auto simp: handle_append_def record_position_def Let_def)
  have "ws_segment_len ?st \<le> ws_max_segment_size st \<or> ws_segment_len ?st = HEADER_LEN + length p"
    using False by (auto simp: length_frame)
  then show ?thesis by (intro that [OF h g]) (simp_all add: record_content_def)
qed

section \<open>Batches\<close>

fun batch_appends :: "(wal_message \<times> write_io) list \<Rightarrow> ((record_type \<times> bytes) \<times> nat) list" where
  "batch_appends [] = []"
| "batch_appends ((Append t p ack, io) # ms) = ((t, p), ack) # batch_appends ms"
| "batch_appends (_ # ms) = batch_appends ms"

definition batch_ok :: "(wal_message \<times> write_io) list \<Rightarrow> bool" where
  "batch_ok ms \<longleftrightarrow> (\<forall>m \<in> set ms. snd m = io_good) \<and> (\<forall>a \<in> set (batch_appends ms). payload_fits (fst a))"

fun batch_shutdown :: "nat option \<Rightarrow> (wal_message \<times> write_io) list \<Rightarrow> nat option" where
  "batch_shutdown s [] = s"
| "batch_shutdown s ((Shutdown w, io) # ms) = batch_shutdown (Some w) ms"
| "batch_shutdown s (_ # ms) = batch_shutdown s ms"

lemma handle_messages_good:
  assumes "wal_inv X st D" "batch_ok ms" "ws_segment_id st + length ms < 2 ^ 64"
  shows "\<exists>st' D' b' recs. handle_messages X ms st D b = ([], st', D', b') \<and> grown X st D st' D' recs \<and>
    map record_content recs = map fst (batch_appends ms) \<and>
    b_acks b' = b_acks b @ zip (map snd (batch_appends ms)) (map record_position recs) \<and>
    (ws_dirty st \<or> recs \<noteq> [] \<longrightarrow> ws_dirty st') \<and>
    b_shutdown b' = batch_shutdown (b_shutdown b) ms"
  using assms
proof (induction ms arbitrary: st D b)
  case Nil
  then show ?case by (auto simp: grown_refl intro!: exI [of _ "[]"])
next
  case (Cons mi ms)
  obtain m where mi: "mi = (m, io_good)" using Cons.prems(2) by (cases mi) (auto simp: batch_ok_def)
  have ok: "batch_ok ms"
    using Cons.prems(2) unfolding mi by (cases m) (auto simp: batch_ok_def)
  show ?case
  proof (cases m)
    case (Append t p ack)
    then have "length p < 2 ^ 32" using Cons.prems(2) by (auto simp: mi batch_ok_def payload_fits_def)
    then obtain st1 D1 r where h: "handle_append X io_good st D t p = (Inr (record_position r), st1, D1)"
      "grown X st D st1 D1 [r]" "record_content r = (t, p)" "ws_dirty st1"
      using handle_append_good [OF Cons.prems(1)] Cons.prems(3)
      by (metis add_Suc_right le_add1 length_Cons order_le_less_trans add_Suc)
    have "wal_inv X st1 D1" "ws_segment_id st1 + length ms < 2 ^ 64"
      using h(2) Cons.prems(3) by (auto simp: grown_def)
    from Cons.IH [OF this(1) ok this(2), of "b\<lparr>b_acks := b_acks b @ [(ack, record_position r)]\<rparr>"]
    obtain st' D' b' recs where "handle_messages X ms st1 D1
        (b\<lparr>b_acks := b_acks b @ [(ack, record_position r)]\<rparr>) = ([], st', D', b')"
      "grown X st1 D1 st' D' recs" "map record_content recs = map fst (batch_appends ms)"
      "b_acks b' = (b_acks b @ [(ack, record_position r)]) @ zip (map snd (batch_appends ms)) (map record_position recs)"
      "ws_dirty st'" "b_shutdown b' = batch_shutdown (b_shutdown b) ms" using h(4) by auto
    moreover from this(2) have "grown X st D st' D' (r # recs)" using grown_trans [OF h(2)] by fastforce
    ultimately show ?thesis
      using h(1,3) Append by (intro exI [of _ st'] exI [of _ D'] exI [of _ b'] exI [of _ "r # recs"])
        (simp add: mi)
  next
    case (Flush w)
    with Cons.IH [OF Cons.prems(1) ok, of "b\<lparr>b_flushers := b_flushers b @ [w]\<rparr>"] Cons.prems(3)
    show ?thesis by (simp add: mi)
  next
    case (Shutdown w)
    with Cons.IH [OF Cons.prems(1) ok, of "b\<lparr>b_shutdown := Some w\<rparr>"] Cons.prems(3)
    show ?thesis by (simp add: mi)
  qed
qed

lemma flush_good: "flush_file io_good path True D = (Inr (), update_file path sync_all D)"
  by (simp add: flush_file_def io_good_def)

lemma writer_batch_good:
  assumes inv: "wal_inv X st D" and ok: "batch_ok ms" "ws_segment_id st + length ms < 2 ^ 64"
  obtains st' D' recs dones task where
    "writer_batch X ms io_good st D =
       (map (\<lambda>(ack, position). AppendReply ack (Inr position))
          (zip (map snd (batch_appends ms)) (map record_position recs)) @ dones, task, D')"
    "grown X st D st' D' recs" "map record_content recs = map fst (batch_appends ms)"
    "task = (if batch_shutdown None ms \<noteq> None then WriterStopped (Inr ()) else WriterRunning st')"
    "ws_fsync_strategy st = Always \<longrightarrow> recs \<noteq> [] \<longrightarrow> durable X st' D' (length (dir_log X D'))"
    "\<forall>r \<in> set dones. \<exists>c. r = DoneReply c (Inr ())"
proof -
  obtain st1 D1 b recs where h: "handle_messages X ms st D empty_batch = ([], st1, D1, b)"
    "grown X st D st1 D1 recs" "map record_content recs = map fst (batch_appends ms)"
    "b_acks b = zip (map snd (batch_appends ms)) (map record_position recs)"
    "recs \<noteq> [] \<longrightarrow> ws_dirty st1" "b_shutdown b = batch_shutdown None ms"
    using handle_messages_good [OF assms, of empty_batch] by (auto simp: empty_batch_def)
  have inv1: "wal_inv X st1 D1" using h(2) by (simp add: grown_def)
  define dones where "dones = map (\<lambda>flusher. DoneReply flusher (Inr ())) (b_flushers b) @
    (case b_shutdown b of None \<Rightarrow> [] | Some s \<Rightarrow> [DoneReply s (Inr ())])"
  have dn: "\<forall>r \<in> set dones. \<exists>c. r = DoneReply c (Inr ())"
    by (auto simp: dones_def split: option.splits)
  show ?thesis
  proof (cases "must_sync st1 b")
    case True
    let ?st = "st1\<lparr>ws_dirty := False\<rparr>" and ?D = "update_file (ws_file st1) sync_all D1"
    have w: "writer_batch X ms io_good st D =
      (map (\<lambda>(ack, position). AppendReply ack (Inr position)) (b_acks b) @ dones,
       if b_shutdown b \<noteq> None then WriterStopped (Inr ()) else WriterRunning ?st, ?D)"
      using True by (simp add: writer_batch_def h(1) flush_good ack_all_def dones_def)
    have g: "grown X st D ?st ?D recs"
      using grown_trans [OF h(2) sync_grown(1) [OF inv1 refl refl]] by simp
    show ?thesis
      by (rule that [OF w [unfolded h(4)] g h(3)]) (use sync_grown(2) [OF inv1 refl refl] dn h(6) in auto)
  next
    case False
    have w: "writer_batch X ms io_good st D =
      (map (\<lambda>(ack, position). AppendReply ack (Inr position)) (b_acks b) @ dones,
       if b_shutdown b \<noteq> None then WriterStopped (Inr ()) else WriterRunning st1, D1)"
      using False by (simp add: writer_batch_def h(1) ack_all_def dones_def)
    have "ws_fsync_strategy st1 = ws_fsync_strategy st" using h(2) by (simp add: grown_def)
    with False h(5) have "ws_fsync_strategy st = Always \<Longrightarrow> recs = []" by (auto simp: must_sync_def)
    then show ?thesis by (intro that [OF w [unfolded h(4)] h(2,3)]) (use dn h(6) in auto)
  qed
qed

section \<open>Crashes\<close>

text \<open>
  A machine crash: each file keeps what was synced and any amount of what was not (\<open>keep\<close>
  chooses how much); what start-up then finds is on stable storage.
\<close>

definition crash_file :: "nat \<Rightarrow> wal_file \<Rightarrow> wal_file" where
  "crash_file keep f = (let d = take (max (fsynced f) keep) (fdata f) in \<lparr>fdata = d, fsynced = length d\<rparr>)"

definition crash_dir :: "(string \<Rightarrow> nat) \<Rightarrow> wal_dir \<Rightarrow> wal_dir" where
  "crash_dir keep D = map (\<lambda>(n, f). (n, crash_file (keep n) f)) D"

lemma crash_dir_keys [simp]: "map fst (crash_dir keep D) = map fst D"
  by (simp add: crash_dir_def case_prod_beta comp_def)

lemma dm_get_crash: "dm_get (crash_dir keep D) n = map_option (crash_file (keep n)) (dm_get D n)"
  by (induction D) (auto simp: crash_dir_def dm_get_def)

lemma segments_crash [simp]: "segments (crash_dir keep D) = segments D"
  by (rule segments_cong) simp

lemma canonical_crash: "canonical_names D \<Longrightarrow> canonical_names (crash_dir keep D)"
  unfolding canonical_names_def dm_ok_def crash_dir_keys by (auto simp: dm_get_crash)

text \<open>
  After a crash the sealed segments are intact and the active one is a prefix of its bytes:
  recovery drops a torn record at most, and replay reads a prefix of the log.
\<close>

definition all_synced :: "wal_dir \<Rightarrow> bool" where
  "all_synced D \<longleftrightarrow> (\<forall>n f. dm_get D n = Some f \<longrightarrow> fsynced f = length (fdata f))"

lemma all_synced_crash: "all_synced (crash_dir keep D)"
  by (auto simp: all_synced_def dm_get_crash crash_file_def Let_def)

lemma all_synced_set_len: "all_synced D \<Longrightarrow> all_synced (update_file path (set_len v) D)"
  by (auto simp: all_synced_def dm_get_update_file set_len_def split: if_splits)

lemma crash_sealed:
  assumes "wal_inv X st D" "sync_inv st D" "ws_fsync_strategy st \<noteq> No"
    and "(i, n) \<in> set (segments D)" "n \<noteq> ws_file st"
  shows "file_data (crash_dir keep D) n = file_data D n"
  using assms by (auto simp: sync_inv_def segments_iff file_data_def dm_get_crash crash_file_def Let_def)

lemma crash_recover:
  assumes inv: "wal_inv X st D" and sync: "sync_inv st D" "ws_fsync_strategy st \<noteq> No"
    and f: "dm_get D (ws_file st) = Some f" "\<forall>r \<in> set rs. payload_fits r" "fdata f = wal.frames X rs"
  obtains m D' rep where "recover X no_faults (crash_dir keep D) = (Inr rep, D')"
    "map (\<lambda>info. (si_id info, si_path info)) (rep_segments rep) = segments D'" "segments D' = segments D"
    "canonical_names D'" "m \<le> length rs" "file_data D' (ws_file st) = wal.frames X (take m rs)"
    "si_valid_len (last (rep_segments rep)) = length (file_data D' (ws_file st))"
    "\<forall>i n. (i, n) \<in> set (segments D) \<longrightarrow> n \<noteq> ws_file st \<longrightarrow> file_data D' n = file_data D n"
    "\<forall>j. j \<le> length rs \<longrightarrow> length (wal.frames X (take j rs)) \<le> fsynced f \<longrightarrow> j \<le> m"
    "all_synced D'"
proof -
  let ?C = "crash_dir keep D"
  obtain ss where ss: "segments D = ss @ [(ws_segment_id st, ws_file st)]"
    "\<And>i n. (i, n) \<in> set ss \<Longrightarrow> i < ws_segment_id st \<and> n \<noteq> ws_file st"
    using wal_inv_segments [OF inv] by blast
  define n where "n = min (max (fsynced f) (keep (ws_file st))) (length (wal.frames X rs))"
  have nle: "n \<le> length (wal.frames X rs)" by (simp add: n_def)
  have fd: "file_data ?C (ws_file st) = take n (wal.frames X rs)"
    using f by (auto simp: file_data_def dm_get_crash crash_file_def Let_def n_def min_def)
  have old: "file_data ?C q = file_data D q" if "(i, q) \<in> set (segments D)" "q \<noteq> ws_file st" for i q
    using crash_sealed [OF inv sync that] .
  have can: "canonical_names ?C" using inv by (intro canonical_crash) (simp add: wal_inv_def)
  have clean: "\<forall>(i, q) \<in> set ss. snd (scan_segment X (file_data ?C q)) = None"
    using inv old ss by (fastforce simp: wal_inv_def intro: whole_clean)
  obtain m where m: "m \<le> length rs" "length (wal.frames X (take m rs)) \<le> n"
    "scan_loop X (take n (wal.frames X rs)) 0 = (wal.placed X 0 (take m rs),
       if n = length (wal.frames X (take m rs)) then None else Some (Truncated (length (wal.frames X (take m rs)))))"
    "take (length (wal.frames X (take m rs))) (take n (wal.frames X rs)) = wal.frames X (take m rs)"
    "m = length rs \<or> n < length (wal.frames X (take (Suc m) rs))"
    by (rule wal.scan_cut [OF f(2) nle])
  have covers: "j \<le> m" if "j \<le> length rs" "length (wal.frames X (take j rs)) \<le> fsynced f" for j
  proof (rule ccontr)
    assume "\<not> j \<le> m"
    then have "length (wal.frames X (take (Suc m) rs)) \<le> length (wal.frames X (take j rs))"
      by (intro wal.frames_take_mono) simp
    moreover have "length (wal.frames X (take j rs)) \<le> length (wal.frames X rs)"
      using wal.frames_take_mono [OF that(1), of X rs] by simp
    ultimately show False using m(5) that \<open>\<not> j \<le> m\<close> by (auto simp: n_def)
  qed
  have mem: "dm_get ?C (ws_file st) = Some (crash_file (keep (ws_file st)) f)" by (simp add: dm_get_crash f)
  show ?thesis
  proof (cases "n = length (wal.frames X (take m rs))")
    case True
    with m(3) have "\<forall>(i, q) \<in> set (segments ?C). snd (scan_segment X (file_data ?C q)) = None"
      using clean fd ss(1) by (auto simp: scan_segment_def)
    from recover_clean [OF this] obtain rep where rep: "recover X no_faults ?C = (Inr rep, ?C)"
      "rep_segments rep = map (clean_info ?C) (segments D)" by auto
    have take_n: "take n (wal.frames X rs) = wal.frames X (take m rs)" using m(4) True by simp
    show ?thesis
      by (rule that [OF rep(1)])
        (use rep(2) can m(1) fd take_n old covers ss(1) all_synced_crash in \<open>auto simp: clean_info_def comp_def last_map\<close>)
  next
    case False
    let ?v = "length (wal.frames X (take m rs))"
    let ?D = "update_file (ws_file st) (set_len ?v) ?C"
    have torn: "scan_segment X (file_data ?C (ws_file st)) = (wal.placed X 0 (take m rs), Some (Truncated ?v))"
      using False m(3) fd by (simp add: scan_segment_def)
    have nin: "ws_file st \<notin> snd ` set ss" using ss(2) by force
    obtain rep where rep: "recover X no_faults ?C = (Inr rep, ?D)"
      "rep_segments rep = map (clean_info ?C) ss @ [\<lparr>si_id = ws_segment_id st, si_path = ws_file st, si_valid_len = ?v\<rparr>]"
      using recover_torn [OF _ nin clean torn, of "ws_segment_id st"] ss(1) by auto
    have fd': "file_data ?D q = (if q = ws_file st then wal.frames X (take m rs) else file_data ?C q)" for q
      using m(4) fd mem by (auto simp: dm_get_update_file set_len_def file_data_def)
    show ?thesis
      by (rule that [OF rep(1)])
        (use rep(2) can m(1) fd' old covers ss(1) all_synced_set_len [OF all_synced_crash] in \<open>auto simp: clean_info_def comp_def\<close>)
  qed
qed

lemma crash_replay:
  assumes inv: "wal_inv X st D" and sync: "sync_inv st D" "ws_fsync_strategy st \<noteq> No"
  obtains k D' where "replay_all X no_faults (crash_dir keep D) = (Inr (take k (dir_log X D)), D')"
    "\<forall>j. durable X st D j \<longrightarrow> j \<le> k" "dir_ok X D'" "dir_log X D' = take k (dir_log X D)"
    "segments D' = segments D" "k \<le> length (dir_log X D)" "all_synced D'"
proof -
  obtain f rs where f: "dm_get D (ws_file st) = Some f" "\<forall>r \<in> set rs. payload_fits r"
    "fdata f = wal.frames X rs" "ws_segment_len st = length (fdata f)" by (rule active_file [OF inv])
  obtain m D' rep where r: "recover X no_faults (crash_dir keep D) = (Inr rep, D')"
    "map (\<lambda>info. (si_id info, si_path info)) (rep_segments rep) = segments D'" "segments D' = segments D"
    "canonical_names D'" "m \<le> length rs" "file_data D' (ws_file st) = wal.frames X (take m rs)"
    "si_valid_len (last (rep_segments rep)) = length (file_data D' (ws_file st))"
    "\<forall>i n. (i, n) \<in> set (segments D) \<longrightarrow> n \<noteq> ws_file st \<longrightarrow> file_data D' n = file_data D n"
    "\<forall>j. j \<le> length rs \<longrightarrow> length (wal.frames X (take j rs)) \<le> fsynced f \<longrightarrow> j \<le> m"
    "all_synced D'"
    by (rule crash_recover [OF inv sync f(1-3), of keep])
  have fit: "\<forall>r \<in> set (take m rs). payload_fits r" using f(2) by (meson in_set_takeD)
  have "whole X (file_data D' n)" if "(i, n) \<in> set (segments D)" for i n
  proof (cases "n = ws_file st")
    case True
    then show ?thesis using r(6) fit by (auto simp: whole_def)
  next
    case False
    then show ?thesis using r(8) inv that by (auto simp: wal_inv_def)
  qed
  with r(3,4) have ok: "dir_ok X D'" by (simp add: dir_ok_def)
  obtain ss where ss: "segments D = ss @ [(ws_segment_id st, ws_file st)]"
    "\<And>i n. (i, n) \<in> set ss \<Longrightarrow> i < ws_segment_id st \<and> n \<noteq> ws_file st"
    using wal_inv_segments [OF inv] by blast
  have seal: "segs_log X D' ss = sealed_log X st D"
    using r(8) ss by (auto simp: sealed_log_def intro!: segs_log_cong)
  have "dir_log X D' = sealed_log X st D @ take m (map (to_wal_record (ws_segment_id st)) (wal.placed X 0 rs))"
    using seal fit by (simp add: dir_log_def r(3,6) ss(1) segs_log_simps segment_log_def scan_frames_whole
        wal.placed_take take_map)
  also have "\<dots> = take (length (sealed_log X st D) + m) (dir_log X D)"
    using f by (simp add: dir_log_split [OF inv] file_data_def segment_log_def scan_frames_whole)
  finally have log: "dir_log X D' = take (length (sealed_log X st D) + m) (dir_log X D)" .
  have "\<forall>(i, n) \<in> set (segments D'). snd (scan_segment X (file_data D' n)) = None"
    using ok by (fastforce simp: dir_ok_def intro: whole_clean)
  from replay_all_after [OF r(1,2) this] log
  have replay: "replay_all X no_faults (crash_dir keep D) = (Inr (take (length (sealed_log X st D) + m) (dir_log X D)), D')"
    by simp
  have "m' \<le> m" if "covered X st D m'" for m'
  proof -
    from that obtain f' rs' where f': "dm_get D (ws_file st) = Some f'" "\<forall>r \<in> set rs'. payload_fits r"
      "fdata f' = wal.frames X rs'" "m' \<le> length rs'" "length (wal.frames X (take m' rs')) \<le> fsynced f'"
      unfolding covered_def by blast
    then have "rs' = rs" using f wal.frames_inj [of rs' rs X] by simp
    with f' f(1) r(9) show ?thesis by simp
  qed
  then have dur: "\<forall>j. durable X st D j \<longrightarrow> j \<le> length (sealed_log X st D) + m"
    unfolding durable_def by fastforce
  show ?thesis
    by (rule that [OF replay dur ok log r(3)])
      (use r(5,10) length_dir_log [OF inv f(1-3)] in auto)
qed

section \<open>Opening\<close>

text \<open>Opening the writer on an intact directory resumes after the last record.\<close>

lemma wal_open_ok:
  assumes ok: "dir_ok X D" and cfg: "HEADER_LEN < wc_max_segment_size cfg"
    and ids: "\<And>i n. (i, n) \<in> set (segments D) \<Longrightarrow> Suc i < 2 ^ 64"
  obtains st D' where
    "wal_open X no_faults cfg D = (Inr \<lparr>ww_task = WriterRunning st, ww_dir = D'\<rparr>, D')"
    "wal_inv X st D'" "dir_log X D' = dir_log X D" "ws_fsync_strategy st = wc_fsync_strategy cfg"
    "ws_max_segment_size st = wc_max_segment_size cfg" "\<not> ws_dirty st"
    "all_synced D \<longrightarrow> sync_inv st D'" "ws_segment_id st = 1 \<or> (\<exists>p \<in> set (segments D). ws_segment_id st \<le> Suc (fst p))"
proof -
  have clean: "\<forall>(i, n) \<in> set (segments D). snd (scan_segment X (file_data D n)) = None"
    using ok by (fastforce simp: dir_ok_def intro: whole_clean)
  from recover_clean [OF this] obtain rep where rep: "recover X no_faults D = (Inr rep, D)"
    "rep_segments rep = map (clean_info D) (segments D)" by blast
  note goal = that
  have nf: "iof_create_dir no_faults = None" "iof_open no_faults = None" by (simp_all add: no_faults_def)
  define mk where "mk sid slen = \<lparr>ws_file = segment_path sid, ws_segment_id = sid, ws_segment_len = slen,
    ws_max_segment_size = wc_max_segment_size cfg, ws_fsync_strategy = wc_fsync_strategy cfg,
    ws_dirty = False, ws_active_segment = sid\<rparr>" for sid slen
  have resume: ?thesis if o: "wal_open X no_faults cfg D =
      (Inr \<lparr>ww_task = WriterRunning (mk sid 0), ww_dir = D'\<rparr>, D')"
    and D': "D' = dm_insert (segment_path sid) \<lparr>fdata = [], fsynced = 0\<rparr> D"
    and lt: "\<forall>i n. (i, n) \<in> set (segments D) \<longrightarrow> i < sid" and sid: "sid < 2 ^ 64"
    and near: "sid = 1 \<or> (\<exists>p \<in> set (segments D). sid \<le> Suc (fst p))" for sid D'
  proof -
    note add = add_segment [OF ok lt sid D']
    have "wal_inv X (mk sid 0) D'"
      using add(2,4,5) sid lt by (auto simp: wal_inv_def dir_ok_def mk_def less_imp_le)
        (simp add: D' dm_simps)
    then show ?thesis
      by (rule goal [OF o])
        (use add(3) near in \<open>auto simp: mk_def sync_inv_def all_synced_def D' dm_simps split: if_splits\<close>)
  qed
  consider (none) "segments D = []" | (some) ss sid path where "segments D = ss @ [(sid, path)]"
    by (metis prod.exhaust rev_exhaust)
  then show ?thesis
  proof cases
    case none
    then have "dm_get D (segment_path 1) = None"
      using segments_iff [of 1 "segment_path 1" D] by (cases "dm_get D (segment_path 1)") auto
    with none show ?thesis
      using rep cfg by (intro resume [of 1, OF _ refl])
        (auto simp: wal_open_def nf mk_def Let_def)
  next
    case some
    then have path: "path = segment_path sid" "sid < 2 ^ 64" "dm_get D path \<noteq> None"
      using segments_iff [of sid path D] ok ids [of sid path] by (auto simp: dir_ok_def canonical_names_def)
    have le: "i \<le> sid" if "(i, n) \<in> set (segments D)" for i n
      using sorted_segments [of D] some that by (force simp: sorted_append)
    show ?thesis
    proof (cases "length (file_data D path) < wc_max_segment_size cfg")
      case True
      have o: "wal_open X no_faults cfg D =
          (Inr \<lparr>ww_task = WriterRunning (mk sid (length (file_data D path))), ww_dir = D\<rparr>, D)"
        using True some rep cfg path by (auto simp: wal_open_def nf mk_def Let_def clean_info_def)
      have "wal_inv X (mk sid (length (file_data D path))) D"
        using ok le path by (auto simp: wal_inv_def dir_ok_def mk_def)
      then show ?thesis by (rule goal [OF o]) (use some in \<open>auto simp: mk_def sync_inv_def all_synced_def\<close>)
    next
      case False
      have lt: "\<forall>i n. (i, n) \<in> set (segments D) \<longrightarrow> i < Suc sid"
        using le by (simp add: less_Suc_eq_le)
      have sid: "Suc sid < 2 ^ 64" using ids [of sid path] some by simp
      note add = add_segment [OF ok lt sid refl]
      show ?thesis
        by (rule resume [OF _ refl lt sid])
          (use False some rep cfg add(1) sid in \<open>simp_all add: wal_open_def nf mk_def Let_def clean_info_def u64_add_def\<close>)
    qed
  qed
qed

section \<open>Runs of the writer task\<close>

text \<open>A sequence of drained batches, each with the replies it sends.\<close>

fun run_batches ::
  "ext \<Rightarrow> (wal_message \<times> write_io) list list \<Rightarrow> writer_task \<Rightarrow> wal_dir \<Rightarrow>
   wal_reply list \<times> writer_task \<times> wal_dir" where
  "run_batches X [] task D = ([], task, D)"
| "run_batches X (ms # mss) (WriterRunning st) D =
     (let (rs, task, D) = writer_batch X ms io_good st D;
          (rs', task, D) = run_batches X mss task D
      in (rs @ rs', task, D))"
| "run_batches X (ms # mss) (WriterStopped r) D = ([], WriterStopped r, D)"

lemma batch_ok_append: "batch_ok (ms @ ms') \<longleftrightarrow> batch_ok ms \<and> batch_ok ms'"
proof -
  have "batch_appends (ms @ ms') = batch_appends ms @ batch_appends ms'"
    by (induction ms rule: batch_appends.induct) auto
  then show ?thesis by (auto simp: batch_ok_def)
qed

lemma run_batches_stopped [simp]: "run_batches X mss (WriterStopped r) D = ([], WriterStopped r, D)"
  by (cases mss) auto

text \<open>Positions of the appends a list of replies acknowledges.\<close>

definition acked :: "wal_reply list \<Rightarrow> wal_position set" where
  "acked rs = {position. \<exists>ack. AppendReply ack (Inr position) \<in> set rs}"

lemma writer_batch_grown:
  assumes inv: "wal_inv X st D" and ok: "batch_ok ms" "ws_segment_id st + length ms < 2 ^ 64"
    and dur: "ws_fsync_strategy st = Always" "durable X st D (length (dir_log X D))"
    and w: "writer_batch X ms io_good st D = (rs, task, D')"
  obtains st' recs where "grown X st D st' D' recs" "length recs \<le> length ms"
    "task = (if batch_shutdown None ms \<noteq> None then WriterStopped (Inr ()) else WriterRunning st')"
    "durable X st' D' (length (dir_log X D'))"
    "acked rs \<subseteq> record_position ` set recs" "map record_content recs = map fst (batch_appends ms)"
    "\<forall>ack \<in> set (map snd (batch_appends ms)). \<exists>position. AppendReply ack (Inr position) \<in> set rs"
proof -
  obtain st' D'' recs dones task' where b: "writer_batch X ms io_good st D =
       (map (\<lambda>(ack, position). AppendReply ack (Inr position))
          (zip (map snd (batch_appends ms)) (map record_position recs)) @ dones, task', D'')"
    "grown X st D st' D'' recs" "map record_content recs = map fst (batch_appends ms)"
    "task' = (if batch_shutdown None ms \<noteq> None then WriterStopped (Inr ()) else WriterRunning st')"
    "ws_fsync_strategy st = Always \<longrightarrow> recs \<noteq> [] \<longrightarrow> durable X st' D'' (length (dir_log X D''))"
    "\<forall>r \<in> set dones. \<exists>c. r = DoneReply c (Inr ())"
    by (rule writer_batch_good [OF inv ok])
  have eq: "D'' = D'" "task' = task" using b(1) w by auto
  have all: "durable X st' D' (length (dir_log X D'))"
  proof (cases "recs = []")
    case True
    then have "dir_log X D' = dir_log X D" using b(2) by (simp add: grown_def eq)
    then show ?thesis using b(2) dur(2) by (simp add: grown_def eq)
  qed (use b(5) dur(1) eq in simp)
  have "length recs \<le> length ms"
  proof -
    have "length (batch_appends ms) \<le> length ms" by (induction ms rule: batch_appends.induct) auto
    then show ?thesis using b(3) by (metis length_map)
  qed
  moreover have "acked rs \<subseteq> record_position ` set recs"
    using b(1,6) w by (fastforce simp: acked_def dest: set_zip_rightD)
  moreover have "\<exists>position. AppendReply ack (Inr position) \<in> set rs" if "ack \<in> set (map snd (batch_appends ms))" for ack
  proof -
    have "length (map snd (batch_appends ms)) = length (map record_position recs)"
      using b(3) by (metis length_map)
    from that obtain i where i: "i < length (batch_appends ms)" "map snd (batch_appends ms) ! i = ack"
      by (metis in_set_conv_nth length_map)
    then have "(ack, map record_position recs ! i) \<in> set (zip (map snd (batch_appends ms)) (map record_position recs))"
      using \<open>length (map snd (batch_appends ms)) = length (map record_position recs)\<close>
      by (auto simp: set_zip intro!: exI [of _ i])
    then show ?thesis using b(1) w by force
  qed
  ultimately show ?thesis using that b(2,3,4) all eq by blast
qed

lemma run_batches_grown:
  assumes "wal_inv X st D" "batch_ok (concat mss)" "ws_segment_id st + length (concat mss) < 2 ^ 64"
    and "ws_fsync_strategy st = Always" "durable X st D (length (dir_log X D))"
    and "run_batches X mss (WriterRunning st) D = (rs, task, D')"
  shows "\<exists>st' recs. grown X st D st' D' recs \<and> length recs \<le> length (concat mss) \<and>
    (task = WriterRunning st' \<or> task = WriterStopped (Inr ())) \<and>
    durable X st' D' (length (dir_log X D')) \<and> acked rs \<subseteq> record_position ` set recs"
  using assms
proof (induction mss arbitrary: st D rs)
  case Nil
  then show ?case by (auto simp: acked_def intro!: exI [of _ st] exI [of _ "[]"] grown_refl)
next
  case (Cons ms mss)
  obtain rs1 task1 D1 where w: "writer_batch X ms io_good st D = (rs1, task1, D1)" using prod_cases3 by blast
  have "batch_ok ms" "ws_segment_id st + length ms < 2 ^ 64"
    using Cons.prems(2,3) by (simp_all add: batch_ok_append)
  then obtain st1 recs1 where b: "grown X st D st1 D1 recs1" "length recs1 \<le> length ms"
    "task1 = WriterRunning st1 \<or> task1 = WriterStopped (Inr ())"
    "durable X st1 D1 (length (dir_log X D1))" "acked rs1 \<subseteq> record_position ` set recs1"
    using writer_batch_grown [OF Cons.prems(1) _ _ Cons.prems(4,5) w] by (metis (no_types))
  obtain rs2 where r: "run_batches X mss task1 D1 = (rs2, task, D')" "rs = rs1 @ rs2"
    using Cons.prems(6) w by (auto split: prod.splits)
  from b(3) show ?case
  proof
    assume run: "task1 = WriterRunning st1"
    have "\<exists>st' recs. grown X st1 D1 st' D' recs \<and> length recs \<le> length (concat mss) \<and>
      (task = WriterRunning st' \<or> task = WriterStopped (Inr ())) \<and>
      durable X st' D' (length (dir_log X D')) \<and> acked rs2 \<subseteq> record_position ` set recs"
      using b(1,2,4) r(1) run Cons.prems by (intro Cons.IH) (auto simp: grown_def batch_ok_append)
    then obtain st' recs where n: "grown X st1 D1 st' D' recs" "length recs \<le> length (concat mss)"
      "task = WriterRunning st' \<or> task = WriterStopped (Inr ())"
      "durable X st' D' (length (dir_log X D'))" "acked rs2 \<subseteq> record_position ` set recs" by blast
    have "acked rs \<subseteq> record_position ` set (recs1 @ recs)"
      using b(5) n(5) by (auto simp: r(2) acked_def)
    then show ?thesis
      using grown_trans [OF b(1) n(1)] b(2) n by (intro exI [of _ st'] exI [of _ "recs1 @ recs"]) auto
  next
    assume "task1 = WriterStopped (Inr ())"
    then have "rs = rs1" "task = WriterStopped (Inr ())" "D' = D1" using r by auto
    then show ?thesis using b by (intro exI [of _ st1] exI [of _ recs1]) auto
  qed
qed

section \<open>Properties\<close>

text \<open>
  C16: A record is read back as it was written: wherever \<open>encode_record\<close> puts a record into a
  buffer, \<open>parse_one\<close> at that offset returns its type and payload and the offset just behind
  it, whatever bytes come before and after.
\<close>

theorem record_roundtrip:
  assumes "length payload < 2 ^ 32"
  shows "parse_one X (encode_record X t payload pre @ post) (length pre) =
    Inr \<lparr>pr_record_type = t, pr_payload = payload, pr_next_offset = length (encode_record X t payload pre)\<rparr>"
  using parse_one_frame [OF assms, of X pre t post] encode_record_frame [of X t payload pre]
    encode_record_frame [of X t payload "[]"]
  by (simp add: HEADER_LEN_def)

theorem record_roundtrip_witness:
  "parse_one demo_ext (encode_record demo_ext Checkpoint ''abc'' ''xy'' @ ''tail'') (length ''xy'') =
    Inr \<lparr>pr_record_type = Checkpoint, pr_payload = ''abc'', pr_next_offset = 18\<rparr>"
  using record_roundtrip [of "''abc''" demo_ext Checkpoint "''xy''" "''tail''"]
  by (simp add: encode_record_frame)


definition demo_wal_config :: wal_config where
  "demo_wal_config = \<lparr>wc_max_segment_size = 40, wc_fsync_strategy = Always\<rparr>"


end
