(* ===== verification/Ledger_Progress.thy ===== *)
theory Ledger_Progress
  imports Ledger_Steps Wal_Durability
begin

text \<open>
  The ledger on a healthy write-ahead log: \<open>persist\<close> succeeds, appends exactly the record of
  the mutation to the log and applies it.  \<open>demo_ledger\<close> is a concrete ledger on a log opened
  in an empty directory.
\<close>

section \<open>Healthy logs\<close>

definition wal_ready :: "ext \<Rightarrow> nat \<Rightarrow> ledger \<Rightarrow> bool" where
  "wal_ready X n lg \<longleftrightarrow> (\<exists>st. ww_task (lg_wal lg) = WriterRunning st \<and> wal_inv X st (ww_dir (lg_wal lg)) \<and>
     ws_segment_id st + n < 2 ^ 64)"

definition encodable :: "serde \<Rightarrow> record_kind \<Rightarrow> bool" where
  "encodable K kind \<longleftrightarrow> (\<exists>bs. encode K kind = Inr bs \<and> length bs < 2 ^ 32)"

definition healthy_io :: "op_input \<Rightarrow> bool" where
  "healthy_io oi \<longleftrightarrow> oi_io oi = io_good \<and> oi_sync_io oi = io_good"

definition wal_log :: "ext \<Rightarrow> ledger \<Rightarrow> wal_record list" where
  "wal_log X lg = dir_log X (ww_dir (lg_wal lg))"

lemma wal_append_good:
  assumes "ww_task W = WriterRunning st" "wal_inv X st (ww_dir W)" "ws_segment_id st + 1 < 2 ^ 64" "length p < 2 ^ 32"
  obtains st' D' r where "wal_append X io_good io_good W t p =
      (Inr (record_position r), \<lparr>ww_task = WriterRunning st', ww_dir = D'\<rparr>)"
    "grown X st (ww_dir W) st' D' [r]" "record_content r = (t, p)"
    "ws_fsync_strategy st = Always \<longrightarrow> durable X st' D' (length (dir_log X D'))"
proof -
  have ok: "batch_ok [(Append t p 0, io_good)]" using assms(4) by (simp add: batch_ok_def payload_fits_def)
  have len: "ws_segment_id st + length [(Append t p 0, io_good)] < 2 ^ 64" using assms(3) by simp
  obtain st' D' recs dones task where w:
    "writer_batch X [(Append t p 0, io_good)] io_good st (ww_dir W) =
       (map (\<lambda>(ack, position). AppendReply ack (Inr position))
          (zip (map snd (batch_appends [(Append t p 0, io_good)])) (map record_position recs)) @ dones, task, D')"
    "grown X st (ww_dir W) st' D' recs"
    "map record_content recs = map fst (batch_appends [(Append t p 0, io_good)])"
    "task = (if batch_shutdown None [(Append t p 0, io_good)] \<noteq> None then WriterStopped (Inr ()) else WriterRunning st')"
    "ws_fsync_strategy st = Always \<longrightarrow> recs \<noteq> [] \<longrightarrow> durable X st' D' (length (dir_log X D'))"
    "\<forall>r \<in> set dones. \<exists>c. r = DoneReply c (Inr ())"
    by (rule writer_batch_good [OF assms(2) ok len])
  then obtain r where r: "recs = [r]" "record_content r = (t, p)"
    by (cases recs) auto
  show ?thesis
    by (rule that [of r st' D']) (use assms w r in \<open>auto simp: wal_append_def\<close>)
qed

lemma persist_writes:
  assumes ready: "wal_ready X (Suc n) lg" and io: "healthy_io oi" and enc: "encode K kind = Inr bs" "length bs < 2 ^ 32"
    and ix: "indexes_apply X kind (lg_indexes lg) = (Inr (), ix)"
  obtains lg' r where "persist X K oi kind lg = (Inr (), lg')" "wal_ready X n lg'"
    "lg_indexes lg' = ix" "lg_counters lg' = lg_counters lg"
    "wal_log X lg' = wal_log X lg @ [r]" "record_content r = (Put, bs)" "lg_last_wal_position lg' = Some (record_position r)"
proof -
  obtain st where st: "ww_task (lg_wal lg) = WriterRunning st" "wal_inv X st (ww_dir (lg_wal lg))"
    "ws_segment_id st + Suc n < 2 ^ 64"
    using ready by (auto simp: wal_ready_def)
  then have id: "ws_segment_id st + 1 < 2 ^ 64" by simp
  obtain st' D' r where w: "wal_append X io_good io_good (lg_wal lg) Put bs =
      (Inr (record_position r), \<lparr>ww_task = WriterRunning st', ww_dir = D'\<rparr>)"
    "grown X st (ww_dir (lg_wal lg)) st' D' [r]" "record_content r = (Put, bs)"
    "ws_fsync_strategy st = Always \<longrightarrow> durable X st' D' (length (dir_log X D'))"
    by (rule wal_append_good [OF st(1,2) id enc(2)])
  have p: "persist X K oi kind lg = (Inr (), lg\<lparr>lg_wal := \<lparr>ww_task = WriterRunning st', ww_dir = D'\<rparr>,
      lg_indexes := ix, lg_last_wal_position := Some (record_position r)\<rparr>)"
    using io enc(1) w(1) ix by (simp add: persist_def healthy_io_def)
  show ?thesis
    by (rule that [OF p]) (use w(2,3) st(3) in \<open>auto simp: wal_ready_def wal_log_def grown_def\<close>)
qed

lemma persist_good:
  assumes "wal_ready X (Suc n) lg" "healthy_io oi" "encode K kind = Inr bs" "length bs < 2 ^ 32"
    and "indexes_ok X (lg_indexes lg)" "kind_fits X (lg_indexes lg) kind"
  obtains lg' r where "persist X K oi kind lg = (Inr (), lg')" "wal_ready X n lg'"
    "lg_indexes lg' = snd (indexes_apply X kind (lg_indexes lg))" "lg_counters lg' = lg_counters lg"
    "wal_log X lg' = wal_log X lg @ [r]" "record_content r = (Put, bs)" "lg_last_wal_position lg' = Some (record_position r)"
proof -
  have "indexes_apply X kind (lg_indexes lg) = (Inr (), snd (indexes_apply X kind (lg_indexes lg)))"
    using apply_fits(1) [OF assms(5,6)] by (simp add: prod_eq_iff)
  from persist_writes [OF assms(1-4) this] that show ?thesis by blast
qed

lemma wal_ready_run_lock [simp]: "wal_ready X n (run_lock i lg) = wal_ready X n lg"
  by (simp add: wal_ready_def)

lemma wal_ready_counters [simp]: "wal_ready X n (lg\<lparr>lg_counters := c\<rparr>) = wal_ready X n lg"
  by (simp add: wal_ready_def)

section \<open>A concrete ledger\<close>

definition demo_wal :: wal_writer where
  "demo_wal = (case wal_open demo_ext no_faults demo_wal_config [] of (Inr W, _) \<Rightarrow> W
     | (Inl _, D) \<Rightarrow> \<lparr>ww_task = WriterStopped (Inr ()), ww_dir = D\<rparr>)"

definition ledger_on :: "wal_writer \<Rightarrow> indexes \<Rightarrow> ledger" where
  "ledger_on W ix = \<lparr>lg_wal = W, lg_partitions = DEFAULT_PARTITIONS, lg_last_wal_position = None,
     lg_default_lease = DEFAULT_LEASE, lg_min_lease = MIN_LEASE, lg_max_lease = MAX_LEASE,
     lg_indexes = ix, lg_counters = zero_counters, lg_retention = None\<rparr>"

definition demo_serde :: "serde" where
  "demo_serde = \<lparr>record_to_vec = \<lambda>_. Inr ''r'', record_from_slice = \<lambda>_. Inl ''record'',
     state_to_vec = \<lambda>_. Inr ''s'', state_from_slice = \<lambda>_. Inl ''state'',
     manifest_to_vec_pretty = \<lambda>_. Inr ''m'', manifest_from_slice = \<lambda>_. Inl ''manifest''\<rparr>"

definition demo_input :: "int \<Rightarrow> uuid \<Rightarrow> op_input" where
  "demo_input now i = \<lparr>oi_now = now, oi_id = i, oi_event_id = i, oi_token1 = i, oi_token2 = i,
     oi_io = io_good, oi_sync_io = io_good\<rparr>"

lemma demo_encodes: "encode demo_serde kind = Inr ''r''"
  by (simp add: encode_def demo_serde_def)

lemma demo_wal_open:
  obtains st where "ww_task demo_wal = WriterRunning st" "wal_inv demo_ext st (ww_dir demo_wal)"
    "dir_log demo_ext (ww_dir demo_wal) = []" "ws_segment_id st = 1" "ws_fsync_strategy st = Always"
    "sync_inv st (ww_dir demo_wal)"
proof -
  have segs: "segments [] = []" by (simp add: segments_def segment_entries_def map_filter_simps)
  have cfg: "HEADER_LEN < wc_max_segment_size demo_wal_config" by (simp add: HEADER_LEN_def demo_wal_config_def)
  have ok: "dir_ok demo_ext []" by (simp add: dir_ok_def canonical_names_def segs)
  have io: "iof_create_dir no_faults = None" "iof_open no_faults = None" by (simp_all add: no_faults_def)
  obtain st D where o: "wal_open demo_ext no_faults demo_wal_config [] =
      (Inr \<lparr>ww_task = WriterRunning st, ww_dir = D\<rparr>, D)" "wal_inv demo_ext st D"
    "dir_log demo_ext D = dir_log demo_ext []" "ws_fsync_strategy st = wc_fsync_strategy demo_wal_config"
    "ws_max_segment_size st = wc_max_segment_size demo_wal_config" "\<not> ws_dirty st" "all_synced [] \<longrightarrow> sync_inv st D"
    by (rule wal_open_ok [OF ok cfg]) (simp_all add: segs)
  have id: "ws_segment_id st = 1"
    using o(1) cfg by (auto simp: wal_open_def recover_def segs io Let_def)
  have w: "demo_wal = \<lparr>ww_task = WriterRunning st, ww_dir = D\<rparr>" by (simp add: demo_wal_def o(1))
  show ?thesis
    by (rule that) (use o(2-4,7) id in \<open>simp_all add: w dir_log_def segs segs_log_simps all_synced_def demo_wal_config_def\<close>)
qed

lemma demo_ready: "n < 2 ^ 63 \<Longrightarrow> wal_ready demo_ext n (ledger_on demo_wal ix)"
proof -
  assume n: "n < 2 ^ 63"
  obtain st where "ww_task demo_wal = WriterRunning st" "wal_inv demo_ext st (ww_dir demo_wal)" "ws_segment_id st = 1"
    using demo_wal_open by metis
  with n show ?thesis by (simp add: wal_ready_def ledger_on_def)
qed

lemma demo_healthy [simp]: "healthy_io (demo_input now i)"
  by (simp add: healthy_io_def demo_input_def)

lemma demo_input_sel [simp]: "oi_now (demo_input now i) = now" "oi_id (demo_input now i) = i"
  by (simp_all add: demo_input_def)

lemma ledger_on_sel [simp]: "lg_indexes (ledger_on W ix) = ix"
  by (simp add: ledger_on_def)

end
