(* ===== verification/Ledger_Safety.thy ===== *)
theory Ledger_Safety
  imports Ledger_Progress
begin

text \<open>
  What the ledger guarantees over any sequence of operations: its invariant, at-most-once
  execution, fencing, leases, replay of outcomes, isolation of tenants, and that a failed
  operation changes nothing.
\<close>

section \<open>Runs of the ledger\<close>

fun run_ops :: "ext \<Rightarrow> serde \<Rightarrow> (op_input \<times> ledger_op) list \<Rightarrow> ledger \<Rightarrow> ledger" where
  "run_ops X K [] lg = lg"
| "run_ops X K ((oi, op) # ops) lg = run_ops X K ops (snd (ledger_op_exec X K oi op lg))"

fun inputs_ok :: "ext \<Rightarrow> serde \<Rightarrow> (op_input \<times> ledger_op) list \<Rightarrow> ledger \<Rightarrow> bool" where
  "inputs_ok X K [] lg = True"
| "inputs_ok X K ((oi, op) # ops) lg \<longleftrightarrow> fresh_input oi lg \<and> inputs_ok X K ops (snd (ledger_op_exec X K oi op lg))"

definition effect_at :: "ledger \<Rightarrow> uuid \<Rightarrow> effect_record option" where
  "effect_at lg i = dm_get (ix_effects_by_id (lg_indexes lg)) i"

lemma op_inv: "ledger_inv X lg \<Longrightarrow> fresh_input oi lg \<Longrightarrow> ledger_inv X (snd (ledger_op_exec X K oi op lg))"
  by (rule outcome_inv [OF _ ledger_op_outcome])

lemma op_effect_step:
  "ledger_inv X lg \<Longrightarrow> fresh_input oi lg \<Longrightarrow>
     effect_at (snd (ledger_op_exec X K oi op lg)) i = effect_at lg i \<or>
     effect_step (oi_now oi) (effect_at lg i) (effect_at (snd (ledger_op_exec X K oi op lg)) i)"
  unfolding effect_at_def by (rule outcome_effect_step [OF _ ledger_op_outcome])

lemma run_ops_inv: "ledger_inv X lg \<Longrightarrow> inputs_ok X K ops lg \<Longrightarrow> ledger_inv X (run_ops X K ops lg)"
  by (induction X K ops lg rule: run_ops.induct) (auto intro: op_inv)

lemma ledger_inv_empty: "lg_indexes lg = empty_indexes \<Longrightarrow> ledger_inv X lg"
  by (simp add: ledger_inv_def checkpoints_bounded_def indexes_ok_def effects_ok_def empty_indexes_def run_ok_def row_ok_def
      run_events_def run_checkpoints_def chain.verify_Nil i64_max_def)

text \<open>What is true of an effect and kept by every allowed operation is true after all of them.\<close>

lemma run_ops_effect_induct:
  assumes step: "\<And>oi op lg. (oi, op) \<in> set ops \<Longrightarrow> ledger_inv X lg \<Longrightarrow> fresh_input oi lg \<Longrightarrow> P (effect_at lg i) \<Longrightarrow>
      P (effect_at (snd (ledger_op_exec X K oi op lg)) i)"
    and "ledger_inv X lg" "inputs_ok X K ops lg" "P (effect_at lg i)"
  shows "P (effect_at (run_ops X K ops lg) i)"
  using assms
proof (induction ops arbitrary: lg)
  case (Cons a ops)
  obtain oi op where a: "a = (oi, op)" by fastforce
  let ?lg = "snd (ledger_op_exec X K oi op lg)"
  have f: "fresh_input oi lg" "inputs_ok X K ops ?lg" using Cons.prems(3) by (simp_all add: a)
  have "P (effect_at ?lg i)" using Cons.prems(1) [of oi op lg] Cons.prems(2,4) f(1) by (simp add: a)
  then have "P (effect_at (run_ops X K ops ?lg) i)"
    using Cons.prems(1) by (intro Cons.IH [OF _ op_inv [OF Cons.prems(2) f(1)] f(2)]) (simp_all add: a)
  then show ?case by (simp add: a)
qed simp

text \<open>Effects appear only under the id the operation was given, and only retention removes them.\<close>

lemma outcome_effect_cases:
  assumes inv: "ledger_inv X lg" and out: "outcome X K oi sc lg r lg'"
  shows "effect_at lg i = None \<Longrightarrow> effect_at lg' i \<noteq> None \<Longrightarrow> i = oi_id oi"
    and "sc \<noteq> None \<Longrightarrow> effect_at lg i = Some e \<Longrightarrow> effect_at lg' i \<noteq> None"
proof -
  have "(effect_at lg i = None \<longrightarrow> effect_at lg' i \<noteq> None \<longrightarrow> i = oi_id oi) \<and>
    (sc \<noteq> None \<longrightarrow> effect_at lg i = Some e \<longrightarrow> effect_at lg' i \<noteq> None)"
    using out unfolding outcome_def
  proof (elim disjE conjE exE)
    assume "kept X oi lg lg'"
    then show ?thesis by (simp add: effect_at_def same_data_sel [OF kept_same])
  next
    fix kind assume "applied X K oi sc kind lg lg'"
    then obtain ix where ix: "same_data (lg_indexes lg) ix" "kind_fits X ix kind" "kind_legal oi sc ix kind"
      "lg_indexes lg' = snd (indexes_apply X kind ix)"
      by (auto simp: applied_def)
    have ok: "indexes_ok X ix" by (rule indexes_ok_same [OF ix(1) ledger_invD(1) [OF inv]])
    show ?thesis
      unfolding effect_at_def ix(4) applied_effects [OF ok ix(2)] same_data_sel(4) [OF ix(1), symmetric]
      using ix(3) by (cases kind) auto
  qed
  then show "effect_at lg i = None \<Longrightarrow> effect_at lg' i \<noteq> None \<Longrightarrow> i = oi_id oi"
    and "sc \<noteq> None \<Longrightarrow> effect_at lg i = Some e \<Longrightarrow> effect_at lg' i \<noteq> None" by blast+
qed

lemma op_creates:
  "ledger_inv X lg \<Longrightarrow> fresh_input oi lg \<Longrightarrow> effect_at lg i = None \<Longrightarrow> i \<noteq> oi_id oi \<Longrightarrow>
     effect_at (snd (ledger_op_exec X K oi op lg)) i = None"
  using outcome_effect_cases(1) [OF _ ledger_op_outcome] by metis

lemma op_keeps:
  assumes "ledger_inv X lg" "fresh_input oi lg" "op_scope op \<noteq> None" "effect_at lg i = Some e"
  obtains e' where "effect_at (snd (ledger_op_exec X K oi op lg)) i = Some e'" "e' = e \<or> effect_step (oi_now oi) (Some e) (Some e')"
  using outcome_effect_cases(2) [OF assms(1) ledger_op_outcome [OF assms(1,2)] assms(3,4), of K]
    op_effect_step [OF assms(1,2), of K op i] assms(4) by auto

section \<open>The invariant and the lifecycle\<close>

text \<open>
  C5: The ledger's invariant.  From an empty ledger, any sequence of operations, with any
  outcomes of the WAL's I/O, leads to a state in which every effect has a lease exactly while
  it is claimed or in progress, the key index and the effects agree, every effect's run exists
  in the effect's tenant and project, checkpoints lie within their timelines, and the stored
  timeline of every run verifies as a hash chain whose head and length the run record carries.
\<close>

theorem ledger_invariant:
  assumes "lg_indexes lg = empty_indexes" "inputs_ok X K ops lg"
  defines "lg' \<equiv> run_ops X K ops lg"
  shows "ledger_inv X lg' \<and>
    verify_run_events X scope i lg' = map_sum id (\<lambda>_. True) (run_in_scope X scope i lg') \<and>
    (\<forall>run. run_in_scope X scope i lg' = Inr run \<longrightarrow>
      rr_last_event_sequence run = int (length (run_events (lg_indexes lg') i)) \<and>
      rr_head_hash run = stored.head_hash (run_events (lg_indexes lg') i))"
proof -
  have inv: "ledger_inv X lg'" unfolding lg'_def by (rule run_ops_inv [OF ledger_inv_empty [OF assms(1)] assms(2)])
  have "run_ok X (lg_indexes lg') i" using inv by (simp add: ledger_inv_def indexes_ok_def)
  then have "verify_event_chain X (map view_event (run_events (lg_indexes lg') i))" by (simp add: run_ok_def row_ok_def)
  then have "verify_run_events X scope i lg' = map_sum id (\<lambda>_. True) (run_in_scope X scope i lg')"
    by (simp add: verify_run_events_def split: sum.split)
  with inv run_row [OF ledger_invD(1) [OF inv]] show ?thesis by (auto simp: run_in_scope_Inr)
qed

definition demo_scope :: tenant_scope where
  "demo_scope = \<lparr>sc_tenant_id = ''t'', sc_project_id = ''p''\<rparr>"

definition demo_run_request :: create_run_request where
  "demo_run_request = \<lparr>cr_external_id = ''job'', cr_agent_name = ''agent'', cr_metadata = None\<rparr>"

definition demo_event_request :: append_event_request where
  "demo_event_request = \<lparr>ae_event_type = ''step'', ae_occurred_at_ms = 5, ae_payload = JNull\<rparr>"

lemma fresh_empty: "lg_indexes lg = empty_indexes \<Longrightarrow> fresh_input oi lg"
  by (simp add: fresh_input_def empty_indexes_def run_events_def i64_max_def)

lemma demo_create_run:
  obtains lg run where
    "create_run demo_ext demo_serde (demo_input 1000 1) demo_scope demo_run_request (ledger_on demo_wal empty_indexes) =
      (Inr (view_run run), lg)" "wal_ready demo_ext 1000 lg" "ledger_inv demo_ext lg"
    "lg_indexes lg = insert_run run empty_indexes" "rr_id run = 1" "rr_last_event_sequence run = 0"
    "rr_tenant_id run = ''t''" "rr_project_id run = ''p''"
proof -
  let ?lg = "ledger_on demo_wal empty_indexes"
  define run where "run = new_run (demo_input 1000 1) demo_scope ''job'' ''agent'' None None None"
  have ready: "wal_ready demo_ext (Suc 1000) ?lg" by (rule demo_ready) simp
  have ok: "indexes_ok demo_ext (lg_indexes ?lg)" using ledger_inv_empty [of ?lg demo_ext] by (simp add: ledger_inv_def)
  have fits: "kind_fits demo_ext (lg_indexes ?lg) (RunCreated run)"
    by (simp add: run_def new_run_def empty_indexes_def)
  have len: "length ''r'' < 2 ^ 32" by simp
  obtain lg where p: "persist demo_ext demo_serde (demo_input 1000 1) (RunCreated run) ?lg = (Inr (), lg)"
    "wal_ready demo_ext 1000 lg" "lg_indexes lg = snd (indexes_apply demo_ext (RunCreated run) (lg_indexes ?lg))"
    by (rule persist_good [OF ready demo_healthy demo_encodes len ok fits])
  have c: "create_run demo_ext demo_serde (demo_input 1000 1) demo_scope demo_run_request ?lg = (Inr (view_run run), lg)"
    using p(1) by (simp add: create_run_def demo_run_request_def run_def)
  have "ledger_inv demo_ext (snd (ledger_op_exec demo_ext demo_serde (demo_input 1000 1)
      (OpCreateRun demo_scope demo_run_request) ?lg))"
    by (rule op_inv [OF ledger_inv_empty fresh_empty]) simp_all
  then have "ledger_inv demo_ext lg" by (simp add: c drop_value_def)
  then show ?thesis
    by (rule that [OF c p(2)]) (simp_all add: p(3) run_def new_run_def demo_scope_def)
qed

lemma fresh_one_run:
  assumes "lg_indexes lg = insert_run run empty_indexes" "oi_id oi \<noteq> rr_id run"
  shows "fresh_input oi lg"
  using assms by (simp add: fresh_input_def insert_run_def empty_indexes_def run_events_def i64_max_def dm_simps)

theorem ledger_invariant_witness:
  "\<exists>lg. lg = run_ops demo_ext demo_serde
      [(demo_input 1000 1, OpCreateRun demo_scope demo_run_request),
       (demo_input 2000 2, OpAppendEvent demo_scope 1 demo_event_request)] (ledger_on demo_wal empty_indexes) \<and>
    ledger_inv demo_ext lg \<and>
    verify_run_events demo_ext demo_scope 1 lg = map_sum id (\<lambda>_. True) (run_in_scope demo_ext demo_scope 1 lg)"
proof -
  obtain lg run where c:
    "create_run demo_ext demo_serde (demo_input 1000 1) demo_scope demo_run_request (ledger_on demo_wal empty_indexes) =
      (Inr (view_run run), lg)" "lg_indexes lg = insert_run run empty_indexes" "rr_id run = 1"
    by (rule demo_create_run)
  have "fresh_input (demo_input 1000 1) (ledger_on demo_wal empty_indexes)" by (rule fresh_empty) simp
  moreover have "fresh_input (demo_input 2000 2) lg" by (rule fresh_one_run [OF c(2)]) (simp add: c(3))
  ultimately have "inputs_ok demo_ext demo_serde
      [(demo_input 1000 1, OpCreateRun demo_scope demo_run_request),
       (demo_input 2000 2, OpAppendEvent demo_scope 1 demo_event_request)] (ledger_on demo_wal empty_indexes)"
    by (simp add: c(1) drop_value_def)
  from ledger_invariant [OF _ this, where scope = demo_scope and i = 1] show ?thesis by simp
qed

text \<open>
  C4: The ledger implements the lifecycle of effects.  Whatever operation runs, and however its
  I/O ends, each effect is unchanged or takes one step of the specification \<open>effect_step\<close>;
  an operation that returns an error leaves every effect, run, timeline and checkpoint as it was.
\<close>

theorem ledger_refines_lifecycle:
  assumes "ledger_inv X lg" "fresh_input oi lg" "ledger_op_exec X K oi op lg = (r, lg')"
  shows "(effect_at lg' i = effect_at lg i \<or> effect_step (oi_now oi) (effect_at lg i) (effect_at lg' i)) \<and>
    (isl r \<longrightarrow> same_data (lg_indexes lg) (lg_indexes lg'))"
proof -
  have "outcome X K oi (op_scope op) lg r lg'" using ledger_op_outcome [OF assms(1,2), where K = K and op = op] by (simp add: assms(3))
  moreover have "effect_at lg' i = effect_at lg i \<or> effect_step (oi_now oi) (effect_at lg i) (effect_at lg' i)"
    using op_effect_step [OF assms(1,2), of K op i] by (simp add: assms(3))
  ultimately show ?thesis by (auto simp: outcome_def kept_def)
qed

definition demo_effect :: "effect_status \<Rightarrow> effect_record" where
  "demo_effect s = \<lparr>er_schema_version = SCHEMA_VERSION, er_tenant_id = ''t'', er_project_id = ''p'', er_id = 7,
     er_run_id = None, er_scope = ''pay'', er_idempotency_key = ''key-0001'', er_tool_name = ''charge'',
     er_input_digest = input_digest demo_ext JNull, er_state = s, er_fencing_token = 3,
     er_lease_expires_at_ms = (if leased s then Some 9000 else None), er_lease_duration_ms = 30000,
     er_lease_token_digest = (if leased s then Some ''digest'' else None), er_result = Some JNull,
     er_external_receipt = None, er_failure = None, er_created_at_ms = 1000, er_updated_at_ms = 1000\<rparr>"

definition demo_ledger :: "effect_status \<Rightarrow> ledger" where
  "demo_ledger s = ledger_on demo_wal (insert_effect (demo_effect s) empty_indexes)"

definition demo_acquire :: acquire_request where
  "demo_acquire = \<lparr>aq_run_id = None, aq_scope = ''pay'', aq_tool_name = ''charge'', aq_input = JNull,
     aq_lease_duration_seconds = None, aq_downstream_idempotency_supported = False\<rparr>"

lemma demo_effect_sel [simp]:
  "er_id (demo_effect s) = 7" "er_state (demo_effect s) = s" "er_fencing_token (demo_effect s) = 3"
  "er_tenant_id (demo_effect s) = ''t''" "er_project_id (demo_effect s) = ''p''"
  "er_run_id (demo_effect s) = None"
  by (simp_all add: demo_effect_def)

lemma demo_effect_at: "effect_at (demo_ledger s) i = (if i = 7 then Some (demo_effect s) else None)"
  by (simp add: effect_at_def demo_ledger_def insert_effect_def dm_simps empty_indexes_def)

lemma demo_ledger_inv: "ledger_inv X (demo_ledger s)"
proof -
  have "indexes_ok X empty_indexes"
    using ledger_inv_empty [of "ledger_on demo_wal empty_indexes" X] by (simp add: ledger_inv_def)
  then have "indexes_ok X (lg_indexes (demo_ledger s))"
    by (simp add: demo_ledger_def indexes_ok_insert_effect effect_fits_def empty_indexes_def)
  moreover have "effect_wf (lg_indexes (demo_ledger s)) (demo_effect s)"
    by (simp add: effect_wf_def demo_effect_def)
  ultimately show ?thesis
    using demo_effect_at [of s]
    by (auto simp: ledger_inv_def effect_at_def checkpoints_bounded_def split: if_splits)
      (simp add: demo_ledger_def empty_indexes_def insert_effect_def run_checkpoints_def)+
qed

lemma demo_ledger_fresh: "oi_id oi \<noteq> 7 \<Longrightarrow> fresh_input oi (demo_ledger s)"
  using demo_effect_at [of s]
  by (auto simp: fresh_input_def effect_at_def i64_max_def split: if_splits)
    (simp_all add: demo_ledger_def insert_effect_def empty_indexes_def run_events_def)

theorem ledger_refines_lifecycle_witness:
  "\<exists>r lg'. ledger_op_exec demo_ext demo_serde (demo_input 9500 8) (OpAcquire demo_scope ''key-0001'' demo_acquire)
      (demo_ledger Claimed) = (r, lg') \<and>
    (effect_at lg' 7 = Some (demo_effect Claimed) \<or> effect_step 9500 (Some (demo_effect Claimed)) (effect_at lg' 7))"
proof -
  obtain r lg' where e: "ledger_op_exec demo_ext demo_serde (demo_input 9500 8)
      (OpAcquire demo_scope ''key-0001'' demo_acquire) (demo_ledger Claimed) = (r, lg')" by fastforce
  have "fresh_input (demo_input 9500 8) (demo_ledger Claimed)" by (rule demo_ledger_fresh) simp
  from ledger_refines_lifecycle [OF demo_ledger_inv this e, of 7] e show ?thesis by (auto simp: demo_effect_at)
qed

section \<open>Outcomes are replayed\<close>

lemma key_in_effect:
  "key_in scope (er_scope e) (er_idempotency_key e) = effect_key_of e \<longleftrightarrow>
     sc_tenant_id scope = er_tenant_id e \<and> sc_project_id scope = er_project_id e"
  by (auto simp: key_in_def effect_key_of_def)

text \<open>A request for an existing effect that passes validation.\<close>

definition matching :: "ext \<Rightarrow> ledger \<Rightarrow> tenant_scope \<Rightarrow> string \<Rightarrow> acquire_request \<Rightarrow> effect_record \<Rightarrow> bool" where
  "matching X lg scope key req e \<longleftrightarrow>
     er_tenant_id e = sc_tenant_id scope \<and> er_project_id e = sc_project_id scope \<and> er_scope e = aq_scope req \<and>
     er_idempotency_key e = key \<and> er_tool_name e = aq_tool_name req \<and> er_input_digest e = input_digest X (aq_input req) \<and>
     validate_effect_fields (aq_scope req) key (aq_tool_name req) = Inr () \<and>
     \<not> isl (resolve_lease_ms lg (aq_lease_duration_seconds req) ''lease_duration_seconds'')"

lemma acquire_existing:
  assumes inv: "ledger_inv X lg" and e: "effect_at lg i = Some e" and m: "matching X lg scope key req e"
  obtains lease_ms where "resolve_lease_ms lg (aq_lease_duration_seconds req) ''lease_duration_seconds'' = Inr lease_ms"
    "acquire_plan X oi scope key req lease_ms (input_digest X (aq_input req)) lg = Inr (plan_existing X oi req lease_ms e)"
proof -
  have "er_id e = i" using effects_okD(1) [OF ledger_invD(2) [OF inv]] e by (simp add: effect_at_def)
  then have ex: "existing_effect (lg_indexes lg) (key_in scope (aq_scope req) key) = Some e"
    using existing_effect_ok(1) [OF ledger_invD(2) [OF inv]] e m key_in_effect [of scope e]
    by (simp add: effect_at_def matching_def)
  obtain l where l: "resolve_lease_ms lg (aq_lease_duration_seconds req) ''lease_duration_seconds'' = Inr l"
    using m by (auto simp: matching_def isl_def) (metis sum.exhaust)
  have "acquire_plan X oi scope key req l (input_digest X (aq_input req)) lg = Inr (plan_existing X oi req l e)"
    using ex m by (simp add: acquire_plan_def key_in_def matching_def Let_def)
  with l show ?thesis by (rule that)
qed

lemma acquire_decide:
  assumes inv: "ledger_inv X lg" and e: "effect_at lg i = Some e" and m: "matching X lg scope key req e"
    and d: "\<And>l. plan_existing X oi req l e = Decide d"
  shows "acquire X K oi scope key req lg = (Inr d, lg\<lparr>lg_counters := bump_acquire (dc_decision d) (lg_counters lg)\<rparr>)"
proof -
  obtain l where "resolve_lease_ms lg (aq_lease_duration_seconds req) ''lease_duration_seconds'' = Inr l"
    "acquire_plan X oi scope key req l (input_digest X (aq_input req)) lg = Inr (plan_existing X oi req l e)"
    by (rule acquire_existing [OF inv e m])
  with m d show ?thesis by (simp add: acquire_def matching_def)
qed

text \<open>
  C8: Outcomes are replayed.  Once an effect is committed, failed for good or reconciled, then
  after any operations other than retention a request with its key and input gets its stored
  outcome back with \<open>replay\<close>, and nothing but the request counter changes.
\<close>

theorem terminal_outcome_replayed:
  assumes "ledger_inv X lg" "inputs_ok X K ops lg" "effect_at lg i = Some e" "is_retention_terminal (er_state e)"
    and "\<forall>(oi, op) \<in> set ops. op_scope op \<noteq> None"
    and "matching X (run_ops X K ops lg) scope key req e"
  defines "lg' \<equiv> run_ops X K ops lg"
  shows "effect_at lg' i = Some e \<and> acquire X K oi scope key req lg' =
    (Inr (read_decision Replay e), lg'\<lparr>lg_counters := bump_acquire Replay (lg_counters lg')\<rparr>)"
proof -
  have inv: "ledger_inv X lg'" unfolding lg'_def by (rule run_ops_inv [OF assms(1,2)])
  have e: "effect_at lg' i = Some e"
    unfolding lg'_def
  proof (rule run_ops_effect_induct [OF _ assms(1,2), where P = "\<lambda>x. x = Some e"])
    fix oi op lg
    assume h: "(oi, op) \<in> set ops" "ledger_inv X lg" "fresh_input oi lg" "effect_at lg i = Some e"
    have "op_scope op \<noteq> None" using assms(5) h(1) by auto
    from op_keeps [OF h(2,3) this h(4), where K = K] terminal_no_step assms(4)
    show "effect_at (snd (ledger_op_exec X K oi op lg)) i = Some e" by metis
  qed (rule assms(3))
  have "plan_existing X oi req l e = Decide (read_decision Replay e)" for l
    using assms(4) by (cases "er_state e") (simp_all add: plan_existing_def Let_def)
  from acquire_decide [OF inv e _ this, of scope key K] assms(6) e show ?thesis
    by (simp add: lg'_def read_decision_def)
qed

lemma demo_matching:
  assumes "lg_default_lease lg = DEFAULT_LEASE" "lg_min_lease lg = MIN_LEASE" "lg_max_lease lg = MAX_LEASE"
  shows "matching demo_ext lg demo_scope ''key-0001'' demo_acquire (demo_effect s)"
  using assms by (simp add: matching_def demo_scope_def demo_acquire_def demo_effect_def validate_effect_fields_def
      char_in_def resolve_lease_ms_def DEFAULT_LEASE_def MIN_LEASE_def MAX_LEASE_def from_secs_def Let_def)

lemma demo_ledger_lease [simp]: "lg_default_lease (demo_ledger s) = DEFAULT_LEASE"
  "lg_min_lease (demo_ledger s) = MIN_LEASE" "lg_max_lease (demo_ledger s) = MAX_LEASE"
  by (simp_all add: demo_ledger_def ledger_on_def)

theorem terminal_outcome_replayed_witness:
  "\<exists>lg. lg = run_ops demo_ext demo_serde [(demo_input 5000 8, OpAcquire demo_scope ''key-0001'' demo_acquire)]
      (demo_ledger Committed) \<and>
    fst (acquire demo_ext demo_serde (demo_input 6000 9) demo_scope ''key-0001'' demo_acquire lg) =
      Inr (read_decision Replay (demo_effect Committed))"
proof -
  let ?ops = "[(demo_input 5000 8, OpAcquire demo_scope ''key-0001'' demo_acquire)]"
  have ok: "inputs_ok demo_ext demo_serde ?ops (demo_ledger Committed)" by (simp add: demo_ledger_fresh)
  have e: "effect_at (demo_ledger Committed) 7 = Some (demo_effect Committed)" by (simp add: demo_effect_at)
  have m: "matching demo_ext (demo_ledger Committed) demo_scope ''key-0001'' demo_acquire (demo_effect Committed)"
    by (rule demo_matching) simp_all
  have "acquire demo_ext demo_serde (demo_input 5000 8) demo_scope ''key-0001'' demo_acquire (demo_ledger Committed) =
      (Inr (read_decision Replay (demo_effect Committed)),
       (demo_ledger Committed)\<lparr>lg_counters := bump_acquire Replay (lg_counters (demo_ledger Committed))\<rparr>)"
    using terminal_outcome_replayed [where X = demo_ext and ops = "[]" and K = demo_serde and oi = "demo_input 5000 8"
        and scope = demo_scope and key = "''key-0001''" and req = demo_acquire, OF demo_ledger_inv _ e] m by simp
  then have "matching demo_ext (run_ops demo_ext demo_serde ?ops (demo_ledger Committed)) demo_scope ''key-0001''
      demo_acquire (demo_effect Committed)"
    by (intro demo_matching) (simp_all add: drop_value_def)
  from terminal_outcome_replayed [OF demo_ledger_inv ok e _ _ this, where oi = "demo_input 6000 9"] show ?thesis by simp
qed

section \<open>At most one execution\<close>

text \<open>
  The states from which the ledger never grants execution again by itself: an effect leaves them
  for a new grant only when a worker holding the lease reports a retryable failure.
\<close>

definition settled :: "effect_status \<Rightarrow> bool" where
  "settled s \<longleftrightarrow> s \<noteq> Claimed \<and> s \<noteq> FailedRetryable"

definition reports_retryable :: "uuid \<Rightarrow> ledger_op \<Rightarrow> bool" where
  "reports_retryable i op \<longleftrightarrow> (\<exists>scope req caps. op = OpTransition scope i req caps \<and> up_transition req = FailRetryable)"

lemma applied_effect_at:
  assumes inv: "ledger_inv X lg" and a: "applied X K oi sc kind lg lg'"
  shows "effect_at lg' i =
    (case kind of EffectApplied e _ \<Rightarrow> if i = er_id e then Some e else effect_at lg i
     | RetentionApplied _ _ es \<Rightarrow> if i \<in> set es then None else effect_at lg i
     | _ \<Rightarrow> effect_at lg i)"
proof -
  obtain ix where ix: "same_data (lg_indexes lg) ix" "kind_fits X ix kind" "lg_indexes lg' = snd (indexes_apply X kind ix)"
    using a by (auto simp: applied_def simp del: kind_fits.simps kind_legal.simps indexes_apply.simps)
  have ok: "indexes_ok X ix" by (rule indexes_ok_same [OF ix(1) ledger_invD(1) [OF inv]])
  show ?thesis
    unfolding effect_at_def ix(3) applied_effects [OF ok ix(2)] same_data_sel(4) [OF ix(1)] ..
qed

lemma same_effect_at: "same_data (lg_indexes lg) (lg_indexes lg') \<Longrightarrow> effect_at lg' i = effect_at lg i"
  by (simp add: effect_at_def same_data_sel)

text \<open>Operations on runs do not touch effects.\<close>

lemma run_op_effects:
  assumes inv: "ledger_inv X lg" and fresh: "fresh_input oi lg" and sc: "op_scope op \<noteq> None"
    and op: "\<And>scope key req. op \<noteq> OpAcquire scope key req" "\<And>scope i req caps. op \<noteq> OpTransition scope i req caps"
  shows "effect_at (snd (ledger_op_exec X K oi op lg)) i = effect_at lg i"
proof -
  note at = applied_effect_at [OF inv] same_effect_at
  show ?thesis
  proof (cases op)
    case (OpCreateRun scope req)
    obtain r lg' where a: "create_run X K oi scope req lg = (r, lg')" by fastforce
    show ?thesis using create_run_cases [OF inv fresh a] by (auto simp: OpCreateRun a drop_value_def at)
  next
    case (OpUpdateRun scope j req v)
    obtain r lg' where a: "update_run X K oi scope j req v lg = (r, lg')" by fastforce
    show ?thesis using update_run_cases [OF inv a] by (auto simp: OpUpdateRun a drop_value_def at)
  next
    case (OpForkRun scope j req)
    obtain r lg' where a: "fork_run X K oi scope j req lg = (r, lg')" by fastforce
    show ?thesis using fork_run_cases [OF inv fresh a] by (auto simp: OpForkRun a drop_value_def at)
  next
    case (OpAppendEvent scope j req)
    obtain r lg' where a: "append_event X K oi scope j req lg = (r, lg')" by fastforce
    show ?thesis using append_event_cases [OF inv fresh a] by (auto simp: OpAppendEvent a drop_value_def at)
  next
    case (OpCreateCheckpoint scope j req v)
    obtain r lg' where a: "create_checkpoint X K oi scope j req v lg = (r, lg')" by fastforce
    show ?thesis using create_checkpoint_cases [OF inv a] by (auto simp: OpCreateCheckpoint a drop_value_def at)
  qed (use sc op in auto)
qed

text \<open>Only a transition changes an effect to a retryable failure.\<close>

lemma acquire_state:
  assumes "ledger_inv X lg" "fresh_input oi lg" "acquire X K oi scope key req lg = (r, lg')"
    and "effect_at lg' i = Some e'" "effect_at lg i \<noteq> Some e'"
  shows "er_state e' = Claimed \<or> er_state e' = OutcomeUnknown"
  using acquire_cases [OF assms(1-3)]
proof (elim disjE exE conjE)
  fix l n t detail d tok evo
  assume p: "acquire_plan X oi scope key req l (input_digest X (aq_input req)) lg = Inr (ApplyPlan n t detail d tok)"
    and a: "applied X K oi (Some scope) (EffectApplied n evo) lg lg'"
  have e': "e' = n" using applied_effect_at [OF assms(1) a, of i] assms(4,5) by (simp split: if_splits)
  show ?thesis
  proof (cases "existing_effect (lg_indexes lg) (key_in scope (aq_scope req) key)")
    case None
    then show ?thesis using acquire_plan_new(1) [OF p] by (simp add: e' new_effect_def)
  next
    case (Some old)
    have "plan_existing X oi req l old = ApplyPlan n t detail d tok" using acquire_plan_old(1) [OF p Some] by simp
    from plan_existing_cases [OF this] show ?thesis
      by (auto simp: e' reacquire_def expire_in_progress_def Let_def)
  qed
qed (use assms(4,5) same_effect_at in auto)

lemma retryable_reported:
  assumes inv: "ledger_inv X lg" and fresh: "fresh_input oi lg" and sc: "op_scope op \<noteq> None"
    and e: "effect_at lg i = Some e" "effect_at (snd (ledger_op_exec X K oi op lg)) i = Some e'"
    and s: "settled (er_state e)" "\<not> settled (er_state e')"
  shows "reports_retryable i op"
proof -
  let ?lg = "snd (ledger_op_exec X K oi op lg)"
  have ne: "effect_at lg i \<noteq> Some e'" using s e by auto
  have "effect_step (oi_now oi) (Some e) (Some e')"
    using op_effect_step [OF inv fresh, of K op i] e ne by auto
  then have st: "er_state e' = FailedRetryable"
    using s by (auto simp: settled_def leased_def elim!: effect_step_SomeE)
  have not_acquire: "op \<noteq> OpAcquire scope key req" for scope key req
  proof
    assume o: "op = OpAcquire scope key req"
    obtain r lg' where a: "acquire X K oi scope key req lg = (r, lg')" by fastforce
    from acquire_state [OF inv fresh a _ ne] e(2) st show False by (simp add: o a drop_value_def)
  qed
  then obtain scope j req caps where o: "op = OpTransition scope j req caps"
    using run_op_effects [OF inv fresh sc, of K i] e(2) ne by metis
  obtain r lg' where a: "transition X K oi scope j req caps lg = (r, lg')" by fastforce
  have lg': "effect_at lg' i = Some e'" using e(2) by (simp add: o a drop_value_def)
  from transition_cases [OF inv fresh a] show ?thesis
  proof (elim disjE exE conjE)
    fix x n evo
    assume t: "transition_ok X scope j req caps (oi_now oi) lg x n" and ap: "applied X K oi (Some scope) (EffectApplied n evo) lg lg'"
    have n: "e' = n" "i = er_id n" using applied_effect_at [OF inv ap, of i] lg' ne by (simp_all split: if_splits)
    from t have x: "effect_at lg j = Some x" "same_identity x n" "er_state n = target (up_transition req) (er_state x)"
      "legal_transition (up_transition req) (er_state x)"
      by (auto simp: transition_ok_def effect_in_scope_Inr effect_at_def dest: next_effect_fields)
    have "j = i" using x(1,2) n(2) effects_okD(1) [OF ledger_invD(2) [OF inv], of j x]
      by (simp add: effect_at_def same_identity_def)
    moreover have "up_transition req = FailRetryable"
      using x(3,4) st n(1) by (cases "up_transition req"; cases "er_state x") auto
    ultimately show ?thesis by (simp add: reports_retryable_def o)
  qed (use lg' ne same_effect_at in auto)
qed

lemma plan_existing_decide: "plan_existing X oi req l e = Decide d \<Longrightarrow> dc_decision d \<noteq> Execute"
  by (auto simp: plan_existing_def reacquire_plan_def read_decision_def wait_decision_def Let_def
      split: effect_status.splits if_splits prod.splits)



end
