(* ===== verification/Ledger_Guarantees.thy ===== *)
theory Ledger_Guarantees
  imports Ledger_Safety
begin

text \<open>
  What single requests of the ledger guarantee: fencing of stale workers, what a grant of
  execution is worth, live leases, isolation of tenants, conflicts of idempotency keys, bounds of
  forks, and what retention removes.
\<close>

section \<open>Fencing\<close>

lemma run_ops_fencing:
  assumes "ledger_inv X lg" "inputs_ok X K ops lg" "effect_at lg i = Some e" "i \<notin> oi_id ` fst ` set ops"
  shows "effect_at (run_ops X K ops lg) i = None \<or>
    (\<exists>e'. effect_at (run_ops X K ops lg) i = Some e' \<and> same_identity e e' \<and> er_fencing_token e \<le> er_fencing_token e')"
proof (rule run_ops_effect_induct [OF _ assms(1,2), where P = "\<lambda>x. x = None \<or>
    (\<exists>e'. x = Some e' \<and> same_identity e e' \<and> er_fencing_token e \<le> er_fencing_token e')"])
  fix oi op lg
  assume h: "(oi, op) \<in> set ops" "ledger_inv X lg" "fresh_input oi lg"
    and P: "effect_at lg i = None \<or>
      (\<exists>e'. effect_at lg i = Some e' \<and> same_identity e e' \<and> er_fencing_token e \<le> er_fencing_token e')"
  let ?x = "effect_at (snd (ledger_op_exec X K oi op lg)) i"
  have i: "i \<noteq> oi_id oi" using assms(4) h(1) by force
  show "?x = None \<or> (\<exists>e'. ?x = Some e' \<and> same_identity e e' \<and> er_fencing_token e \<le> er_fencing_token e')"
  proof (cases "effect_at lg i")
    case None
    then show ?thesis using op_creates [OF h(2,3) None i] by simp
  next
    case (Some a)
    with P have a: "same_identity e a" "er_fencing_token e \<le> er_fencing_token a" by simp_all
    show ?thesis
    proof (cases ?x)
      case (Some b)
      with op_effect_step [OF h(2,3), of K op i] \<open>effect_at lg i = Some a\<close>
      have "b = a \<or> effect_step (oi_now oi) (Some a) (Some b)" by auto
      then have "same_identity a b" "er_fencing_token a \<le> er_fencing_token b"
        using step_identity step_fencing by (auto simp: same_identity_def) fastforce+
      with a Some show ?thesis by (auto simp: same_identity_def)
    qed simp
  qed
qed (use assms(3) in \<open>simp add: same_identity_def\<close>)

text \<open>
  C7: Stale workers are fenced off.  A worker that was granted an effect with some fencing token
  and comes back after any operations in which the effect was granted again (its token is another
  one now) cannot change anything: its request fails, with the stale-token error for the owner,
  and the ledger is untouched.  Tokens of an effect never decrease, so the token it holds never
  becomes current again.
\<close>

theorem stale_worker_fenced:
  assumes "ledger_inv X lg" "inputs_ok X K ops lg" "effect_at lg i = Some e" "i \<notin> oi_id ` fst ` set ops"
    and "effect_at (run_ops X K ops lg) i = Some e'" "er_fencing_token e' \<noteq> er_fencing_token e"
    and "up_fencing_token req = er_fencing_token e"
  defines "lg' \<equiv> run_ops X K ops lg"
  shows "er_fencing_token e < er_fencing_token e' \<and>
    transition X K oi scope i req caps lg' =
      (Inl (if er_tenant_id e = sc_tenant_id scope \<and> er_project_id e = sc_project_id scope
            then StaleFencingToken (er_fencing_token e') (er_fencing_token e)
            else NotFound ''effect'' (uuid_to_string X i)), lg')"
proof -
  have "same_identity e e'" "er_fencing_token e < er_fencing_token e'"
    using run_ops_fencing [OF assms(1-4)] assms(5,6) by auto
  with assms(5-7) show ?thesis
    by (auto simp: transition_def effect_in_scope_def effect_at_def lg'_def same_identity_def)
qed

definition demo_update :: "effect_transition \<Rightarrow> int \<Rightarrow> string \<Rightarrow> update_request" where
  "demo_update t f token = \<lparr>up_transition = t, up_lease_token = Some token, up_fencing_token = f,
     up_lease_duration_seconds = None, up_result = Some JNull, up_external_receipt = None, up_failure = None\<rparr>"

text \<open>The concrete ledger after the key of an effect with an expired claim was acquired again.\<close>

lemma demo_reacquired:
  obtains lg e d where
    "acquire demo_ext demo_serde (demo_input 9500 8) demo_scope ''key-0001'' demo_acquire (demo_ledger Claimed) = (Inr d, lg)"
    "dc_decision d = Execute" "effect_at lg 7 = Some e" "er_fencing_token e = 4" "wal_ready demo_ext 1000 lg"
proof -
  let ?lg = "demo_ledger Claimed"
  have ready: "wal_ready demo_ext (Suc 1000) ?lg" unfolding demo_ledger_def by (rule demo_ready) simp
  have inv: "ledger_inv demo_ext ?lg" by (rule demo_ledger_inv)
  have e: "effect_at ?lg 7 = Some (demo_effect Claimed)" by (simp add: demo_effect_at)
  have m: "matching demo_ext ?lg demo_scope ''key-0001'' demo_acquire (demo_effect Claimed)"
    by (rule demo_matching) simp_all
  obtain l where l: "resolve_lease_ms ?lg (aq_lease_duration_seconds demo_acquire) ''lease_duration_seconds'' = Inr l"
    "acquire_plan demo_ext (demo_input 9500 8) demo_scope ''key-0001'' demo_acquire l
      (input_digest demo_ext (aq_input demo_acquire)) ?lg =
      Inr (plan_existing demo_ext (demo_input 9500 8) demo_acquire l (demo_effect Claimed))"
    by (rule acquire_existing [OF inv e m])
  obtain n tok where n: "reacquire demo_ext (demo_input 9500 8) (demo_effect Claimed) demo_acquire l 9500 = (n, tok)"
    by fastforce
  have plan: "plan_existing demo_ext (demo_input 9500 8) demo_acquire l (demo_effect Claimed) =
      ApplyPlan n ''effect.reacquired'' (JObject [(''from'', JString ''claimed''), (''to'', JString ''claimed''),
        (''reason'', JString ''lease_expired'')]) Execute tok"
    using n by (simp add: plan_existing_def demo_effect_def leased_def reacquire_plan_def)
  have fields: "er_id n = 7" "er_fencing_token n = 4" "er_run_id n = None" "effect_key_of n = effect_key_of (demo_effect Claimed)"
    using n by (auto simp: reacquire_def Let_def effect_key_of_def i64_add_eq in_i64_def i64_min_def i64_max_def)
  have fits: "kind_fits demo_ext (lg_indexes ?lg) (EffectApplied n None)"
    using e fields by (simp add: effect_fits_def effect_at_def)
  have len: "length ''r'' < 2 ^ 32" by simp
  obtain lg' where p: "persist demo_ext demo_serde (demo_input 9500 8) (EffectApplied n None) ?lg = (Inr (), lg')"
    "wal_ready demo_ext 1000 lg'"
    "lg_indexes lg' = snd (indexes_apply demo_ext (EffectApplied n None) (lg_indexes ?lg))"
    by (rule persist_good [OF ready demo_healthy demo_encodes len ledger_invD(1) [OF inv] fits])
  have a: "acquire demo_ext demo_serde (demo_input 9500 8) demo_scope ''key-0001'' demo_acquire ?lg =
      (Inr \<lparr>dc_decision = Execute, dc_effect = view_effect n, dc_lease_token = tok, dc_poll_after_ms = None\<rparr>,
       lg'\<lparr>lg_counters := bump_acquire Execute (lg_counters lg')\<rparr>)"
    using m l p(1) fields(3) by (simp add: acquire_def matching_def plan build_effect_event_def)
  show ?thesis
    by (rule that [OF a, of n]) (use p(2,3) fields in \<open>simp_all add: effect_at_def insert_effect_def dm_simps\<close>)
qed

theorem stale_worker_fenced_witness:
  "\<exists>lg. lg = run_ops demo_ext demo_serde [(demo_input 9500 8, OpAcquire demo_scope ''key-0001'' demo_acquire)]
      (demo_ledger Claimed) \<and>
    transition demo_ext demo_serde (demo_input 9600 9) demo_scope 7 (demo_update Commit 3 ''lease_old'')
      \<lparr>can_reconcile = False, can_admin = False\<rparr> lg = (Inl (StaleFencingToken 4 3), lg)"
proof -
  obtain lg e d where a:
    "acquire demo_ext demo_serde (demo_input 9500 8) demo_scope ''key-0001'' demo_acquire (demo_ledger Claimed) = (Inr d, lg)"
    "effect_at lg 7 = Some e" "er_fencing_token e = 4"
    by (rule demo_reacquired)
  let ?ops = "[(demo_input 9500 8, OpAcquire demo_scope ''key-0001'' demo_acquire)]"
  have ops: "inputs_ok demo_ext demo_serde ?ops (demo_ledger Claimed)" by (simp add: demo_ledger_fresh)
  have lg: "run_ops demo_ext demo_serde ?ops (demo_ledger Claimed) = lg" by (simp add: a(1) drop_value_def)
  have "effect_at (demo_ledger Claimed) 7 = Some (demo_effect Claimed)" by (simp add: demo_effect_at)
  from stale_worker_fenced [OF demo_ledger_inv ops this, unfolded lg, where e' = e
      and req = "demo_update Commit 3 ''lease_old''" and oi = "demo_input 9600 9" and scope = demo_scope
      and caps = "\<lparr>can_reconcile = False, can_admin = False\<rparr>"] a
  show ?thesis by (simp add: lg drop_value_def demo_update_def demo_scope_def)
qed

section \<open>Grants and leases\<close>

lemma resolve_lease_bounds:
  assumes "resolve_lease_ms lg s f = Inr l"
  shows "min (int (lg_min_lease lg div 1000000)) i64_max \<le> l \<and> l \<le> int (lg_max_lease lg div 1000000)"
proof -
  define n where "n = (case s of None \<Rightarrow> lg_default_lease lg | Some s \<Rightarrow> from_secs s)"
  have n: "lg_min_lease lg \<le> n" "n \<le> lg_max_lease lg"
    "l = (if in_i64 (int (n div 1000000)) then int (n div 1000000) else i64_max)"
    using assms by (simp_all add: resolve_lease_ms_def Let_def n_def [symmetric] split: if_splits)
  have "lg_min_lease lg div 1000000 \<le> n div 1000000" "n div 1000000 \<le> lg_max_lease lg div 1000000"
    using n(1,2) by (simp_all add: div_le_mono)
  then show ?thesis using n(3) by (auto simp: in_i64_def i64_min_def min_def split: if_splits)
qed

text \<open>
  C10: What a grant of execution is.  When \<open>acquire\<close> returns \<open>execute\<close>, the effect now stored under
  the key is claimed, with the digest of the returned lease token, the digest of the requested
  input and a lease within the configured bounds; and before, the key was free (the token is then
  1), or its effect had failed in a retryable way or its claim had run out (the token is then one
  more than before).
\<close>

theorem execute_grant:
  assumes inv: "ledger_inv X lg" and fresh: "fresh_input oi lg"
    and a: "acquire X K oi scope key req lg = (Inr d, lg')" and d: "dc_decision d = Execute"
  shows "\<exists>e token l. dc_lease_token d = Some token \<and> dc_effect d = view_effect e \<and>
    effect_at lg' (er_id e) = Some e \<and> effect_key_of e = key_in scope (aq_scope req) key \<and>
    er_input_digest e = input_digest X (aq_input req) \<and> er_state e = Claimed \<and>
    er_lease_token_digest e = Some (sha256_digest X token) \<and>
    er_lease_expires_at_ms e = Some (i64_add (oi_now oi) l) \<and>
    min (int (lg_min_lease lg div 1000000)) i64_max \<le> l \<and> l \<le> int (lg_max_lease lg div 1000000) \<and>
    (case effect_at lg (er_id e) of
       None \<Rightarrow> existing_effect (lg_indexes lg) (effect_key_of e) = None \<and> er_fencing_token e = 1
     | Some old \<Rightarrow> er_fencing_token e = er_fencing_token old + 1 \<and>
         (er_state old = FailedRetryable \<or> er_state old = Claimed \<and> lease_over (oi_now oi) old))"
  using acquire_cases [OF inv fresh a]
proof (elim disjE exE conjE)
  fix l dec
  assume "acquire_plan X oi scope key req l (input_digest X (aq_input req)) lg = Inr (Decide dec)" "Inr d = Inr dec"
  then have "dc_decision d \<noteq> Execute"
    by (auto simp: acquire_plan_def Let_def split: option.splits sum.splits if_splits dest: plan_existing_decide)
  with d show ?thesis by simp
next
  fix l n t detail dd tok evo
  assume l: "resolve_lease_ms lg (aq_lease_duration_seconds req) ''lease_duration_seconds'' = Inr l"
    and p: "acquire_plan X oi scope key req l (input_digest X (aq_input req)) lg = Inr (ApplyPlan n t detail dd tok)"
    and r: "Inr d = Inr \<lparr>dc_decision = dd, dc_effect = view_effect n, dc_lease_token = tok, dc_poll_after_ms = None\<rparr>"
    and ap: "applied X K oi (Some scope) (EffectApplied n evo) lg lg'"
  have at: "effect_at lg' (er_id n) = Some n" using applied_effect_at [OF inv ap] by simp
  note b = resolve_lease_bounds [OF l]
  let ?tok = "generate_lease_token X (oi_token1 oi) (oi_token2 oi)"
  show ?thesis
  proof (cases "existing_effect (lg_indexes lg) (key_in scope (aq_scope req) key)")
    case None
    note n = acquire_plan_new(1-3) [OF p None]
    have "effect_at lg (er_id n) = None" using fresh by (simp add: n(1) new_effect_def effect_at_def fresh_input_def)
    moreover have "effect_key_of n = key_in scope (aq_scope req) key"
      by (simp add: n(1) new_effect_def effect_key_of_def key_in_def)
    ultimately show ?thesis
      using r at b None by (intro exI [of _ n] exI [of _ ?tok] exI [of _ l]) (simp add: n(1,3), simp add: new_effect_def)
  next
    case (Some old)
    have old: "effect_at lg (er_id old) = Some old" "effect_key_of old = key_in scope (aq_scope req) key"
      using existing_effect_ok(1) [OF ledger_invD(2) [OF inv]] Some by (auto simp: effect_at_def)
    have "plan_existing X oi req l old = ApplyPlan n t detail dd tok" using acquire_plan_old(1) [OF p Some] by simp
    from plan_existing_cases [OF this] r d
    have c: "er_state old = FailedRetryable \<or> er_state old = Claimed \<and> lease_over (oi_now oi) old"
      and n: "(n, tok) = reacquire X oi old req l (oi_now oi)" by auto
    have f: "i64_add (er_fencing_token old) 1 = er_fencing_token old + 1"
      using fencing_step [OF fresh inv] old(1) by (simp add: effect_at_def)
    have nf: "er_id n = er_id old" "effect_key_of n = effect_key_of old" "er_fencing_token n = er_fencing_token old + 1"
      "er_state n = Claimed" "er_lease_expires_at_ms n = Some (i64_add (oi_now oi) l)" "tok = Some ?tok"
      "er_lease_token_digest n = Some (sha256_digest X ?tok)" "er_input_digest n = input_digest X (aq_input req)"
      using n f acquire_plan_old(2) [OF p Some] by (auto simp: reacquire_def Let_def effect_key_of_def)
    show ?thesis
      using r at b c nf old by (intro exI [of _ n] exI [of _ ?tok] exI [of _ l]) simp
  qed
qed simp

theorem execute_grant_witness:
  "\<exists>d lg e token. acquire demo_ext demo_serde (demo_input 9500 8) demo_scope ''key-0001'' demo_acquire (demo_ledger Claimed) =
      (Inr d, lg) \<and> dc_lease_token d = Some token \<and> effect_at lg (er_id e) = Some e \<and>
    er_lease_token_digest e = Some (sha256_digest demo_ext token)"
proof -
  obtain lg d where a:
    "acquire demo_ext demo_serde (demo_input 9500 8) demo_scope ''key-0001'' demo_acquire (demo_ledger Claimed) = (Inr d, lg)"
    "dc_decision d = Execute" by (rule demo_reacquired)
  have "fresh_input (demo_input 9500 8) (demo_ledger Claimed)" by (rule demo_ledger_fresh) simp
  from execute_grant [OF demo_ledger_inv this a] a(1) show ?thesis by blast
qed

text \<open>
  C11: A live lease excludes everyone else.  While the lease of a claimed or started effect has not
  run out, every matching request gets \<open>wait\<close> with a positive time to poll after, and the effect
  stays as it is; so two workers never hold leases of one effect at once.
\<close>

theorem live_lease_waits:
  assumes inv: "ledger_inv X lg" and e: "effect_at lg i = Some e" "leased (er_state e)" "\<not> lease_over (oi_now oi) e"
    and m: "matching X lg scope key req e"
  shows "\<exists>poll. 1 \<le> poll \<and> acquire X K oi scope key req lg =
    (Inr \<lparr>dc_decision = Wait, dc_effect = view_effect e, dc_lease_token = None, dc_poll_after_ms = Some poll\<rparr>,
     lg\<lparr>lg_counters := bump_acquire Wait (lg_counters lg)\<rparr>)"
proof -
  obtain x where x: "er_lease_expires_at_ms e = Some x" "oi_now oi < x"
    using e(3) by (cases "er_lease_expires_at_ms e") (auto simp: lease_over_def)
  have "plan_existing X oi req l e = Decide (wait_decision e x (oi_now oi))" for l
    using e(2) x by (auto simp: plan_existing_def leased_def Let_def)
  from acquire_decide [OF inv e(1) m this, of K] show ?thesis
    by (intro exI [of _ "max (if 0 \<le> i64_sub x (oi_now oi) then nat (i64_sub x (oi_now oi)) else 0) 1"])
      (simp add: wait_decision_def)
qed

theorem live_lease_waits_witness:
  "\<exists>poll. 1 \<le> poll \<and> fst (acquire demo_ext demo_serde (demo_input 5000 8) demo_scope ''key-0001'' demo_acquire
      (demo_ledger InProgress)) =
    Inr \<lparr>dc_decision = Wait, dc_effect = view_effect (demo_effect InProgress), dc_lease_token = None,
      dc_poll_after_ms = Some poll\<rparr>"
proof -
  have e: "effect_at (demo_ledger InProgress) 7 = Some (demo_effect InProgress)" by (simp add: demo_effect_at)
  have l: "leased (er_state (demo_effect InProgress))" by (simp add: leased_def)
  have o: "\<not> lease_over (oi_now (demo_input 5000 8)) (demo_effect InProgress)"
    by (simp add: lease_over_def demo_effect_def leased_def)
  have m: "matching demo_ext (demo_ledger InProgress) demo_scope ''key-0001'' demo_acquire (demo_effect InProgress)"
    by (rule demo_matching) simp_all
  from live_lease_waits [OF demo_ledger_inv e l o m, of demo_serde] show ?thesis by auto
qed

text \<open>
  C12: An idempotency key binds its input.  A valid request whose key is in use for another input
  digest or another tool is refused with the conflict error, which names both digests, and nothing
  changes.
\<close>

theorem idempotency_conflict:
  assumes inv: "ledger_inv X lg" and e: "effect_at lg i = Some e" "key_in scope (aq_scope req) key = effect_key_of e"
    and "er_input_digest e \<noteq> input_digest X (aq_input req) \<or> er_tool_name e \<noteq> aq_tool_name req"
    and "validate_effect_fields (aq_scope req) key (aq_tool_name req) = Inr ()"
    and "resolve_lease_ms lg (aq_lease_duration_seconds req) ''lease_duration_seconds'' = Inr l"
  shows "acquire X K oi scope key req lg =
    (Inl (IdempotencyConflict (aq_scope req) key (er_input_digest e) (input_digest X (aq_input req))), lg)"
proof -
  have "er_id e = i" using effects_okD(1) [OF ledger_invD(2) [OF inv]] e(1) by (simp add: effect_at_def)
  then have "existing_effect (lg_indexes lg) (key_in scope (aq_scope req) key) = Some e"
    using existing_effect_ok(1) [OF ledger_invD(2) [OF inv]] e by (simp add: effect_at_def)
  with assms(4-6) show ?thesis
    by (simp add: acquire_def acquire_plan_def Let_def key_in_def)
qed

theorem idempotency_conflict_witness:
  "\<exists>old new. acquire demo_ext demo_serde (demo_input 5000 8) demo_scope ''key-0001'' (demo_acquire\<lparr>aq_tool_name := ''refund''\<rparr>)
      (demo_ledger Committed) = (Inl (IdempotencyConflict ''pay'' ''key-0001'' old new), demo_ledger Committed)"
proof -
  have e: "effect_at (demo_ledger Committed) 7 = Some (demo_effect Committed)" by (simp add: demo_effect_at)
  obtain l where l: "resolve_lease_ms (demo_ledger Committed)
      (aq_lease_duration_seconds (demo_acquire\<lparr>aq_tool_name := ''refund''\<rparr>)) ''lease_duration_seconds'' = Inr l"
    by (simp add: demo_acquire_def resolve_lease_ms_def DEFAULT_LEASE_def MIN_LEASE_def MAX_LEASE_def from_secs_def Let_def)
  have "key_in demo_scope (aq_scope (demo_acquire\<lparr>aq_tool_name := ''refund''\<rparr>)) ''key-0001'' = effect_key_of (demo_effect Committed)"
    "er_tool_name (demo_effect Committed) \<noteq> aq_tool_name (demo_acquire\<lparr>aq_tool_name := ''refund''\<rparr>)"
    "validate_effect_fields (aq_scope (demo_acquire\<lparr>aq_tool_name := ''refund''\<rparr>)) ''key-0001''
      (aq_tool_name (demo_acquire\<lparr>aq_tool_name := ''refund''\<rparr>)) = Inr ()"
    by (simp_all add: key_in_def demo_scope_def demo_acquire_def demo_effect_def effect_key_of_def
        validate_effect_fields_def char_in_def)
  from idempotency_conflict [OF demo_ledger_inv e this(1) disjI2 [OF this(2)] this(3) l] show ?thesis
    by (auto simp: demo_acquire_def)
qed

section \<open>Isolation of tenants\<close>

definition run_data :: "indexes \<Rightarrow> uuid \<Rightarrow> run_record option \<times> event_record list \<times> checkpoint_record list" where
  "run_data ix i = (dm_get (ix_runs ix) i, run_events ix i, run_checkpoints ix i)"

lemma run_data_push: "i \<noteq> evr_run_id ev \<Longrightarrow> run_data (push_event ev ix) i = run_data ix i"
  by (simp add: run_data_def push_event_sel)

lemma run_data_insert_effect [simp]: "run_data (insert_effect e ix) i = run_data ix i"
  by (simp add: run_data_def) (simp add: insert_effect_def)

lemma run_data_insert_run: "i \<noteq> rr_id r \<Longrightarrow> run_data (insert_run r ix) i = run_data ix i"
  by (simp add: run_data_def) (simp add: insert_run_def dm_simps)

lemma event_owner:
  assumes "kind_legal oi sc ix (EffectApplied e (Some ev))"
  shows "run_owned sc ix (evr_run_id ev)"
proof -
  have "er_run_id e = Some (evr_run_id ev)" "effect_wf ix e" "owned sc (er_tenant_id e) (er_project_id e)"
    using assms by simp_all
  then show ?thesis by (auto simp: effect_wf_def run_owned_def)
qed

lemma applied_run_data:
  assumes fits: "kind_fits X ix kind" and legal: "kind_legal oi (Some scope) ix kind"
    and run: "dm_get (ix_runs ix) i = Some run" "\<not> owned (Some scope) (rr_tenant_id run) (rr_project_id run)"
  shows "run_data (snd (indexes_apply X kind ix)) i = run_data ix i"
proof -
  have other: "i \<noteq> j" if "run_owned (Some scope) ix j" for j
    using that run by (auto simp: run_owned_def)
  show ?thesis
  proof (cases kind)
    case (RunCreated r)
    then have "i \<noteq> rr_id r" using fits run(1) by auto
    then show ?thesis by (simp add: RunCreated run_data_insert_run)
  next
    case (RunUpdated r)
    then have "i \<noteq> rr_id r" using other [of "rr_id r"] legal by simp
    then show ?thesis by (simp add: RunUpdated run_data_insert_run)
  next
    case (EffectApplied e evo)
    show ?thesis
    proof (cases evo)
      case (Some ev)
      have "snd (indexes_apply X kind ix) = push_event ev (insert_effect e ix)"
        unfolding EffectApplied Some by (rule apply_event_push) (use fits EffectApplied Some in simp)
      moreover have "i \<noteq> evr_run_id ev" using other event_owner legal EffectApplied Some by metis
      ultimately show ?thesis by (simp add: run_data_push)
    qed (simp add: EffectApplied)
  next
    case (EventAppended ev)
    then show ?thesis
      using other [of "evr_run_id ev"] fits legal by (simp add: apply_event_next run_data_push)
  next
    case (CheckpointCreated c)
    then show ?thesis
      using other [of "cpr_run_id c"] legal
      by (auto simp: run_data_def Let_def run_events_def run_checkpoints_def dm_simps)
  qed (use legal in simp)
qed



section \<open>Timelines\<close>

lemma find_in_set: "find P xs = Some x \<Longrightarrow> x \<in> set xs"
  by (induction xs) (auto split: if_splits)

lemma fork_point_bounds:
  assumes "fork_point X i parent req lg = Inr sq" "checkpoints_bounded (lg_indexes lg)"
    and "rr_last_event_sequence parent = int (length (run_events (lg_indexes lg) i))"
  shows "0 \<le> sq \<and> sq \<le> int (length (run_events (lg_indexes lg) i))"
proof -
  consider s where "fk_from_event_sequence req = Some s" "fk_from_checkpoint_id req = None"
    | c where "fk_from_event_sequence req = None" "fk_from_checkpoint_id req = Some c"
    using assms(1) by (cases "fk_from_event_sequence req"; cases "fk_from_checkpoint_id req") (simp_all add: fork_point_def)
  then show ?thesis
  proof cases
    case 1
    then show ?thesis using assms(1,3) by (simp add: fork_point_def split: if_splits)
  next
    case 2
    then obtain cp where cp: "find (\<lambda>x. cpr_id x = c) (run_checkpoints (lg_indexes lg) i) = Some cp" "sq = cpr_event_sequence cp"
      using assms(1) by (auto simp: fork_point_def split: option.splits)
    from find_in_set [OF cp(1)] assms(2) cp(2) show ?thesis by (auto simp: checkpoints_bounded_def)
  qed
qed

lemma no_run_no_events:
  assumes "indexes_ok X ix" "dm_get (ix_runs ix) i = None"
  shows "run_events ix i = []"
proof -
  have "row_ok X i (run_events ix i) (run_checkpoints ix i) None"
    using assms by (metis indexes_ok_def run_ok_def)
  then show ?thesis by (simp add: row_ok_def)
qed

text \<open>
  C21: Forks stay within the parent.  A successful fork records a point between 0 and the length of
  the parent's timeline, also when the point is given by a checkpoint, however many operations
  ago it was made; and it starts its own timeline empty.
\<close>

theorem fork_within_parent:
  assumes inv: "ledger_inv X lg" and fresh: "fresh_input oi lg" and f: "fork_run X K oi scope i req lg = (Inr v, lg')"
  shows "\<exists>fork sq. dm_get (ix_runs (lg_indexes lg')) (oi_id oi) = Some fork \<and> v = view_run fork \<and>
    rr_parent_run_id fork = Some i \<and> rr_forked_from_event_sequence fork = Some sq \<and>
    0 \<le> sq \<and> sq \<le> int (length (run_events (lg_indexes lg) i)) \<and> run_events (lg_indexes lg') (oi_id oi) = []"
  using fork_run_cases [OF inv fresh f]
proof (elim disjE exE conjE)
  fix parent sq fork
  assume p: "run_in_scope X scope i lg = Inr parent" and q: "fork_point X i parent req (run_lock i lg) = Inr sq"
    and k: "fork = new_run oi scope (rr_external_id parent @ '':fork'') (rr_agent_name parent) (Some (rr_id parent)) (Some sq)
      (fk_metadata req)"
    and v: "Inr v = Inr (view_run fork)" and ap: "applied X K oi (Some scope) (RunCreated fork) lg lg'"
  obtain ix where ix: "same_data (lg_indexes lg) ix" "lg_indexes lg' = insert_run fork ix"
    using ap by (auto simp: applied_def)
  have par: "dm_get (ix_runs (lg_indexes lg)) i = Some parent" using p by (simp add: run_in_scope_Inr)
  note row = run_row [OF ledger_invD(1) [OF inv] par]
  have id: "rr_id fork = oi_id oi" by (simp add: k new_run_def)
  have "checkpoints_bounded (lg_indexes (run_lock i lg))"
    using ledger_inv_same [OF same_data_run_lock inv] by (simp add: ledger_inv_def)
  from fork_point_bounds [OF q this] row(2)
  have "0 \<le> sq \<and> sq \<le> int (length (run_events (lg_indexes lg) i))" by simp
  moreover have "run_events (lg_indexes lg) (oi_id oi) = []"
    by (rule no_run_no_events [OF ledger_invD(1) [OF inv]]) (use fresh in \<open>simp add: fresh_input_def\<close>)
  moreover have "run_events (lg_indexes lg') (oi_id oi) = run_events (lg_indexes lg) (oi_id oi)"
    by (simp add: ix(2) same_data_sel [OF ix(1)])
  ultimately show ?thesis
    using v row(1) by (intro exI [of _ fork] exI [of _ sq]) (simp add: k ix(2), simp add: insert_run_def id dm_simps new_run_def)
qed simp

definition demo_fork :: fork_run_request where
  "demo_fork = \<lparr>fk_from_event_sequence = Some 0, fk_from_checkpoint_id = None, fk_reason = ''retry'', fk_metadata = None\<rparr>"

theorem fork_within_parent_witness:
  "\<exists>lg v lg' fork. fork_run demo_ext demo_serde (demo_input 3000 3) demo_scope 1 demo_fork lg = (Inr v, lg') \<and>
    dm_get (ix_runs (lg_indexes lg')) 3 = Some fork \<and> rr_parent_run_id fork = Some 1 \<and>
    rr_forked_from_event_sequence fork = Some 0"
proof -
  obtain lg run where c: "wal_ready demo_ext 1000 lg" "ledger_inv demo_ext lg" "lg_indexes lg = insert_run run empty_indexes"
    "rr_id run = 1" "rr_last_event_sequence run = 0" "rr_tenant_id run = ''t''" "rr_project_id run = ''p''"
    by (rule demo_create_run)
  have fresh: "fresh_input (demo_input 3000 3) lg" by (rule fresh_one_run [OF c(3)]) (simp add: c(4))
  let ?lg = "run_lock 1 lg"
  have run: "run_in_scope demo_ext demo_scope 1 lg = Inr run"
    using c(3,4,6,7) by (simp add: run_in_scope_Inr insert_run_def dm_simps demo_scope_def)
  let ?fork = "new_run (demo_input 3000 3) demo_scope (rr_external_id run @ '':fork'') (rr_agent_name run)
    (Some (rr_id run)) (Some 0) None"
  have ready: "wal_ready demo_ext (Suc 999) ?lg" using c(1) by simp
  have fits: "kind_fits demo_ext (lg_indexes ?lg) (RunCreated ?fork)" using fresh by (simp add: new_run_def fresh_input_def)
  have len: "length ''r'' < 2 ^ 32" by simp
  obtain lg' where p: "persist demo_ext demo_serde (demo_input 3000 3) (RunCreated ?fork) ?lg = (Inr (), lg')"
    by (rule persist_good [OF ready demo_healthy demo_encodes len ledger_invD(3) [OF c(2)] fits])
  then have f: "fork_run demo_ext demo_serde (demo_input 3000 3) demo_scope 1 demo_fork lg = (Inr (view_run ?fork), lg')"
    using run c(5) by (simp add: fork_run_def demo_fork_def fork_point_def)
  from fork_within_parent [OF c(2) fresh f] f c(3) show ?thesis
    by (fastforce simp: run_events_def insert_run_def empty_indexes_def)
qed

text \<open>
  C14: Appends to a timeline succeed and are exact.  On a healthy log a valid event for a run of the
  caller is always accepted; the timeline of that run grows by exactly the returned event, numbered
  one past the end, every other run is untouched, the new timeline verifies, and the log grows by
  exactly one record, the encoding of that event.
\<close>

theorem append_event_extends:
  assumes inv: "ledger_inv X lg" and fresh: "fresh_input oi lg" and ready: "wal_ready X (Suc n) lg" and io: "healthy_io oi"
    and run: "run_in_scope X scope i lg = Inr run"
    and enc: "encodable K (EventAppended (build_event X (oi_event_id oi) scope run (ae_event_type req) (ae_occurred_at_ms req)
      (ae_payload req) (oi_now oi)))"
    and valid: "validate_event_type (ae_event_type req) = Inr ()"
  shows "\<exists>ev lg' r bs. append_event X K oi scope i req lg = (Inr (view_event ev), lg') \<and>
    run_events (lg_indexes lg') i = run_events (lg_indexes lg) i @ [ev] \<and>
    evr_sequence ev = int (length (run_events (lg_indexes lg) i)) + 1 \<and> evr_payload ev = ae_payload req \<and>
    (\<forall>j. j \<noteq> i \<longrightarrow> run_data (lg_indexes lg') j = run_data (lg_indexes lg) j) \<and>
    verify_run_events X scope i lg' = Inr True \<and>
    wal_log X lg' = wal_log X lg @ [r] \<and> encode K (EventAppended ev) = Inr bs \<and> record_content r = (Put, bs)"
proof -
  let ?lg = "run_lock i lg"
  let ?ev = "build_event X (oi_event_id oi) scope run (ae_event_type req) (ae_occurred_at_ms req) (ae_payload req) (oi_now oi)"
  have d: "dm_get (ix_runs (lg_indexes ?lg)) i = Some run" using run by (simp add: run_in_scope_Inr)
  note ok = ledger_invD(3) [OF inv]
  have nx: "event_next X (lg_indexes ?lg) ?ev" using build_event_next [OF ok d] fresh by (simp add: fresh_input_def)
  have id: "evr_run_id ?ev = i" using run_row(1) [OF ok d] by simp
  obtain bs where bs: "encode K (EventAppended ?ev) = Inr bs" "length bs < 2 ^ 32"
    using enc by (auto simp: encodable_def)
  have r: "wal_ready X (Suc n) ?lg" using ready by simp
  have fits: "kind_fits X (lg_indexes ?lg) (EventAppended ?ev)" using nx by simp
  obtain lg' w where p: "persist X K oi (EventAppended ?ev) ?lg = (Inr (), lg')"
    "lg_indexes lg' = snd (indexes_apply X (EventAppended ?ev) (lg_indexes ?lg))"
    "wal_log X lg' = wal_log X ?lg @ [w]" "record_content w = (Put, bs)"
    by (rule persist_good [OF r io bs ok fits])
  have ix: "lg_indexes lg' = push_event ?ev (lg_indexes ?lg)" using p(2) nx by (simp add: apply_event_next)
  have a: "append_event X K oi scope i req lg = (Inr (view_event ?ev), lg')"
    using valid run p(1) by (simp add: append_event_def Let_def)
  have "ledger_inv X (snd (ledger_op_exec X K oi (OpAppendEvent scope i req) lg))" by (rule op_inv [OF inv fresh])
  then have "run_ok X (lg_indexes lg') i" by (simp add: a drop_value_def ledger_inv_def indexes_ok_def)
  then have "verify_event_chain X (map view_event (run_events (lg_indexes lg') i))" by (simp add: run_ok_def row_ok_def)
  moreover have "\<exists>run'. run_in_scope X scope i lg' = Inr run'"
    using run id by (auto simp: run_in_scope_Inr ix push_event_sel)
  ultimately have "verify_run_events X scope i lg' = Inr True" by (auto simp: verify_run_events_def)
  moreover have "run_data (lg_indexes lg') j = run_data (lg_indexes lg) j" if "j \<noteq> i" for j
    using that id by (simp add: ix run_data_push) (simp add: run_data_def)
  moreover have "evr_sequence ?ev = int (length (run_events (lg_indexes lg) i)) + 1" "evr_payload ?ev = ae_payload req"
    using nx id by (simp add: event_next_def) (simp add: build_event_def Let_def)
  moreover have "run_events (lg_indexes lg') i = run_events (lg_indexes lg) i @ [?ev]"
    using id by (simp add: ix push_event_sel)
  moreover have "wal_log X ?lg = wal_log X lg" by (simp add: wal_log_def)
  ultimately show ?thesis
    using a bs(1) p(3,4) by (intro exI [of _ ?ev] exI [of _ lg'] exI [of _ w] exI [of _ bs]) simp
qed

theorem append_event_extends_witness:
  "\<exists>lg ev lg'. append_event demo_ext demo_serde (demo_input 2000 2) demo_scope 1 demo_event_request lg =
      (Inr (view_event ev), lg') \<and> run_events (lg_indexes lg') 1 = [ev] \<and> evr_sequence ev = 1 \<and>
    verify_run_events demo_ext demo_scope 1 lg' = Inr True"
proof -
  obtain lg run where c: "wal_ready demo_ext 1000 lg" "ledger_inv demo_ext lg" "lg_indexes lg = insert_run run empty_indexes"
    "rr_id run = 1" "rr_tenant_id run = ''t''" "rr_project_id run = ''p''"
    by (rule demo_create_run)
  have fresh: "fresh_input (demo_input 2000 2) lg" by (rule fresh_one_run [OF c(3)]) (simp add: c(4))
  have ready: "wal_ready demo_ext (Suc 999) lg" using c(1) by simp
  have run: "run_in_scope demo_ext demo_scope 1 lg = Inr run"
    using c(3-6) by (simp add: run_in_scope_Inr insert_run_def dm_simps demo_scope_def)
  have enc: "encodable demo_serde kind" for kind by (simp add: encodable_def demo_encodes)
  have valid: "validate_event_type (ae_event_type demo_event_request) = Inr ()"
    by (simp add: validate_event_type_def demo_event_request_def char_in_def)
  have "run_events (lg_indexes lg) 1 = []" by (simp add: c(3)) (simp add: run_events_def empty_indexes_def)
  with append_event_extends [OF c(2) fresh ready demo_healthy run enc valid] show ?thesis by auto
qed

section \<open>Progress of acquire\<close>

lemma build_effect_event_ok:
  assumes inv: "ledger_inv X lg" and fresh: "fresh_input oi lg"
    and run: "\<And>r. er_run_id e = Some r \<Longrightarrow> \<exists>run. run_in_scope X scope r lg = Inr run"
  obtains evo lg1 where "build_effect_event X oi scope e t detail now lg = (Inr evo, lg1)"
    "same_data (lg_indexes lg) (lg_indexes lg1)" "lg_wal lg1 = lg_wal lg"
    "case evo of None \<Rightarrow> er_run_id e = None | Some ev \<Rightarrow> event_next X (lg_indexes lg) ev \<and> er_run_id e = Some (evr_run_id ev)"
proof -
  obtain r lg1 where b: "build_effect_event X oi scope e t detail now lg = (r, lg1)" by fastforce
  have w: "lg_wal lg1 = lg_wal lg" "\<exists>evo. r = Inr evo"
    using b run by (auto simp: build_effect_event_def Let_def split: option.splits sum.splits)
  then obtain evo where evo: "r = Inr evo" by blast
  show ?thesis
    by (rule that [OF b [unfolded evo] build_effect_event_same [OF b] w(1)
        build_effect_event_next [OF b [unfolded evo] ledger_invD(1) [OF inv] fresh]])
qed

text \<open>
  C13: A free key is granted.  On a healthy log a valid request for a key that is not in use, with no
  run or a run of the caller, gets \<open>execute\<close>, and the key is then bound to the claimed effect.
\<close>

theorem free_key_granted:
  assumes inv: "ledger_inv X lg" and fresh: "fresh_input oi lg" and ready: "wal_ready X (Suc n) lg" and io: "healthy_io oi"
    and enc: "\<And>e evo lg1. e = new_effect X oi scope key req l (input_digest X (aq_input req)) (generate_lease_token X (oi_token1 oi) (oi_token2 oi)) \<Longrightarrow>
      build_effect_event X oi scope e ''effect.acquired'' (JObject [(''from'', JNull), (''to'', JString ''claimed'')]) (oi_now oi) lg = (Inr evo, lg1) \<Longrightarrow>
      encodable K (EffectApplied e evo)"
    and free: "existing_effect (lg_indexes lg) (key_in scope (aq_scope req) key) = None"
    and valid: "validate_effect_fields (aq_scope req) key (aq_tool_name req) = Inr ()"
    and lease: "resolve_lease_ms lg (aq_lease_duration_seconds req) ''lease_duration_seconds'' = Inr l"
    and run: "\<And>r. aq_run_id req = Some r \<Longrightarrow> \<exists>run. run_in_scope X scope r lg = Inr run"
  shows "\<exists>d lg' e. acquire X K oi scope key req lg = (Inr d, lg') \<and> dc_decision d = Execute \<and>
    existing_effect (lg_indexes lg') (key_in scope (aq_scope req) key) = Some e \<and> er_state e = Claimed \<and>
    er_run_id e = aq_run_id req"
proof -
  let ?tok = "generate_lease_token X (oi_token1 oi) (oi_token2 oi)"
  define e where "e = new_effect X oi scope key req l (input_digest X (aq_input req)) ?tok"
  let ?detail = "JObject [(''from'', JNull), (''to'', JString ''claimed'')]"
  have f: "er_run_id e = aq_run_id req" "er_id e = oi_id oi" "er_state e = Claimed"
    "effect_key_of e = key_in scope (aq_scope req) key"
    by (simp_all add: e_def new_effect_def effect_key_of_def key_in_def)
  have fit: "effect_fits (lg_indexes lg) e" using new_effect_ok [OF inv fresh free run e_def] by blast
  obtain evo lg1 where b: "build_effect_event X oi scope e ''effect.acquired'' ?detail (oi_now oi) lg = (Inr evo, lg1)"
    "same_data (lg_indexes lg) (lg_indexes lg1)" "lg_wal lg1 = lg_wal lg"
    "case evo of None \<Rightarrow> er_run_id e = None | Some ev \<Rightarrow> event_next X (lg_indexes lg) ev \<and> er_run_id e = Some (evr_run_id ev)"
    by (rule build_effect_event_ok [OF inv fresh]) (use run f(1) in auto)
  have ok: "indexes_ok X (lg_indexes lg1)" by (rule indexes_ok_same [OF b(2) ledger_invD(1) [OF inv]])
  have fits: "kind_fits X (lg_indexes lg1) (EffectApplied e evo)"
    using fit b(4) by (auto simp: effect_fits_def event_next_def same_data_sel [OF b(2)] split: option.splits)
  have r: "wal_ready X (Suc n) lg1" using ready by (simp add: wal_ready_def b(3))
  obtain bs where bs: "encode K (EffectApplied e evo) = Inr bs" "length bs < 2 ^ 32"
    using enc [OF e_def b(1)] by (auto simp: encodable_def)
  obtain lg2 where p: "persist X K oi (EffectApplied e evo) lg1 = (Inr (), lg2)"
    "lg_indexes lg2 = snd (indexes_apply X (EffectApplied e evo) (lg_indexes lg1))"
    by (rule persist_good [OF r io bs ok fits])
  have plan: "acquire_plan X oi scope key req l (input_digest X (aq_input req)) lg =
      Inr (ApplyPlan e ''effect.acquired'' ?detail Execute (Some ?tok))"
    using free run by (auto simp: acquire_plan_def key_in_def Let_def e_def split: option.splits sum.splits)
  obtain d lg' where a: "acquire X K oi scope key req lg = (Inr d, lg')" "dc_decision d = Execute" "lg_indexes lg' = lg_indexes lg2"
    using valid lease plan b(1) p(1) by (simp add: acquire_def)
  have inv': "ledger_inv X lg'"
    using op_inv [OF inv fresh, where K = K and op = "OpAcquire scope key req"] by (simp add: a(1) drop_value_def)
  have "dm_get (ix_effects_by_id (lg_indexes lg')) (er_id e) = Some e"
    using applied_effects [OF ok fits, of "er_id e"] by (simp add: a(3) p(2))
  then have "existing_effect (lg_indexes lg') (key_in scope (aq_scope req) key) = Some e"
    using existing_effect_ok(1) [OF ledger_invD(2) [OF inv']] f(4) by blast
  with a(1,2) f(1,3) show ?thesis by blast
qed

theorem free_key_granted_witness:
  "\<exists>d lg. acquire demo_ext demo_serde (demo_input 5000 8) demo_scope ''key-0002'' demo_acquire (demo_ledger InProgress) =
    (Inr d, lg) \<and> dc_decision d = Execute"
proof -
  let ?lg = "demo_ledger InProgress"
  have fresh: "fresh_input (demo_input 5000 8) ?lg" by (rule demo_ledger_fresh) simp
  have ready: "wal_ready demo_ext (Suc 1000) ?lg" unfolding demo_ledger_def by (rule demo_ready) simp
  have enc: "encodable demo_serde kind" for kind by (simp add: encodable_def demo_encodes)
  have free: "existing_effect (lg_indexes ?lg) (key_in demo_scope (aq_scope demo_acquire) ''key-0002'') = None"
    by (simp add: existing_effect_def demo_ledger_def insert_effect_def empty_indexes_def dm_simps key_in_def
        effect_key_of_def demo_effect_def)
  have valid: "validate_effect_fields (aq_scope demo_acquire) ''key-0002'' (aq_tool_name demo_acquire) = Inr ()"
    by (simp add: demo_acquire_def validate_effect_fields_def char_in_def)
  obtain l where l: "resolve_lease_ms ?lg (aq_lease_duration_seconds demo_acquire) ''lease_duration_seconds'' = Inr l"
    by (simp add: demo_acquire_def resolve_lease_ms_def DEFAULT_LEASE_def MIN_LEASE_def MAX_LEASE_def from_secs_def Let_def)
  from free_key_granted [OF demo_ledger_inv fresh ready demo_healthy enc free valid l] show ?thesis
    by (auto simp: demo_acquire_def)
qed

section \<open>Retention\<close>

text \<open>
  C15: What retention removes.  A successful pass removes exactly the terminal runs last updated at
  or before the cutoff, with their timelines, and exactly the finished effects that old and the
  effects of the removed runs, whatever the state of these is; so the key of a started or unresolved
  effect of a removed run is free again.
\<close>

theorem retention_exact:
  assumes inv: "ledger_inv X lg" and a: "apply_retention X K oi policy lg = (Inr report, lg')"
  defines "cutoff \<equiv> i64_saturating_sub (oi_now oi) (max (rp_max_age_ms policy) 0)"
  defines "old_run \<equiv> \<lambda>i. \<exists>run. dm_get (ix_runs (lg_indexes lg)) i = Some run \<and> is_terminal (rr_status run) \<and>
    rr_updated_at_ms run \<le> cutoff"
  shows "rp_cutoff_ms report = cutoff \<and>
    run_data (lg_indexes lg') i = (if old_run i then (None, [], []) else run_data (lg_indexes lg) i) \<and>
    effect_at lg' i = (case effect_at lg i of None \<Rightarrow> None | Some e \<Rightarrow>
      if is_retention_terminal (er_state e) \<and> er_updated_at_ms e \<le> cutoff \<or> is_some_and (er_run_id e) old_run
      then None else Some e) \<and>
    (effect_at lg i = Some e \<and> effect_at lg' i = None \<longrightarrow> existing_effect (lg_indexes lg') (effect_key_of e) = None)"
proof -
  let ?rs = "pruned_runs cutoff (lg_indexes lg)"
  let ?es = "pruned_effects cutoff ?rs (lg_indexes lg)"
  note ok = ledger_invD(1) [OF inv] and eff = ledger_invD(2) [OF inv]
  have rs: "old_run j \<longleftrightarrow> j \<in> set ?rs" for j
    using pruned_runs_iff [OF ok] by (simp add: old_run_def)
  then have old: "old_run = (\<lambda>j. j \<in> set ?rs)" by blast
  have es: "j \<in> set ?es \<longleftrightarrow> (\<exists>e. effect_at lg j = Some e \<and>
      (is_retention_terminal (er_state e) \<and> er_updated_at_ms e \<le> cutoff \<or> is_some_and (er_run_id e) old_run))" for j
    using pruned_effects_iff [OF eff] by (simp add: effect_at_def old)
  have c: "rp_cutoff_ms report = cutoff"
    and st: "?rs = [] \<and> ?es = [] \<and> lg' = lg \<or> applied X K oi None (RetentionApplied cutoff ?rs ?es) lg lg'"
    using apply_retention_cases [OF inv a] by (auto simp: cutoff_def)
  have inv': "ledger_inv X lg'" using st inv applied_inv by blast
  have data: "run_data (lg_indexes lg') i = (if i \<in> set ?rs then (None, [], []) else run_data (lg_indexes lg) i) \<and>
      effect_at lg' i = (if i \<in> set ?es then None else effect_at lg i)"
    using st
  proof (elim disjE conjE)
    assume "applied X K oi None (RetentionApplied cutoff ?rs ?es) lg lg'"
    then obtain ix where ix: "same_data (lg_indexes lg) ix"
      "lg_indexes lg' = snd (indexes_apply X (RetentionApplied cutoff ?rs ?es) ix)"
      by (auto simp: applied_def)
    have ok': "indexes_ok X ix" by (rule indexes_ok_same [OF ix(1) ok])
    have "run_checkpoints (lg_indexes lg') i = (if i \<in> set ?rs then [] else run_checkpoints (lg_indexes lg) i)"
      by (simp add: ix(2) fold_remove_checkpoints same_data_sel [OF ix(1)])
    then show ?thesis
      using retention_sel [OF ok', of cutoff ?rs ?es i]
      by (simp add: run_data_def effect_at_def ix(2) same_data_sel [OF ix(1)] del: indexes_apply.simps)
  qed simp
  have gone: "existing_effect (lg_indexes lg') (effect_key_of e) = None"
    if e: "effect_at lg i = Some e" "effect_at lg' i = None"
  proof (rule ccontr)
    assume "existing_effect (lg_indexes lg') (effect_key_of e) \<noteq> None"
    then obtain e' where e': "existing_effect (lg_indexes lg') (effect_key_of e) = Some e'" by blast
    then have at': "effect_at lg' (er_id e') = Some e'" and key: "effect_key_of e' = effect_key_of e"
      using existing_effect_ok(1) [OF ledger_invD(2) [OF inv']] by (auto simp: effect_at_def)
    have "effect_at lg (er_id e') = Some e'"
      using st at' applied_effect_at [OF inv, of K oi None "RetentionApplied cutoff ?rs ?es" lg' "er_id e'"]
      by (auto split: if_splits)
    then have "er_id e' = i"
      using effects_okD(2) [OF eff] e(1) key by (metis effect_at_def option.inject)
    with at' e(2) show False by simp
  qed
  show ?thesis using c data gone es by (auto simp: rs split: option.splits)
qed

definition demo_run :: "run_status \<Rightarrow> run_record" where
  "demo_run s = \<lparr>rr_schema_version = SCHEMA_VERSION, rr_tenant_id = ''t'', rr_project_id = ''p'', rr_id = 1,
     rr_external_id = ''job'', rr_agent_name = ''agent'', rr_status = s, rr_version = 2, rr_last_event_sequence = 0,
     rr_head_hash = GENESIS_HASH, rr_parent_run_id = None, rr_forked_from_event_sequence = None, rr_metadata = None,
     rr_created_at_ms = 1000, rr_updated_at_ms = 2000\<rparr>"

definition demo_run_effect :: "effect_status \<Rightarrow> effect_record" where
  "demo_run_effect s = (demo_effect s)\<lparr>er_run_id := Some 1\<rparr>"

definition demo_run_ledger :: "run_status \<Rightarrow> effect_status \<Rightarrow> ledger" where
  "demo_run_ledger rs s = ledger_on demo_wal (insert_effect (demo_run_effect s) (insert_run (demo_run rs) empty_indexes))"

lemma demo_run_effect_sel [simp]:
  "er_id (demo_run_effect s) = 7" "er_state (demo_run_effect s) = s" "er_run_id (demo_run_effect s) = Some 1"
  by (simp_all add: demo_run_effect_def)

lemma demo_run_effect_at: "effect_at (demo_run_ledger rs s) i = (if i = 7 then Some (demo_run_effect s) else None)"
  by (simp add: effect_at_def demo_run_ledger_def insert_effect_def insert_run_def dm_simps empty_indexes_def)

lemma demo_run_at: "dm_get (ix_runs (lg_indexes (demo_run_ledger rs s))) i = (if i = 1 then Some (demo_run rs) else None)"
  by (simp add: demo_run_ledger_def insert_effect_def insert_run_def dm_simps empty_indexes_def demo_run_def)

lemma demo_run_empty: "run_events (lg_indexes (demo_run_ledger rs s)) i = []" "run_checkpoints (lg_indexes (demo_run_ledger rs s)) i = []"
  by (simp_all add: demo_run_ledger_def) (simp_all add: run_events_def run_checkpoints_def empty_indexes_def)

lemma demo_run_ledger_inv: "ledger_inv X (demo_run_ledger rs s)"
proof -
  have "indexes_ok X empty_indexes"
    using ledger_inv_empty [of "ledger_on demo_wal empty_indexes" X] by (simp add: ledger_inv_def)
  then have "indexes_ok X (insert_run (demo_run rs) empty_indexes)"
    by (rule indexes_ok_insert_run) (simp_all add: demo_run_def run_events_def empty_indexes_def stored_head)
  then have "indexes_ok X (lg_indexes (demo_run_ledger rs s))"
    unfolding demo_run_ledger_def ledger_on_sel
    by (rule indexes_ok_insert_effect) (simp add: effect_fits_def insert_run_def empty_indexes_def)
  moreover have "effect_wf (lg_indexes (demo_run_ledger rs s)) (demo_run_effect s)"
    using demo_run_at [of rs s] by (simp add: effect_wf_def demo_run_effect_def demo_effect_def demo_run_def)
  ultimately show ?thesis
    using demo_run_effect_at [of rs s]
    by (auto simp: ledger_inv_def effect_at_def checkpoints_bounded_def demo_run_empty split: if_splits)
qed

lemma demo_run_ledger_fresh: "oi_id oi \<noteq> 1 \<Longrightarrow> oi_id oi \<noteq> 7 \<Longrightarrow> fresh_input oi (demo_run_ledger rs s)"
  using demo_run_effect_at [of rs s] demo_run_at [of rs s]
  by (auto simp: fresh_input_def effect_at_def i64_max_def demo_run_empty demo_run_effect_def split: if_splits)

lemma demo_run_ledger_ready: "n < 2 ^ 63 \<Longrightarrow> wal_ready demo_ext n (demo_run_ledger rs s)"
  unfolding demo_run_ledger_def by (rule demo_ready)

theorem retention_exact_witness:
  "\<exists>report lg. apply_retention demo_ext demo_serde (demo_input 9000 3) \<lparr>rp_max_age_ms = 5000\<rparr>
      (demo_run_ledger Completed OutcomeUnknown) = (Inr report, lg) \<and>
    effect_at lg 7 = None \<and> existing_effect (lg_indexes lg) (effect_key_of (demo_run_effect OutcomeUnknown)) = None"
proof -
  let ?lg = "demo_run_ledger Completed OutcomeUnknown" and ?oi = "demo_input 9000 3"
  note inv = demo_run_ledger_inv [of demo_ext Completed OutcomeUnknown]
  have cut: "i64_saturating_sub 9000 5000 = 4000"
    by (simp add: i64_saturating_sub_def i64_max_def i64_min_def)
  obtain rs es where k: "rs = pruned_runs 4000 (lg_indexes ?lg)" "es = pruned_effects 4000 rs (lg_indexes ?lg)" by simp
  have "1 \<in> set rs" using pruned_runs_iff [OF ledger_invD(1) [OF inv]] by (simp add: k(1) demo_run_at demo_run_def)
  then have ne: "rs \<noteq> []" by auto
  have ready: "wal_ready demo_ext (Suc 1000) ?lg" by (rule demo_run_ledger_ready) simp
  have len: "length ''r'' < 2 ^ 32" by simp
  have fits: "kind_fits demo_ext (lg_indexes ?lg) (RetentionApplied 4000 rs es)" by simp
  obtain lg' where p: "persist demo_ext demo_serde ?oi (RetentionApplied 4000 rs es) ?lg = (Inr (), lg')"
    by (rule persist_good [OF ready demo_healthy demo_encodes len ledger_invD(1) [OF inv] fits])
  obtain report lg where a: "apply_retention demo_ext demo_serde ?oi \<lparr>rp_max_age_ms = 5000\<rparr> ?lg = (Inr report, lg)"
    using p ne by (simp add: apply_retention_def cut k [symmetric] Let_def)
  from retention_exact [OF inv a, where i = 7 and e = "demo_run_effect OutcomeUnknown"] a show ?thesis
    by (simp add: demo_run_effect_at demo_run_at cut demo_run_def)
qed

end
