(* ===== verification/Ledger_Races.thy ===== *)
theory Ledger_Races
  imports Ledger_Guarantees
begin

text \<open>
  Interleavings of concurrent requests.  A request that documents a transition on a run's timeline
  holds the run lock only inside \<open>build_effect_event\<close> and takes the commit lock in \<open>persist\<close>, so
  other requests on the run can be served in between.  The theorems show what the ledger does then.
\<close>

section \<open>Two transitions on one run\<close>

text \<open>An event the timeline already covers is dropped without an error.\<close>

lemma apply_event_covered:
  assumes "int (length (run_events ix (evr_run_id ev))) \<le> i64_max"
    and "evr_sequence ev \<le> int (length (run_events ix (evr_run_id ev)))"
  shows "fst (apply_event X ev ix) = Inr () \<and> run_events (snd (apply_event X ev ix)) i = run_events ix i \<and>
    ix_effects_by_id (snd (apply_event X ev ix)) = ix_effects_by_id ix \<and> ix_runs (snd (apply_event X ev ix)) = ix_runs ix"
  using assms by (simp add: apply_event_def Let_def len_i64_eq)

lemma wal_append_indexes:
  "persist X K oi kind lg = (r, lg') \<Longrightarrow> indexes_apply X kind (lg_indexes lg) = (Inr (), ix) \<Longrightarrow>
     (r = Inr () \<and> lg_indexes lg' = ix) \<or> (isl r \<and> lg_indexes lg' = lg_indexes lg)"
  by (auto simp: persist_def split: sum.splits prod.splits)

lemma build_effect_event_seq:
  assumes "build_effect_event X oi scope e t detail now lg = (Inr (Some ev), lg')" "ledger_inv X lg" "fresh_input oi lg"
  shows "evr_sequence ev = int (length (run_events (lg_indexes lg) (evr_run_id ev))) + 1" "er_run_id e = Some (evr_run_id ev)"
    "event_next X (lg_indexes lg) ev" "same_data (lg_indexes lg) (lg_indexes lg')"
  using build_effect_event_next [OF assms(1) ledger_invD(1) [OF assms(2)] assms(3)] build_effect_event_same [OF assms(1)]
  by (auto simp: event_next_def)

text \<open>
  C24: Concurrent transitions lose events.  Two requests on effects of the same run each build their
  event before either is persisted.  Both then succeed: both effects change, and both records are
  written to the log, but the two events carry the same sequence number and only the first one is
  on the run's timeline.
\<close>

theorem racing_transitions_lose_event:
  assumes inv: "ledger_inv X lg" and fresh: "fresh_input oi lg" "fresh_input oi' lg"
    and a: "build_effect_event X oi scope e t detail now lg = (Inr (Some ev), lg1)"
    and b: "build_effect_event X oi' scope e' t' detail' now' lg1 = (Inr (Some ev'), lg2)"
    and run: "er_run_id e = er_run_id e'"
    and pa: "persist X K oi (EffectApplied e (Some ev)) lg2 = (Inr (), lg3)"
    and pb: "persist X K oi' (EffectApplied e' (Some ev')) lg3 = (Inr (), lg4)"
    and ids: "er_id e \<noteq> er_id e'"
  shows "evr_sequence ev' = evr_sequence ev \<and>
    run_events (lg_indexes lg4) (evr_run_id ev') = run_events (lg_indexes lg) (evr_run_id ev) @ [ev] \<and>
    effect_at lg4 (er_id e) = Some e \<and> effect_at lg4 (er_id e') = Some e'"
proof -
  let ?r = "evr_run_id ev"
  note A = build_effect_event_seq [OF a inv fresh(1)]
  have inv1: "ledger_inv X lg1" by (rule ledger_inv_same [OF A(4) inv])
  have fresh1: "fresh_input oi' lg1" using fresh(2) same_data_sel [OF A(4)] by (simp add: fresh_input_def)
  note B = build_effect_event_seq [OF b inv1 fresh1]
  have r: "evr_run_id ev' = ?r" using run A(2) B(2) by simp
  have len: "run_events (lg_indexes lg1) ?r = run_events (lg_indexes lg) ?r" by (simp add: same_data_sel [OF A(4)])
  have same2: "same_data (lg_indexes lg) (lg_indexes lg2)" by (rule same_data_trans [OF A(4) B(4)])
  have nx: "event_next X (insert_effect e (lg_indexes lg2)) ev"
    using A(3) by (simp add: event_next_def same_data_sel [OF same2]) (simp add: insert_effect_def same_data_sel [OF same2])
  have ix3: "lg_indexes lg3 = push_event ev (insert_effect e (lg_indexes lg2))"
    using wal_append_indexes [OF pa] apply_event_next [OF nx] by simp
  have ev3: "run_events (lg_indexes lg3) ?r = run_events (lg_indexes lg) ?r @ [ev]"
    by (simp add: ix3 push_event_sel same_data_sel [OF same2])
  have room: "int (length (run_events (lg_indexes lg) ?r)) < i64_max" using fresh(1) by (simp add: fresh_input_def)
  let ?ix = "insert_effect e' (lg_indexes lg3)"
  have cov: "fst (apply_event X ev' ?ix) = Inr () \<and> run_events (snd (apply_event X ev' ?ix)) ?r = run_events ?ix ?r \<and>
      ix_effects_by_id (snd (apply_event X ev' ?ix)) = ix_effects_by_id ?ix \<and> ix_runs (snd (apply_event X ev' ?ix)) = ix_runs ?ix"
    by (rule apply_event_covered) (use room B(1) in \<open>simp_all add: r len ev3\<close>)
  then have "lg_indexes lg4 = snd (apply_event X ev' ?ix)"
    using wal_append_indexes [OF pb] by (cases "apply_event X ev' ?ix") auto
  then show ?thesis
    using cov A(1) B(1) ids by (simp add: r len ev3 effect_at_def) (simp add: insert_effect_def dm_simps ix3 push_event_sel)
qed

definition demo_second :: effect_record where
  "demo_second = (demo_run_effect Committed)\<lparr>er_id := 9, er_idempotency_key := ''key-0009''\<rparr>"

lemma demo_build:
  assumes "ledger_inv demo_ext lg" "fresh_input oi lg" "dm_get (ix_runs (lg_indexes lg)) 1 = Some (demo_run Running)"
    and "er_run_id e = Some 1"
  obtains ev lg' where "build_effect_event demo_ext oi demo_scope e t detail now lg = (Inr (Some ev), lg')" "lg_wal lg' = lg_wal lg"
proof -
  have "\<exists>run. run_in_scope demo_ext demo_scope 1 lg = Inr run"
    using assms(3) by (auto simp: run_in_scope_Inr demo_run_def demo_scope_def)
  then have r: "\<And>r. er_run_id e = Some r \<Longrightarrow> \<exists>run. run_in_scope demo_ext demo_scope r lg = Inr run" using assms(4) by simp
  obtain evo lg1 where b: "build_effect_event demo_ext oi demo_scope e t detail now lg = (Inr evo, lg1)"
    "same_data (lg_indexes lg) (lg_indexes lg1)" "lg_wal lg1 = lg_wal lg"
    "case evo of None \<Rightarrow> er_run_id e = None
      | Some ev \<Rightarrow> event_next demo_ext (lg_indexes lg) ev \<and> er_run_id e = Some (evr_run_id ev)"
    by (rule build_effect_event_ok [OF assms(1,2) r])
  then obtain ev where "evo = Some ev" using assms(4) by (cases evo) auto
  with b(1,3) show ?thesis by (intro that [of ev lg1]) simp_all
qed

theorem racing_transitions_lose_event_witness:
  "\<exists>ev ev' lg1 lg2 lg3 lg4.
    build_effect_event demo_ext (demo_input 4000 3) demo_scope (demo_run_effect Committed) ''effect.committed'' JNull 4000
      (demo_run_ledger Running InProgress) = (Inr (Some ev), lg1) \<and>
    build_effect_event demo_ext (demo_input 4001 4) demo_scope demo_second ''effect.committed'' JNull 4001 lg1 =
      (Inr (Some ev'), lg2) \<and>
    persist demo_ext demo_serde (demo_input 4000 3) (EffectApplied (demo_run_effect Committed) (Some ev)) lg2 = (Inr (), lg3) \<and>
    persist demo_ext demo_serde (demo_input 4001 4) (EffectApplied demo_second (Some ev')) lg3 = (Inr (), lg4) \<and>
    run_events (lg_indexes lg4) (evr_run_id ev') = [ev] \<and> effect_at lg4 9 = Some demo_second"
proof -
  let ?lg = "demo_run_ledger Running InProgress" and ?e = "demo_run_effect Committed" and ?e' = demo_second
  let ?oi = "demo_input 4000 3" and ?oi' = "demo_input 4001 4"
  note inv = demo_run_ledger_inv [of demo_ext Running InProgress]
  have f: "fresh_input ?oi ?lg" "fresh_input ?oi' ?lg" by (rule demo_run_ledger_fresh; simp)+
  have e': "er_run_id ?e' = Some 1" "er_id ?e' = 9" by (simp_all add: demo_second_def)
  obtain ev lg1 where a: "build_effect_event demo_ext ?oi demo_scope ?e ''effect.committed'' JNull 4000 ?lg = (Inr (Some ev), lg1)"
    "lg_wal lg1 = lg_wal ?lg"
    by (rule demo_build [OF inv f(1) _ demo_run_effect_sel(3)]) (simp_all add: demo_run_at)
  note A = build_effect_event_seq [OF a(1) inv f(1)]
  have inv1: "ledger_inv demo_ext lg1" by (rule ledger_inv_same [OF A(4) inv])
  have f1: "fresh_input ?oi' lg1" using f(2) same_data_sel [OF A(4)] by (simp add: fresh_input_def)
  obtain ev' lg2 where b: "build_effect_event demo_ext ?oi' demo_scope ?e' ''effect.committed'' JNull 4001 lg1 = (Inr (Some ev'), lg2)"
    "lg_wal lg2 = lg_wal lg1"
    by (rule demo_build [OF inv1 f1 _ e'(1)]) (simp_all add: same_data_sel [OF A(4)] demo_run_at e')
  note B = build_effect_event_seq [OF b(1) inv1 f1]
  have same2: "same_data (lg_indexes ?lg) (lg_indexes lg2)" by (rule same_data_trans [OF A(4) B(4)])
  have ready: "wal_ready demo_ext (Suc (Suc 100)) lg2"
    using demo_run_ledger_ready [of "Suc (Suc 100)" Running InProgress] by (simp add: wal_ready_def a(2) b(2))
  have ok2: "indexes_ok demo_ext (lg_indexes lg2)" by (rule indexes_ok_same [OF same2 ledger_invD(1) [OF inv]])
  have len: "length ''r'' < 2 ^ 32" by simp
  have fits: "kind_fits demo_ext (lg_indexes lg2) (EffectApplied ?e (Some ev))"
    using A(3) demo_run_effect_at [of Running InProgress 7]
    by (simp add: effect_fits_def event_next_def same_data_sel [OF same2] effect_at_def)
      (simp add: effect_key_of_def demo_run_effect_def demo_effect_def)
  obtain lg3 where p: "persist demo_ext demo_serde ?oi (EffectApplied ?e (Some ev)) lg2 = (Inr (), lg3)"
    "wal_ready demo_ext (Suc 100) lg3" "lg_indexes lg3 = snd (indexes_apply demo_ext (EffectApplied ?e (Some ev)) (lg_indexes lg2))"
    by (rule persist_good [OF ready demo_healthy demo_encodes len ok2 fits])
  have ix3: "lg_indexes lg3 = push_event ev (insert_effect ?e (lg_indexes lg2))"
    using p(3) apply_event_push [OF fits] by simp
  have r: "evr_run_id ev' = evr_run_id ev" "evr_run_id ev = 1" using A(2) B(2) e' by simp_all
  have ev3: "run_events (lg_indexes lg3) 1 = [ev]"
    by (simp add: ix3 push_event_sel r same_data_sel [OF same2] demo_run_empty)
  have "fst (apply_event demo_ext ev' (insert_effect ?e' (lg_indexes lg3))) = Inr ()"
    using apply_event_covered [of "insert_effect ?e' (lg_indexes lg3)" ev'] B(1)
    by (simp add: r ev3 same_data_sel [OF A(4)] demo_run_empty i64_max_def)
  then obtain ix where "indexes_apply demo_ext (EffectApplied ?e' (Some ev')) (lg_indexes lg3) = (Inr (), ix)"
    by (cases "apply_event demo_ext ev' (insert_effect ?e' (lg_indexes lg3))") auto
  then obtain lg4 where q: "persist demo_ext demo_serde ?oi' (EffectApplied ?e' (Some ev')) lg3 = (Inr (), lg4)"
    by (rule persist_writes [OF p(2) demo_healthy demo_encodes len])
  have "er_run_id ?e = er_run_id ?e'" "er_id ?e \<noteq> er_id ?e'" by (simp_all add: e')
  from racing_transitions_lose_event [OF inv f a(1) b(1) this(1) p(1) q this(2)] a(1) b(1) p(1) q show ?thesis
    by (auto simp: demo_run_empty e')
qed

section \<open>A status update during a transition\<close>

text \<open>
  C25: A status update that overlaps a transition rewinds the run record.  \<open>update_run\<close> reads the run,
  an effect's transition then adds an event, and the update is persisted last: the run record says
  the old length and head hash again although the timeline is one event longer, and the next
  \<open>append_event\<close> returns success without adding its event.
\<close>

theorem overlapping_update_rewinds_run:
  assumes inv: "ledger_inv X lg" and fresh: "fresh_input oi lg" and run: "run_in_scope X scope i lg = Inr run"
    and nx: "event_next X (lg_indexes lg) ev" "evr_run_id ev = i" and fits: "effect_fits (lg_indexes lg) e"
    and p: "persist X K oi (EffectApplied e (Some ev)) lg = (Inr (), lg1)"
    and u: "persist X K oi' (RunUpdated (run\<lparr>rr_status := st, rr_version := v, rr_updated_at_ms := t\<rparr>)) lg1 = (Inr (), lg2)"
    and room: "int (length (run_events (lg_indexes lg) i)) + 1 < i64_max"
    and a: "append_event X K oi'' scope i req lg2 = (Inr view, lg3)"
  shows "\<exists>run'. run_in_scope X scope i lg2 = Inr run' \<and>
    rr_last_event_sequence run' = int (length (run_events (lg_indexes lg2) i)) - 1 \<and>
    run_events (lg_indexes lg2) i = run_events (lg_indexes lg) i @ [ev] \<and>
    run_events (lg_indexes lg3) i = run_events (lg_indexes lg2) i"
proof -
  let ?run = "run\<lparr>rr_status := st, rr_version := v, rr_updated_at_ms := t\<rparr>"
  have d: "dm_get (ix_runs (lg_indexes lg)) i = Some run" using run by (simp add: run_in_scope_Inr)
  note row = run_row [OF ledger_invD(1) [OF inv] d]
  have "event_next X (insert_effect e (lg_indexes lg)) ev"
    using nx(1) by (simp add: event_next_def) (simp add: insert_effect_def)
  then have ix1: "lg_indexes lg1 = push_event ev (insert_effect e (lg_indexes lg))"
    using wal_append_indexes [OF p] apply_event_next by simp
  have ix2: "lg_indexes lg2 = insert_run ?run (lg_indexes lg1)"
    using wal_append_indexes [OF u] by simp
  have run2: "run_in_scope X scope i lg2 = Inr ?run"
    using run row(1) by (simp add: run_in_scope_Inr ix2 insert_run_def dm_simps)
  have ev2: "run_events (lg_indexes lg2) i = run_events (lg_indexes lg) i @ [ev]"
    using nx(2) by (simp add: ix2 ix1 push_event_sel)
  let ?ev = "build_event X (oi_event_id oi'') scope ?run (ae_event_type req) (ae_occurred_at_ms req) (ae_payload req) (oi_now oi'')"
  have s: "evr_sequence ?ev = int (length (run_events (lg_indexes lg) i)) + 1" "evr_run_id ?ev = i"
    using row(1,2) room by (simp_all add: build_event_def Let_def i64_add_eq in_i64_def i64_min_def)
  have q: "persist X K oi'' (EventAppended ?ev) (run_lock i lg2) = (Inr (), lg3)"
    using a run2 by (auto simp: append_event_def Let_def split: sum.splits prod.splits)
  have cov: "fst (apply_event X ?ev (lg_indexes (run_lock i lg2))) = Inr () \<and>
      run_events (snd (apply_event X ?ev (lg_indexes (run_lock i lg2)))) i = run_events (lg_indexes (run_lock i lg2)) i \<and>
      ix_effects_by_id (snd (apply_event X ?ev (lg_indexes (run_lock i lg2)))) = ix_effects_by_id (lg_indexes (run_lock i lg2)) \<and>
      ix_runs (snd (apply_event X ?ev (lg_indexes (run_lock i lg2)))) = ix_runs (lg_indexes (run_lock i lg2))"
    by (rule apply_event_covered) (use room s ev2 in simp_all)
  then have "lg_indexes lg3 = snd (apply_event X ?ev (lg_indexes (run_lock i lg2)))"
    using wal_append_indexes [OF q] by (cases "apply_event X ?ev (lg_indexes (run_lock i lg2))") auto
  with cov run2 ev2 row(2) show ?thesis by (intro exI [of _ ?run]) simp
qed

theorem overlapping_update_rewinds_run_witness:
  "\<exists>ev lg lg1 lg2 view lg3 run'.
    persist demo_ext demo_serde (demo_input 4000 3) (EffectApplied (demo_run_effect Committed) (Some ev)) lg = (Inr (), lg1) \<and>
    persist demo_ext demo_serde (demo_input 4001 4)
      (RunUpdated ((demo_run Running)\<lparr>rr_status := Completed, rr_version := 3, rr_updated_at_ms := 4001\<rparr>)) lg1 = (Inr (), lg2) \<and>
    append_event demo_ext demo_serde (demo_input 5000 5) demo_scope 1 demo_event_request lg2 = (Inr view, lg3) \<and>
    run_in_scope demo_ext demo_scope 1 lg2 = Inr run' \<and> rr_last_event_sequence run' = 0 \<and>
    run_events (lg_indexes lg2) 1 = [ev] \<and> run_events (lg_indexes lg3) 1 = [ev]"
proof -
  let ?lg = "demo_run_ledger Running InProgress" and ?e = "demo_run_effect Committed" and ?oi = "demo_input 4000 3"
  note inv = demo_run_ledger_inv [of demo_ext Running InProgress]
  have f: "fresh_input ?oi ?lg" by (rule demo_run_ledger_fresh) simp_all
  have run: "run_in_scope demo_ext demo_scope 1 ?lg = Inr (demo_run Running)"
    by (simp add: run_in_scope_Inr demo_run_at) (simp add: demo_run_def demo_scope_def)
  define ev where "ev = build_event demo_ext 3 demo_scope (demo_run Running) ''effect.committed'' 4000 JNull 4000"
  have id: "evr_run_id ev = 1" by (simp add: ev_def demo_run_def)
  have nx: "event_next demo_ext (lg_indexes ?lg) ev"
    unfolding ev_def by (rule build_event_next [OF ledger_invD(1) [OF inv], of 1])
      (simp_all add: demo_run_at demo_run_empty i64_max_def)
  have fit: "effect_fits (lg_indexes ?lg) ?e"
    using demo_run_effect_at [of Running InProgress 7]
    by (simp add: effect_fits_def effect_at_def) (simp add: effect_key_of_def demo_run_effect_def demo_effect_def)
  have fits: "kind_fits demo_ext (lg_indexes ?lg) (EffectApplied ?e (Some ev))" using fit nx by simp
  have ready: "wal_ready demo_ext (Suc (Suc (Suc 100))) ?lg" by (rule demo_run_ledger_ready) simp
  have len: "length ''r'' < 2 ^ 32" by simp
  obtain lg1 where p: "persist demo_ext demo_serde ?oi (EffectApplied ?e (Some ev)) ?lg = (Inr (), lg1)"
    "wal_ready demo_ext (Suc (Suc 100)) lg1"
    by (rule persist_good [OF ready demo_healthy demo_encodes len ledger_invD(1) [OF inv] fits])
  let ?u = "(demo_run Running)\<lparr>rr_status := Completed, rr_version := 3, rr_updated_at_ms := 4001\<rparr>"
  have "indexes_apply demo_ext (RunUpdated ?u) (lg_indexes lg1) = (Inr (), insert_run ?u (lg_indexes lg1))" by simp
  then obtain lg2 where u: "persist demo_ext demo_serde (demo_input 4001 4) (RunUpdated ?u) lg1 = (Inr (), lg2)"
    "wal_ready demo_ext (Suc 100) lg2" "lg_indexes lg2 = insert_run ?u (lg_indexes lg1)"
    by (rule persist_writes [OF p(2) demo_healthy demo_encodes len])
  have run2: "run_in_scope demo_ext demo_scope 1 lg2 = Inr ?u"
    by (simp add: run_in_scope_Inr u(3) insert_run_def dm_simps) (simp add: demo_run_def demo_scope_def)
  have valid: "validate_event_type (ae_event_type demo_event_request) = Inr ()"
    by (simp add: validate_event_type_def demo_event_request_def char_in_def)
  let ?ev = "build_event demo_ext (oi_event_id (demo_input 5000 5)) demo_scope ?u (ae_event_type demo_event_request)
    (ae_occurred_at_ms demo_event_request) (ae_payload demo_event_request) (oi_now (demo_input 5000 5))"
  have s: "evr_sequence ?ev = 1" "evr_run_id ?ev = 1"
    by (simp_all add: build_event_def Let_def demo_run_def i64_add_eq in_i64_def i64_min_def i64_max_def)
  have ev2: "run_events (lg_indexes (run_lock 1 lg2)) 1 = [ev]"
    using wal_append_indexes [OF p(1)] apply_event_push [OF fits] apply_fits(1) [OF ledger_invD(1) [OF inv] fits] id
    by (cases "indexes_apply demo_ext (EffectApplied ?e (Some ev)) (lg_indexes ?lg)")
      (auto simp: u(3) push_event_sel demo_run_empty)
  have "fst (apply_event demo_ext ?ev (lg_indexes (run_lock 1 lg2))) = Inr ()"
    using apply_event_covered [of "lg_indexes (run_lock 1 lg2)" ?ev demo_ext 1]
    by (simp only: s ev2) (simp add: i64_max_def)
  then obtain ix where x: "indexes_apply demo_ext (EventAppended ?ev) (lg_indexes (run_lock 1 lg2)) = (Inr (), ix)"
    by (cases "apply_event demo_ext ?ev (lg_indexes (run_lock 1 lg2))") auto
  have ready2: "wal_ready demo_ext (Suc 100) (run_lock 1 lg2)" using u(2) by simp
  obtain lg3 where q: "persist demo_ext demo_serde (demo_input 5000 5) (EventAppended ?ev) (run_lock 1 lg2) = (Inr (), lg3)"
    by (rule persist_writes [OF ready2 demo_healthy demo_encodes len x])
  have a: "append_event demo_ext demo_serde (demo_input 5000 5) demo_scope 1 demo_event_request lg2 = (Inr (view_event ?ev), lg3)"
    using valid run2 q by (simp add: append_event_def Let_def)
  have room: "int (length (run_events (lg_indexes ?lg) 1)) + 1 < i64_max" by (simp add: demo_run_empty i64_max_def)
  from overlapping_update_rewinds_run [OF inv f run nx id fit p(1) u(1) room a]
  obtain run' where r: "run_in_scope demo_ext demo_scope 1 lg2 = Inr run'" "rr_last_event_sequence run' = 0"
    "run_events (lg_indexes lg2) 1 = [ev]" "run_events (lg_indexes lg3) 1 = [ev]"
    by (auto simp: demo_run_empty)
  show ?thesis
    by (intro exI conjI) (rule p(1) u(1) a r)+
qed

end
