(* ===== verification/Rust_Collections.thy ===== *)
theory Rust_Collections
  imports Rust_Std
begin

text \<open>
  Collections and parsing of the Rust standard library that the key-value store uses.  A \<open>BTreeMap\<close> is
  the list of its entries in ascending order of keys and a \<open>BTreeSet\<close> a map to the unit type; the locale
  \<open>ordered_map\<close> extends the contract of a map by its order and is interpreted on this model.  A
  \<open>HashMap\<close> is the association list of the prelude.
\<close>

section \<open>Unsigned numbers and text\<close>

definition u64_max :: nat where "u64_max = 18446744073709551615"

definition u64_saturating_add :: "nat \<Rightarrow> nat \<Rightarrow> nat" where
  "u64_saturating_add a b = min u64_max (a + b)"

text \<open>\<open>parse::<u64>\<close>: an optional plus sign, at least one digit, nothing else, and the value in range.\<close>

definition parse_u64 :: "string \<Rightarrow> nat option" where
  "parse_u64 s =
     (let body = (case s of c # cs \<Rightarrow> (if c = CHR ''+'' then cs else s) | [] \<Rightarrow> [])
      in if body = [] then None
         else case digits_value 10 body 0 of None \<Rightarrow> None | Some n \<Rightarrow> if n \<le> u64_max then Some n else None)"

lemma parse_u64_to_string [simp]:
  assumes "n \<le> u64_max"
  shows "parse_u64 (nat_to_string n) = Some n"
  unfolding nat_to_string_def
proof -
  have "(case nat_to_radix 10 n of c # cs \<Rightarrow> (if c = CHR ''+'' then cs else nat_to_radix 10 n) | [] \<Rightarrow> []) = nat_to_radix 10 n"
    using nat_to_radix_no_sign(2) [of 10 n] by (cases "nat_to_radix 10 n") auto
  then show "parse_u64 (nat_to_radix 10 n) = Some n" using assms by (simp add: parse_u64_def Let_def digits_value_radix)
qed

text \<open>\<open>str::split_once\<close>: at the first occurrence of the separator.\<close>

fun split_once :: "char \<Rightarrow> string \<Rightarrow> (string \<times> string) option" where
  "split_once c [] = None"
| "split_once c (x # xs) =
     (if x = c then Some ([], xs) else map_option (\<lambda>(a, b). (x # a, b)) (split_once c xs))"

lemma split_once_append: "c \<notin> set a \<Longrightarrow> split_once c (a @ c # b) = Some (a, b)"
  by (induction a) auto

section \<open>Hash maps\<close>

text \<open>\<open>get_mut\<close> with an update of the value, and \<open>entry(k).or_insert(d)\<close>.\<close>

definition dm_modify :: "'k \<Rightarrow> ('v \<Rightarrow> 'v) \<Rightarrow> ('k, 'v) dashmap \<Rightarrow> ('k, 'v) dashmap" where
  "dm_modify k f m = (case dm_get m k of None \<Rightarrow> m | Some v \<Rightarrow> dm_insert k (f v) m)"

definition dm_or_insert :: "'k \<Rightarrow> 'v \<Rightarrow> ('k, 'v) dashmap \<Rightarrow> ('k, 'v) dashmap" where
  "dm_or_insert k d m = (case dm_get m k of None \<Rightarrow> dm_insert k d m | Some _ \<Rightarrow> m)"

lemma dm_get_modify [dm_simps]: "dm_get (dm_modify k f m) k' = (if k' = k then map_option f (dm_get m k) else dm_get m k')"
  by (simp add: dm_modify_def dm_simps split: option.split)

lemma dm_get_or_insert [dm_simps]:
  "dm_get (dm_or_insert k d m) k' = (if k' = k then Some (unwrap_or (dm_get m k) d) else dm_get m k')"
  by (auto simp: dm_or_insert_def dm_simps split: option.split)

lemma dm_ok_modify [simp, inv_intros]: "dm_ok m \<Longrightarrow> dm_ok (dm_modify k f m)"
  by (simp add: dm_modify_def split: option.split)

lemma dm_ok_or_insert [simp, inv_intros]: "dm_ok m \<Longrightarrow> dm_ok (dm_or_insert k d m)"
  by (simp add: dm_or_insert_def split: option.split)

section \<open>Ordered maps\<close>

type_synonym ('k, 'v) btree = "('k \<times> 'v) list"

definition bt_keys :: "('k, 'v) btree \<Rightarrow> 'k list" where
  "bt_keys t = map fst t"

definition bt_get :: "('k, 'v) btree \<Rightarrow> 'k \<Rightarrow> 'v option" where
  "bt_get t k = map_of t k"

fun bt_insert :: "'k :: linorder \<Rightarrow> 'v \<Rightarrow> ('k, 'v) btree \<Rightarrow> ('k, 'v) btree" where
  "bt_insert k v [] = [(k, v)]"
| "bt_insert k v ((k', v') # t) =
     (if k < k' then (k, v) # (k', v') # t
      else if k = k' then (k, v) # t
      else (k', v') # bt_insert k v t)"

definition bt_remove :: "'k \<Rightarrow> ('k, 'v) btree \<Rightarrow> ('k, 'v) btree" where
  "bt_remove k t = filter (\<lambda>(k', _). k' \<noteq> k) t"

text \<open>The ranges \<open>(Excluded(k), Unbounded)\<close>, \<open>k..\<close> and \<open>lo..=hi\<close>.\<close>

definition bt_after :: "'k :: linorder \<Rightarrow> ('k, 'v) btree \<Rightarrow> ('k, 'v) btree" where
  "bt_after k t = filter (\<lambda>(k', _). k < k') t"

definition bt_from :: "'k :: linorder \<Rightarrow> ('k, 'v) btree \<Rightarrow> ('k, 'v) btree" where
  "bt_from k t = filter (\<lambda>(k', _). k \<le> k') t"

definition bt_range :: "'k :: linorder \<Rightarrow> 'k \<Rightarrow> ('k, 'v) btree \<Rightarrow> ('k, 'v) btree" where
  "bt_range lo hi t = filter (\<lambda>(k', _). lo \<le> k' \<and> k' \<le> hi) t"

definition bt_ok :: "('k :: linorder, 'v) btree \<Rightarrow> bool" where
  "bt_ok t = sorted_wrt (<) (bt_keys t)"

subsection \<open>Laws\<close>

lemma bt_get_empty [simp]: "bt_get [] k = None"
  by (simp add: bt_get_def)

lemma bt_get_insert: "bt_get (bt_insert k v t) k' = (if k' = k then Some v else bt_get t k')"
  by (induction k v t rule: bt_insert.induct) (auto simp: bt_get_def)

lemma bt_get_remove: "bt_get (bt_remove k t) k' = (if k' = k then None else bt_get t k')"
  by (induction t) (auto simp: bt_get_def bt_remove_def)

lemma bt_keys_insert: "set (bt_keys (bt_insert k v t)) = insert k (set (bt_keys t))"
  by (induction k v t rule: bt_insert.induct) (auto simp: bt_keys_def)

lemma bt_keys_remove: "bt_keys (bt_remove k t) = filter (\<lambda>k'. k' \<noteq> k) (bt_keys t)"
  by (induction t) (auto simp: bt_keys_def bt_remove_def)

lemma bt_keys_get: "k \<in> set (bt_keys t) \<longleftrightarrow> bt_get t k \<noteq> None"
  by (auto simp: bt_keys_def bt_get_def map_of_eq_None_iff)

lemma bt_ok_empty [simp]: "bt_ok []"
  by (simp add: bt_ok_def bt_keys_def)

lemma bt_ok_insert: "bt_ok t \<Longrightarrow> bt_ok (bt_insert k v t)"
proof (induction k v t rule: bt_insert.induct)
  case (2 k v k' v' t)
  have "set (map fst (bt_insert k v t)) = insert k (set (map fst t))" using bt_keys_insert [of k v t] by (simp add: bt_keys_def)
  with 2 show ?case by (fastforce simp: bt_ok_def bt_keys_def)
qed (simp add: bt_ok_def bt_keys_def)

lemma bt_ok_filter: "bt_ok t \<Longrightarrow> bt_ok (filter P t)"
  unfolding bt_ok_def bt_keys_def by (induction t) auto

lemma bt_ok_remove: "bt_ok t \<Longrightarrow> bt_ok (bt_remove k t)"
  unfolding bt_remove_def by (rule bt_ok_filter)

lemma bt_ok_distinct: "bt_ok t \<Longrightarrow> distinct (map fst t)"
  by (simp add: bt_ok_def bt_keys_def strict_sorted_iff)

lemma bt_get_in_set: "bt_ok t \<Longrightarrow> bt_get t k = Some v \<longleftrightarrow> (k, v) \<in> set t"
  by (simp add: bt_get_def bt_ok_distinct)

text \<open>Two ordered maps with the same lookups are equal.\<close>

lemma bt_ext:
  assumes "bt_ok s" "bt_ok t" "\<And>k. bt_get s k = bt_get t k"
  shows "s = t"
proof -
  have "set s = set t" using assms by (auto simp flip: bt_get_in_set)
  moreover from this have "inj_on fst (set s \<union> set t)" using bt_ok_distinct [OF assms(1)] by (simp add: distinct_map)
  ultimately show ?thesis using assms(1,2)
    by (intro map_sorted_distinct_set_unique [of fst]) (simp_all add: bt_ok_def bt_keys_def strict_sorted_iff)
qed

text \<open>
  The contract of an ordered map.  Its clients are the lemmas below: what is left after a sequence of
  removals, and that the entries are determined by the lookups.
\<close>

locale ordered_map = hash_map get insert_at remove_at ok
  for get :: "'m \<Rightarrow> 'k :: linorder \<Rightarrow> 'v option" and insert_at remove_at ok +
  fixes entries :: "'m \<Rightarrow> ('k \<times> 'v) list"
  assumes entries_get: "ok m \<Longrightarrow> (k, v) \<in> set (entries m) \<longleftrightarrow> get m k = Some v"
    and entries_sorted: "ok m \<Longrightarrow> sorted_wrt (<) (map fst (entries m))"
begin

lemma entries_distinct: "ok m \<Longrightarrow> distinct (map fst (entries m))"
  using entries_sorted [of m] by (simp add: strict_sorted_iff)

lemma entries_eqI:
  assumes "ok m" "sorted_wrt (<) (map fst es)" "\<And>k v. (k, v) \<in> set es \<longleftrightarrow> get m k = Some v"
  shows "entries m = es"
proof -
  have "set (entries m) = set es" using assms(3) entries_get [OF assms(1)] by auto
  moreover from this have "inj_on fst (set (entries m) \<union> set es)" using entries_distinct [OF assms(1)] by (simp add: distinct_map)
  ultimately show ?thesis using entries_sorted [OF assms(1)] assms(2)
    by (intro map_sorted_distinct_set_unique [of fst]) (simp_all add: strict_sorted_iff)
qed

lemma entries_remove: "ok m \<Longrightarrow> entries (remove_at k m) = filter (\<lambda>(k', _). k' \<noteq> k) (entries m)"
proof (rule entries_eqI)
  assume ok: "ok m"
  then show "ok (remove_at k m)" by (rule ok_remove)
  show "sorted_wrt (<) (map fst (filter (\<lambda>(k', _). k' \<noteq> k) (entries m)))"
    using sorted_wrt_filter [OF entries_sorted [OF ok], of "\<lambda>k'. k' \<noteq> k"] by (simp add: filter_map comp_def case_prod_unfold)
qed (auto simp: entries_get get_remove)

lemma entries_remove_all: "ok m \<Longrightarrow> entries (fold remove_at ks m) = filter (\<lambda>(k', _). k' \<notin> set ks) (entries m)"
proof (induction ks arbitrary: m)
  case (Cons k ks)
  then show ?case by (auto simp: entries_remove ok_remove intro!: filter_cong)
qed (simp add: case_prod_beta)

end

interpretation bt: ordered_map bt_get "bt_insert :: 'k :: linorder \<Rightarrow> 'v \<Rightarrow> _" bt_remove bt_ok "\<lambda>t. t"
  by unfold_locales
    (auto simp: bt_get_insert bt_get_remove bt_ok_insert bt_ok_remove simp flip: bt_get_in_set, simp add: bt_ok_def bt_keys_def)

end
