(* ===== verification/Ledger_Listing.thy ===== *)
theory Ledger_Listing
  imports Ledger_Guarantees Rust_Collections
begin

text \<open>
  Cursor pagination of \<open>calod-ledger/src/ledger.rs\<close>: limits, cursors and the four list
  operations.

  The locale \<open>keyset\<close> is the contract that makes following the cursors exhaustive: a cursor
  decodes to the key of the item it was made from, and \<open>retain\<close> keeps exactly the items after that
  key in the list order.  It is interpreted for effects, runs, checkpoints and events.
\<close>

section \<open>Limits and cursors\<close>

definition resolve_limit :: "nat option \<Rightarrow> ledger_error + nat" where
  "resolve_limit limit =
     (let limit = unwrap_or limit 50 in
      if \<not> (1 \<le> limit \<and> limit \<le> 100) then Inl (Validation ''limit'' ''must be between 1 and 100'')
      else Inr limit)"

text \<open>\<open>{sort_key:016x}\<close> of a negative number shows its two's complement.\<close>

definition encode_cursor :: "ext \<Rightarrow> int \<Rightarrow> uuid \<Rightarrow> string" where
  "encode_cursor X key i =
     pad_zero 16 (nat_to_radix 16 (nat (key mod 18446744073709551616))) @ ''_'' @ uuid_simple X i"

definition malformed_cursor :: ledger_error where
  "malformed_cursor = Validation ''cursor'' ''malformed cursor''"

definition decode_seq_id_cursor :: "ext \<Rightarrow> string option \<Rightarrow> ledger_error + (int \<times> uuid) option" where
  "decode_seq_id_cursor X cursor =
     (case cursor of None \<Rightarrow> Inr None
      | Some cursor \<Rightarrow>
     (case split_once (CHR ''_'') cursor of None \<Rightarrow> Inl malformed_cursor
      | Some (key_hex, id_hex) \<Rightarrow>
     (case parse_i64_radix 16 key_hex of None \<Rightarrow> Inl malformed_cursor
      | Some key \<Rightarrow>
     (case uuid_parse_str X id_hex of None \<Rightarrow> Inl malformed_cursor
      | Some i \<Rightarrow> Inr (Some (key, i))))))"

definition decode_cursor :: "ext \<Rightarrow> string option \<Rightarrow> ledger_error + (int \<times> uuid) option" where
  "decode_cursor X cursor = decode_seq_id_cursor X cursor"

definition paginate :: "'a list \<Rightarrow> nat \<Rightarrow> ('a \<Rightarrow> string) \<Rightarrow> 'a list \<times> cursor_page" where
  "paginate items limit cursor_of =
     (let has_more = limit < length items;
          page = take limit items;
          next_cursor = (if has_more then (if page = [] then None else Some (cursor_of (last page))) else None)
      in (page, \<lparr>pg_next_cursor = next_cursor, pg_has_more = has_more, pg_limit = limit\<rparr>))"

text \<open>\<open>sort_by\<close> with the arguments exchanged: descending, and stable.\<close>

definition sort_desc :: "('a \<Rightarrow> 'k :: linorder) \<Rightarrow> 'a list \<Rightarrow> 'a list" where
  "sort_desc key xs = rev (sort_key key (rev xs))"

section \<open>Lists\<close>

definition effect_matches :: "tenant_scope \<Rightarrow> effect_filter \<Rightarrow> effect_record \<Rightarrow> bool" where
  "effect_matches scope filt e \<longleftrightarrow>
     er_tenant_id e = sc_tenant_id scope \<and> er_project_id e = sc_project_id scope \<and>
     is_none_or (eff_run_id filt) (\<lambda>r. er_run_id e = Some r) \<and>
     is_none_or (eff_state filt) (\<lambda>s. api_state (er_state e) = s) \<and>
     is_none_or (eff_tool_name filt) (\<lambda>t. er_tool_name e = t) \<and>
     is_none_or (eff_created_after_ms filt) (\<lambda>t. t \<le> er_created_at_ms e)"

definition effect_sort_key :: "effect_record \<Rightarrow> int \<times> uuid" where
  "effect_sort_key e = (er_created_at_ms e, er_id e)"

definition retain_below :: "('a \<Rightarrow> 'k :: linorder) \<Rightarrow> 'k option \<Rightarrow> 'a list \<Rightarrow> 'a list" where
  "retain_below key after xs = (case after of None \<Rightarrow> xs | Some k \<Rightarrow> filter (\<lambda>x. key x < k) xs)"

definition list_effects ::
  "ext \<Rightarrow> tenant_scope \<Rightarrow> effect_filter \<Rightarrow> string option \<Rightarrow> nat option \<Rightarrow> ledger \<Rightarrow> ledger_error + effect_list" where
  "list_effects X scope filt cursor limit lg =
     (case resolve_limit limit of Inl e \<Rightarrow> Inl e
      | Inr limit \<Rightarrow>
     (case decode_cursor X cursor of Inl e \<Rightarrow> Inl e
      | Inr after \<Rightarrow>
        let effects = filter (effect_matches scope filt) (dm_values (ix_effects_by_id (lg_indexes lg)));
            effects = sort_desc effect_sort_key effects;
            effects = retain_below effect_sort_key after effects;
            (page, page_info) = paginate effects limit (\<lambda>e. encode_cursor X (er_created_at_ms e) (er_id e))
        in Inr \<lparr>efl_data = map view_effect page, efl_pagination = page_info\<rparr>))"

definition run_matches :: "tenant_scope \<Rightarrow> run_filter \<Rightarrow> run_record \<Rightarrow> bool" where
  "run_matches scope filt r \<longleftrightarrow>
     rr_tenant_id r = sc_tenant_id scope \<and> rr_project_id r = sc_project_id scope \<and>
     is_none_or (rf_status filt) (\<lambda>s. rr_status r = s) \<and>
     is_none_or (rf_agent_name filt) (\<lambda>a. rr_agent_name r = a) \<and>
     is_none_or (rf_created_after_ms filt) (\<lambda>t. t \<le> rr_created_at_ms r)"

definition run_sort_key :: "run_record \<Rightarrow> int \<times> uuid" where
  "run_sort_key r = (rr_created_at_ms r, rr_id r)"

definition list_runs ::
  "ext \<Rightarrow> tenant_scope \<Rightarrow> run_filter \<Rightarrow> string option \<Rightarrow> nat option \<Rightarrow> ledger \<Rightarrow> ledger_error + run_list" where
  "list_runs X scope filt cursor limit lg =
     (case resolve_limit limit of Inl e \<Rightarrow> Inl e
      | Inr limit \<Rightarrow>
     (case decode_cursor X cursor of Inl e \<Rightarrow> Inl e
      | Inr after \<Rightarrow>
        let runs = filter (run_matches scope filt) (dm_values (ix_runs (lg_indexes lg)));
            runs = sort_desc run_sort_key runs;
            runs = retain_below run_sort_key after runs;
            (page, page_info) = paginate runs limit (\<lambda>r. encode_cursor X (rr_created_at_ms r) (rr_id r))
        in Inr \<lparr>rl_data = map view_run page, rl_pagination = page_info\<rparr>))"

definition event_matches :: "event_filter \<Rightarrow> int option \<Rightarrow> event_record \<Rightarrow> bool" where
  "event_matches filt after e \<longleftrightarrow>
     is_none_or (evf_event_type filt) (\<lambda>t. evr_event_type e = t) \<and>
     is_none_or (evf_after_sequence filt) (\<lambda>s. s < evr_sequence e) \<and>
     is_none_or after (\<lambda>s. s < evr_sequence e)"

definition decode_event_cursor :: "string option \<Rightarrow> ledger_error + int option" where
  "decode_event_cursor cursor =
     (case cursor of None \<Rightarrow> Inr None
      | Some c \<Rightarrow> (case parse_i64 c of None \<Rightarrow> Inl (Validation ''cursor'' ''invalid event cursor'')
                   | Some s \<Rightarrow> Inr (Some s)))"

definition list_events ::
  "ext \<Rightarrow> tenant_scope \<Rightarrow> uuid \<Rightarrow> event_filter \<Rightarrow> string option \<Rightarrow> nat option \<Rightarrow> ledger \<Rightarrow> ledger_error + event_list" where
  "list_events X scope run_id filt cursor limit lg =
     (case resolve_limit limit of Inl e \<Rightarrow> Inl e
      | Inr limit \<Rightarrow>
     (case run_in_scope X scope run_id lg of Inl e \<Rightarrow> Inl e
      | Inr _ \<Rightarrow>
     (case decode_event_cursor cursor of Inl e \<Rightarrow> Inl e
      | Inr after \<Rightarrow>
        let events = filter (event_matches filt after) (run_events (lg_indexes lg) run_id);
            events = sort_key evr_sequence events;
            (page, page_info) = paginate events limit (\<lambda>e. int_to_string (evr_sequence e))
        in Inr \<lparr>evl_data = map view_event page, evl_pagination = page_info\<rparr>)))"

definition checkpoint_sort_key :: "checkpoint_record \<Rightarrow> int \<times> uuid" where
  "checkpoint_sort_key c = (cpr_event_sequence c, cpr_id c)"

definition list_checkpoints ::
  "ext \<Rightarrow> tenant_scope \<Rightarrow> uuid \<Rightarrow> string option \<Rightarrow> nat option \<Rightarrow> ledger \<Rightarrow> ledger_error + checkpoint_list" where
  "list_checkpoints X scope run_id cursor limit lg =
     (case resolve_limit limit of Inl e \<Rightarrow> Inl e
      | Inr limit \<Rightarrow>
     (case run_in_scope X scope run_id lg of Inl e \<Rightarrow> Inl e
      | Inr _ \<Rightarrow>
     (case decode_seq_id_cursor X cursor of Inl e \<Rightarrow> Inl e
      | Inr after \<Rightarrow>
        let checkpoints = run_checkpoints (lg_indexes lg) run_id;
            checkpoints = sort_desc checkpoint_sort_key checkpoints;
            checkpoints = retain_below checkpoint_sort_key after checkpoints;
            (page, page_info) = paginate checkpoints limit (\<lambda>c. encode_cursor X (cpr_event_sequence c) (cpr_id c))
        in Inr \<lparr>cpl_data = map view_checkpoint page, cpl_pagination = page_info\<rparr>)))"

section \<open>Cursors round trip\<close>

lemma hex_no_underscore: "CHR ''_'' \<notin> set (pad_zero w (nat_to_radix 16 n))"
  using nat_to_radix_char_code [of 16 "CHR ''_''" n] by (auto simp: pad_zero_def)

lemma parse_padded_hex:
  assumes "int n \<le> i64_max"
  shows "parse_i64_radix 16 (pad_zero w (nat_to_radix 16 n)) = Some (int n)"
  using assms nat_to_radix_no_sign [of 16 n]
  by (intro parse_unsigned) (auto simp: pad_zero_def digits_value_zeros digits_value_radix in_i64_def i64_min_def)

lemma cursor_roundtrip:
  assumes "uuid_ok X" "0 \<le> key" "key \<le> i64_max"
  shows "decode_seq_id_cursor X (Some (encode_cursor X key i)) = Inr (Some (key, i))"
proof -
  have "key mod 18446744073709551616 = key" using assms(2,3) by (simp add: i64_max_def)
  moreover have "parse_i64_radix 16 (pad_zero 16 (nat_to_radix 16 (nat key))) = Some key"
    using parse_padded_hex [of "nat key" 16] assms(2,3) by simp
  ultimately show ?thesis using assms(1)
    by (simp add: decode_seq_id_cursor_def encode_cursor_def split_once_append hex_no_underscore uuid_ok_def)
qed

section \<open>Following the cursors\<close>

text \<open>
  What a client does to read a whole list: ask for a page, and again with \<open>next_cursor\<close> until
  there is none.  \<open>None\<close> is running out of the given number of requests.
\<close>

fun follow_pages ::
  "(string option \<Rightarrow> 'e + 'p) \<Rightarrow> ('p \<Rightarrow> 'd list) \<Rightarrow> ('p \<Rightarrow> cursor_page) \<Rightarrow> nat \<Rightarrow> string option \<Rightarrow> ('e + 'd list) option" where
  "follow_pages fetch data page 0 c = None"
| "follow_pages fetch data page (Suc n) c =
     (case fetch c of Inl e \<Rightarrow> Some (Inl e)
      | Inr p \<Rightarrow> (case pg_next_cursor (page p) of None \<Rightarrow> Some (Inr (data p))
                 | Some c' \<Rightarrow> map_option (map_sum id ((@) (data p))) (follow_pages fetch data page n (Some c'))))"

locale keyset =
  fixes decode :: "string option \<Rightarrow> 'e + 'k option"
    and cursor_of :: "'a \<Rightarrow> string"
    and key :: "'a \<Rightarrow> 'k"
    and beyond :: "'k \<Rightarrow> 'a \<Rightarrow> bool"
    and valid :: "'a \<Rightarrow> bool"
  assumes decode_cursor_of: "valid x \<Longrightarrow> decode (Some (cursor_of x)) = Inr (Some (key x))"
    and beyond_asym: "beyond (key x) y \<Longrightarrow> \<not> beyond (key y) x"
    and beyond_trans: "beyond (key x) y \<Longrightarrow> beyond (key y) z \<Longrightarrow> beyond (key x) z"
begin

definition in_order :: "'a list \<Rightarrow> bool" where
  "in_order xs \<longleftrightarrow> sorted_wrt (\<lambda>x y. beyond (key x) y) xs \<and> (\<forall>x \<in> set xs. valid x)"

lemma rest_after:
  assumes "in_order (ys @ x # zs)"
  shows "filter (beyond (key x)) (ys @ x # zs) = zs"
proof -
  have "\<not> beyond (key x) x" using beyond_asym by blast
  moreover have "filter (beyond (key x)) ys = []"
    using assms beyond_asym by (fastforce simp: in_order_def sorted_wrt_append filter_empty_conv)
  moreover have "filter (beyond (key x)) zs = zs"
    using assms by (auto simp: in_order_def sorted_wrt_append filter_id_conv)
  ultimately show ?thesis by simp
qed

text \<open>A fetch that answers with a page of the items beyond its cursor.\<close>

definition serves ::
  "(string option \<Rightarrow> 'e + 'p) \<Rightarrow> ('p \<Rightarrow> 'd list) \<Rightarrow> ('p \<Rightarrow> cursor_page) \<Rightarrow> ('a \<Rightarrow> 'd) \<Rightarrow> nat \<Rightarrow> 'a list \<Rightarrow> bool" where
  "serves fetch data page view limit xs \<longleftrightarrow>
     (\<exists>p. fetch None = Inr p \<and> (data p, page p) = apfst (map view) (paginate xs limit cursor_of)) \<and>
     (\<forall>c k. decode (Some c) = Inr (Some k) \<longrightarrow>
        (\<exists>p. fetch (Some c) = Inr p \<and>
             (data p, page p) = apfst (map view) (paginate (filter (beyond k) xs) limit cursor_of)))"

lemma follow_from:
  assumes "in_order xs" "serves fetch data page view limit xs" "0 < limit"
  shows "xs = ys @ zs \<Longrightarrow> length zs < n \<Longrightarrow>
         fetch c = Inr p \<Longrightarrow> (data p, page p) = apfst (map view) (paginate zs limit cursor_of) \<Longrightarrow>
         follow_pages fetch data page n c = Some (Inr (map view zs))"
proof (induction n arbitrary: ys zs c p)
  case 0
  then show ?case by simp
next
  case (Suc n)
  have d: "data p = map view (take limit zs)"
    and g: "page p = snd (paginate zs limit cursor_of)"
    using Suc.prems(4) by (simp_all add: paginate_def Let_def)
  show ?case
  proof (cases "limit < length zs")
    case False
    then show ?thesis using Suc.prems(3) d g by (simp add: paginate_def Let_def)
  next
    case True
    define x where "x = last (take limit zs)"
    define bs where "bs = butlast (take limit zs)"
    have "take limit zs \<noteq> []" using True assms(3) by auto
    then have t: "take limit zs = bs @ [x]" unfolding x_def bs_def by (rule append_butlast_last_id [symmetric])
    have "zs = (bs @ [x]) @ drop limit zs" unfolding t [symmetric] by (rule append_take_drop_id [symmetric])
    then have split: "xs = (ys @ bs) @ x # drop limit zs" using Suc.prems(1) by simp
    have rest: "filter (beyond (key x)) xs = drop limit zs"
      using rest_after [of "ys @ bs" x "drop limit zs"] assms(1) unfolding split [symmetric] by blast
    have "x \<in> set xs" by (subst split) simp
    then have "valid x" using assms(1) by (simp add: in_order_def)
    then obtain q where q: "fetch (Some (cursor_of x)) = Inr q"
      "(data q, page q) = apfst (map view) (paginate (drop limit zs) limit cursor_of)"
      using assms(2) decode_cursor_of rest unfolding serves_def by metis
    have "xs = (ys @ take limit zs) @ drop limit zs" using Suc.prems(1) by simp
    from Suc.IH [OF this _ q] have
      "follow_pages fetch data page n (Some (cursor_of x)) = Some (Inr (map view (drop limit zs)))"
      using Suc.prems(2) True assms(3) by simp
    moreover have "pg_next_cursor (page p) = Some (cursor_of x)"
      using True assms(3) by (auto simp: g paginate_def Let_def x_def)
    ultimately have "follow_pages fetch data page (Suc n) c =
        Some (Inr (map view (take limit zs) @ map view (drop limit zs)))"
      using Suc.prems(3) by (simp add: d)
    then show ?thesis by (simp only: map_append [symmetric] append_take_drop_id)
  qed
qed

lemma follow_all:
  assumes "in_order xs" "serves fetch data page view limit xs" "0 < limit" "length xs < n"
  shows "follow_pages fetch data page n None = Some (Inr (map view xs))"
proof -
  obtain p where "fetch None = Inr p" "(data p, page p) = apfst (map view) (paginate xs limit cursor_of)"
    using assms(2) unfolding serves_def by blast
  then show ?thesis using assms(4) by (intro follow_from [OF assms(1-3)]) simp_all
qed

end

section \<open>The four lists\<close>

lemma sorted_sort_desc: "sorted_wrt (\<lambda>x y. key y \<le> key x) (sort_desc key xs)"
  using sorted_sort_key [of key "rev xs"] unfolding sort_desc_def sorted_wrt_rev sorted_map .

lemma set_sort_desc [simp]: "set (sort_desc key xs) = set xs"
  by (simp add: sort_desc_def)

lemma distinct_sort_desc [simp]: "distinct (map key (sort_desc key xs)) = distinct (map key xs)"
proof -
  have "mset (map key (sort_desc key xs)) = mset (map key xs)" by (simp add: sort_desc_def)
  then show ?thesis by (rule mset_eq_imp_distinct_iff)
qed

lemma strict_sort_desc:
  assumes "distinct (map key xs)"
  shows "sorted_wrt (\<lambda>x y. key y < key x) (sort_desc key xs)"
proof -
  have "distinct (map key (sort_desc key xs))" using assms by simp
  then have "sorted_wrt (\<lambda>x y. key x \<noteq> key y) (sort_desc key xs)"
    by (simp add: sorted_wrt_iff_nth_less distinct_conv_nth)
  then show ?thesis using sorted_sort_desc [of key xs]
    unfolding sorted_wrt_iff_nth_less order_less_le by metis
qed

definition cursor_key_ok :: "ext \<Rightarrow> int \<Rightarrow> bool" where
  "cursor_key_ok X k \<longleftrightarrow> uuid_ok X \<and> 0 \<le> k \<and> k \<le> i64_max"

interpretation newest_first: keyset "decode_seq_id_cursor X" "\<lambda>x. encode_cursor X (fst (key x)) (snd (key x))"
    key "\<lambda>k x. key x < k" "\<lambda>x. cursor_key_ok X (fst (key x))"
  for X :: ext and key :: "'a \<Rightarrow> int \<times> uuid"
  by unfold_locales (auto simp: cursor_key_ok_def cursor_roundtrip)

interpretation timeline: keyset decode_event_cursor "\<lambda>e. int_to_string (evr_sequence e)"
    evr_sequence "\<lambda>s e. s < evr_sequence e" "\<lambda>e. in_i64 (evr_sequence e)"
  by unfold_locales (auto simp: decode_event_cursor_def)

lemma newest_first_order:
  assumes "distinct (map key xs)" "\<forall>x \<in> set xs. cursor_key_ok X (fst (key x))"
  shows "newest_first.in_order key X (sort_desc key xs)"
  using strict_sort_desc [OF assms(1)] assms(2) by (simp add: newest_first.in_order_def)

lemma resolve_limit_pos: "resolve_limit limit = Inr l \<Longrightarrow> 0 < l"
  by (auto simp: resolve_limit_def Let_def split: if_splits)

lemma length_sort_desc [simp]: "length (sort_desc key xs) = length xs"
  by (simp add: sort_desc_def)

text \<open>Ids that are the keys of the map they are stored under are distinct.\<close>

lemma distinct_keyed:
  assumes "dm_ok m" "\<And>i v. dm_get m i = Some v \<Longrightarrow> snd (key v) = i"
  shows "distinct (map key (filter P (dm_values m)))"
proof -
  have "map (snd \<circ> key) (dm_values m) = map fst m"
    using assms dm_get_in_set [OF assms(1)] by (auto simp: dm_values_def)
  then have "distinct (map (snd \<circ> key) (dm_values m))" using assms(1) by (simp add: dm_ok_def)
  then have "distinct (map key (dm_values m))" by (simp add: distinct_map inj_on_def)
  then show ?thesis by (simp add: distinct_map_filter)
qed

lemma follow_newest_first:
  fixes key :: "'a \<Rightarrow> int \<times> uuid" and fetch :: "string option \<Rightarrow> ledger_error + 'p"
  assumes "distinct (map key xs)" "\<forall>x \<in> set xs. cursor_key_ok X (fst (key x))"
    and "0 < l" "length xs < n"
    and "\<And>c after. decode_seq_id_cursor X c = Inr after \<Longrightarrow> \<exists>p. fetch c = Inr p \<and>
      (data p, page p) = apfst (map view) (paginate (retain_below key after (sort_desc key xs)) l
        (\<lambda>x. encode_cursor X (fst (key x)) (snd (key x))))"
  shows "follow_pages fetch data page n None = Some (Inr (map view (sort_desc key xs)))"
proof (rule newest_first.follow_all [OF newest_first_order [OF assms(1,2)] _ assms(3)])
  show "newest_first.serves X key fetch data page view l (sort_desc key xs)"
    using assms(5) [of None None] assms(5) [of "Some c" "Some k" for c k]
    by (simp add: newest_first.serves_def retain_below_def decode_seq_id_cursor_def [of X None])
  show "length (sort_desc key xs) < n" using assms(4) by simp
qed

section \<open>Completeness of the lists\<close>

text \<open>
  C20: Listing effects is exhaustive.  On a ledger that does not change meanwhile, a client that
  asks for the effects of its tenant and project with some filter and any valid limit, and goes on
  with each \<open>next_cursor\<close>, ends after at most one request more than there are effects and has seen exactly
  the matching effects, newest first and each once.
\<close>

theorem list_effects_complete:
  assumes "ledger_inv X lg" "uuid_ok X" "resolve_limit limit = Inr l"
    and "\<forall>e \<in> set (dm_values (ix_effects_by_id (lg_indexes lg))). 0 \<le> er_created_at_ms e \<and> er_created_at_ms e \<le> i64_max"
    and "length (dm_values (ix_effects_by_id (lg_indexes lg))) < n"
  shows "follow_pages (\<lambda>c. list_effects X scope filt c limit lg) efl_data efl_pagination n None =
    Some (Inr (map view_effect (sort_desc effect_sort_key
      (filter (effect_matches scope filt) (dm_values (ix_effects_by_id (lg_indexes lg)))))))"
proof (rule follow_newest_first [OF _ _ resolve_limit_pos [OF assms(3)]])
  let ?vs = "dm_values (ix_effects_by_id (lg_indexes lg))"
  show "distinct (map effect_sort_key (filter (effect_matches scope filt) ?vs))"
    using ledger_invD(1) [OF assms(1)]
    by (intro distinct_keyed) (auto simp: indexes_ok_def effects_ok_def effect_sort_key_def)
  show "\<forall>e \<in> set (filter (effect_matches scope filt) ?vs). cursor_key_ok X (fst (effect_sort_key e))"
    using assms(2,4) by (simp add: cursor_key_ok_def effect_sort_key_def)
  show "length (filter (effect_matches scope filt) ?vs) < n"
    using assms(5) length_filter_le [of "effect_matches scope filt" ?vs] by linarith
qed (use assms(3) in \<open>simp add: list_effects_def decode_cursor_def paginate_def Let_def effect_sort_key_def\<close>)

theorem list_effects_complete_witness:
  "follow_pages (\<lambda>c. list_effects demo_ext demo_scope
       \<lparr>eff_run_id = Some 1, eff_state = None, eff_tool_name = None, eff_created_after_ms = None\<rparr>
       c (Some 1) (demo_run_ledger Running OutcomeUnknown)) efl_data efl_pagination 2 None =
     Some (Inr [view_effect (demo_run_effect OutcomeUnknown)])"
proof -
  have v: "dm_values (ix_effects_by_id (lg_indexes (demo_run_ledger Running OutcomeUnknown))) = [demo_run_effect OutcomeUnknown]"
    by (simp add: demo_run_ledger_def insert_effect_def insert_run_def empty_indexes_def dm_values_def dm_insert_def)
  show ?thesis
    using list_effects_complete [OF demo_run_ledger_inv demo_uuid_ok, of "Some 1" 1 Running OutcomeUnknown 2 demo_scope
        "\<lparr>eff_run_id = Some 1, eff_state = None, eff_tool_name = None, eff_created_after_ms = None\<rparr>"]
    by (simp add: v resolve_limit_def unwrap_or_def demo_run_effect_def demo_effect_def i64_max_def
        effect_matches_def is_none_or_def demo_scope_def sort_desc_def)
qed

text \<open>
  Listing runs is exhaustive, in the same sense.
\<close>

theorem list_runs_complete:
  assumes "ledger_inv X lg" "uuid_ok X" "resolve_limit limit = Inr l"
    and "\<forall>r \<in> set (dm_values (ix_runs (lg_indexes lg))). 0 \<le> rr_created_at_ms r \<and> rr_created_at_ms r \<le> i64_max"
    and "length (dm_values (ix_runs (lg_indexes lg))) < n"
  shows "follow_pages (\<lambda>c. list_runs X scope filt c limit lg) rl_data rl_pagination n None =
    Some (Inr (map view_run (sort_desc run_sort_key
      (filter (run_matches scope filt) (dm_values (ix_runs (lg_indexes lg)))))))"
proof (rule follow_newest_first [OF _ _ resolve_limit_pos [OF assms(3)]])
  let ?vs = "dm_values (ix_runs (lg_indexes lg))"
  have "rr_id r = i" if "dm_get (ix_runs (lg_indexes lg)) i = Some r" for i r
    using run_row(1) [OF ledger_invD(1) [OF assms(1)] that] .
  then show "distinct (map run_sort_key (filter (run_matches scope filt) ?vs))"
    using ledger_invD(1) [OF assms(1)]
    by (intro distinct_keyed) (auto simp: indexes_ok_def run_sort_key_def)
  show "\<forall>r \<in> set (filter (run_matches scope filt) ?vs). cursor_key_ok X (fst (run_sort_key r))"
    using assms(2,4) by (simp add: cursor_key_ok_def run_sort_key_def)
  show "length (filter (run_matches scope filt) ?vs) < n"
    using assms(5) length_filter_le [of "run_matches scope filt" ?vs] by linarith
qed (use assms(3) in \<open>simp add: list_runs_def decode_cursor_def paginate_def Let_def run_sort_key_def\<close>)

theorem list_runs_complete_witness:
  "follow_pages (\<lambda>c. list_runs demo_ext demo_scope \<lparr>rf_status = Some Running, rf_agent_name = None, rf_created_after_ms = Some 500\<rparr>
       c None (demo_run_ledger Running OutcomeUnknown)) rl_data rl_pagination 2 None =
     Some (Inr [view_run (demo_run Running)])"
proof -
  have v: "dm_values (ix_runs (lg_indexes (demo_run_ledger Running OutcomeUnknown))) = [demo_run Running]"
    by (simp add: demo_run_ledger_def insert_effect_def insert_run_def empty_indexes_def dm_values_def dm_insert_def)
  show ?thesis
    using list_runs_complete [OF demo_run_ledger_inv demo_uuid_ok, of None 50 Running OutcomeUnknown 2 demo_scope
        "\<lparr>rf_status = Some Running, rf_agent_name = None, rf_created_after_ms = Some 500\<rparr>"]
    by (simp add: v resolve_limit_def unwrap_or_def demo_run_def i64_max_def run_matches_def is_none_or_def
        demo_scope_def sort_desc_def)
qed

text \<open>
  Listing the checkpoints of a run is exhaustive: following the cursors yields every
  checkpoint of the run, the latest position of the timeline first, each once.
\<close>

theorem list_checkpoints_complete:
  assumes "ledger_inv X lg" "uuid_ok X" "resolve_limit limit = Inr l" "run_in_scope X scope i lg = Inr run"
    and "length (run_checkpoints (lg_indexes lg) i) < n"
  shows "follow_pages (\<lambda>c. list_checkpoints X scope i c limit lg) cpl_data cpl_pagination n None =
    Some (Inr (map view_checkpoint (sort_desc checkpoint_sort_key (run_checkpoints (lg_indexes lg) i))))"
proof (rule follow_newest_first [OF _ _ resolve_limit_pos [OF assms(3)] assms(5)])
  let ?cs = "run_checkpoints (lg_indexes lg) i"
  have ok: "run_ok X (lg_indexes lg) i" using ledger_invD(1) [OF assms(1)] by (simp add: indexes_ok_def)
  then show "distinct (map checkpoint_sort_key ?cs)"
    by (auto simp: run_ok_def row_ok_def checkpoint_sort_key_def distinct_map inj_on_def)
  have "\<forall>c \<in> set ?cs. 0 \<le> cpr_event_sequence c \<and> cpr_event_sequence c \<le> int (length (run_events (lg_indexes lg) i))"
    using assms(1) by (auto simp: ledger_inv_def checkpoints_bounded_def)
  moreover have "int (length (run_events (lg_indexes lg) i)) \<le> i64_max" using ok by (simp add: run_ok_def row_ok_def)
  ultimately show "\<forall>c \<in> set ?cs. cursor_key_ok X (fst (checkpoint_sort_key c))"
    using assms(2) by (auto simp: cursor_key_ok_def checkpoint_sort_key_def)
qed (use assms(3,4) in \<open>simp add: list_checkpoints_def paginate_def Let_def checkpoint_sort_key_def\<close>)

definition demo_checkpoint :: checkpoint_record where
  "demo_checkpoint = \<lparr>cpr_schema_version = SCHEMA_VERSION, cpr_tenant_id = ''t'', cpr_project_id = ''p'', cpr_id = 5,
     cpr_run_id = 1, cpr_event_sequence = 0, cpr_state = JNull, cpr_state_digest = ''d'', cpr_created_at_ms = 10\<rparr>"

theorem list_checkpoints_complete_witness:
  "\<exists>lg. follow_pages (\<lambda>c. list_checkpoints demo_ext demo_scope 1 c (Some 100) lg) cpl_data cpl_pagination 2 None =
     Some (Inr [view_checkpoint demo_checkpoint])"
proof -
  obtain lg0 run where c: "ledger_inv demo_ext lg0" "lg_indexes lg0 = insert_run run empty_indexes"
    "rr_id run = 1" "rr_tenant_id run = ''t''" "rr_project_id run = ''p''"
    by (rule demo_create_run)
  define ix where "ix = snd (indexes_apply demo_ext (CheckpointCreated demo_checkpoint) (insert_run run empty_indexes))"
  let ?lg = "ledger_on demo_wal ix"
  have ok: "indexes_ok demo_ext ix"
    using indexes_ok_checkpoint [OF ledger_invD(1) [OF c(1)], of demo_checkpoint] by (simp only: ix_def c(2))
  have ix: "run_checkpoints ix i = (if i = 1 then [demo_checkpoint] else [])" "ix_effects_by_id ix = []"
    "dm_get (ix_runs ix) 1 = Some run" for i
    by (simp_all add: ix_def Let_def insert_run_def empty_indexes_def run_checkpoints_def dm_simps demo_checkpoint_def
        unwrap_or_def c(3))
  have "ledger_inv demo_ext ?lg"
    using ok by (simp add: ledger_inv_def checkpoints_bounded_def ix demo_checkpoint_def)
  moreover have "run_in_scope demo_ext demo_scope 1 ?lg = Inr run"
    using c(3-5) by (simp add: run_in_scope_Inr ix demo_scope_def)
  ultimately show ?thesis
    using list_checkpoints_complete [OF _ demo_uuid_ok, of ?lg "Some 100" 100 demo_scope 1 run 2]
    by (intro exI [of _ ?lg]) (simp add: ix resolve_limit_def unwrap_or_def sort_desc_def)
qed

lemma event_matches_after: "event_matches filt (Some k) = (\<lambda>e. event_matches filt None e \<and> k < evr_sequence e)"
  by (simp add: fun_eq_iff event_matches_def is_none_or_def)

lemma list_events_page:
  assumes "resolve_limit limit = Inr l" "run_in_scope X scope i lg = Inr run" "decode_event_cursor c = Inr after"
  shows "\<exists>p. list_events X scope i filt c limit lg = Inr p \<and> (evl_data p, evl_pagination p) =
    apfst (map view_event) (paginate (sort_key evr_sequence (filter (event_matches filt after) (run_events (lg_indexes lg) i))) l
      (\<lambda>e. int_to_string (evr_sequence e)))"
  using assms by (simp add: list_events_def paginate_def Let_def)

text \<open>
  C19: Reading a timeline is exhaustive: following the cursors yields exactly the events of the run
  that the filter selects, in the order of their sequence numbers.
\<close>

theorem list_events_complete:
  assumes "ledger_inv X lg" "resolve_limit limit = Inr l" "run_in_scope X scope i lg = Inr run"
    and "length (run_events (lg_indexes lg) i) < n"
  shows "follow_pages (\<lambda>c. list_events X scope i filt c limit lg) evl_data evl_pagination n None =
    Some (Inr (map view_event (filter (event_matches filt None) (run_events (lg_indexes lg) i))))"
proof (rule timeline.follow_all [OF _ _ resolve_limit_pos [OF assms(2)]])
  let ?es = "run_events (lg_indexes lg) i"
  have "run_ok X (lg_indexes lg) i" using ledger_invD(1) [OF assms(1)] by (simp add: indexes_ok_def)
  then have chain: "verify_event_chain X (map view_event ?es)" and len: "int (length ?es) \<le> i64_max"
    by (simp_all add: run_ok_def row_ok_def)
  have nth: "\<forall>j < length ?es. evr_sequence (?es ! j) = int j + 1"
    using stored.verify_nth(1) [OF chain _ len] by blast
  then have up: "sorted_wrt (\<lambda>x y. evr_sequence x < evr_sequence y) ?es" by (simp add: sorted_wrt_iff_nth_less)
  have "\<forall>e \<in> set ?es. in_i64 (evr_sequence e)"
    using nth len by (auto simp: in_set_conv_nth in_i64_def i64_min_def)
  then show "timeline.in_order (filter (event_matches filt None) ?es)"
    using sorted_wrt_filter [OF up] by (simp add: timeline.in_order_def)
  have "sorted (map evr_sequence (filter P ?es))" for P
    unfolding sorted_map by (rule sorted_wrt_mono_rel [OF _ sorted_wrt_filter [OF up]]) simp
  then have id: "sort_key evr_sequence (filter P ?es) = filter P ?es" for P by (rule sort_key_id_if_sorted)
  have below: "filter (event_matches filt (Some k)) ?es = filter (\<lambda>e. k < evr_sequence e) (filter (event_matches filt None) ?es)" for k
    by (simp add: event_matches_after)
  show "timeline.serves (\<lambda>c. list_events X scope i filt c limit lg) evl_data evl_pagination view_event l
      (filter (event_matches filt None) ?es)"
    unfolding timeline.serves_def
  proof (intro conjI allI impI)
    show "\<exists>p. list_events X scope i filt None limit lg = Inr p \<and> (evl_data p, evl_pagination p) =
        apfst (map view_event) (paginate (filter (event_matches filt None) ?es) l (\<lambda>e. int_to_string (evr_sequence e)))"
      using list_events_page [OF assms(2,3), of None None filt] by (simp add: id decode_event_cursor_def)
    show "\<exists>p. list_events X scope i filt (Some c) limit lg = Inr p \<and> (evl_data p, evl_pagination p) =
        apfst (map view_event) (paginate (filter (\<lambda>e. k < evr_sequence e) (filter (event_matches filt None) ?es)) l
          (\<lambda>e. int_to_string (evr_sequence e)))" if "decode_event_cursor (Some c) = Inr (Some k)" for c k
      using list_events_page [OF assms(2,3) that, of filt] unfolding below [symmetric] id .
  qed
  show "length (filter (event_matches filt None) ?es) < n"
    using assms(4) length_filter_le [of "event_matches filt None" ?es] by linarith
qed

lemma demo_timeline:
  "n \<le> 2 \<Longrightarrow> \<exists>lg run. ledger_inv demo_ext lg \<and> run_in_scope demo_ext demo_scope 1 lg = Inr run \<and>
     length (run_events (lg_indexes lg) 1) = n \<and> ix_effects_by_id (lg_indexes lg) = [] \<and> ix_checkpoints (lg_indexes lg) = []"
proof (induction n)
  case 0
  obtain lg run where c: "ledger_inv demo_ext lg" "lg_indexes lg = insert_run run empty_indexes"
    "rr_id run = 1" "rr_tenant_id run = ''t''" "rr_project_id run = ''p''"
    by (rule demo_create_run)
  then show ?case
    by (intro exI [of _ lg] exI [of _ run])
      (simp add: run_in_scope_Inr insert_run_def dm_simps demo_scope_def empty_indexes_def run_events_def)
next
  case (Suc n)
  then obtain lg run where c: "ledger_inv demo_ext lg" "run_in_scope demo_ext demo_scope 1 lg = Inr run"
    "length (run_events (lg_indexes lg) 1) = n" "ix_effects_by_id (lg_indexes lg) = []" "ix_checkpoints (lg_indexes lg) = []"
    by auto
  have run: "dm_get (ix_runs (lg_indexes lg)) 1 = Some run" using c(2) by (simp add: run_in_scope_Inr)
  define ev where "ev = build_event demo_ext 5 demo_scope run ''step'' 5 JNull 10"
  have nx: "event_next demo_ext (lg_indexes lg) ev"
    unfolding ev_def using Suc.prems c(3) by (intro build_event_next [OF ledger_invD(1) [OF c(1)] run]) (simp add: i64_max_def)
  have id: "evr_run_id ev = 1" using run_row(1) [OF ledger_invD(1) [OF c(1)] run] by (simp add: ev_def)
  let ?lg = "ledger_on demo_wal (push_event ev (lg_indexes lg))"
  have "ledger_inv demo_ext ?lg"
    using indexes_ok_push [OF ledger_invD(1) [OF c(1)] nx] c(4,5)
    by (simp add: ledger_inv_def push_event_sel checkpoints_bounded_def run_checkpoints_def)
  moreover have "\<exists>run'. run_in_scope demo_ext demo_scope 1 ?lg = Inr run'"
    using c(2) id by (auto simp: run_in_scope_Inr push_event_sel)
  ultimately show ?case using c(3-5) id by (auto simp: push_event_sel intro!: exI [of _ ?lg])
qed

theorem list_events_complete_witness:
  "\<exists>lg es. length es = 2 \<and>
     follow_pages (\<lambda>c. list_events demo_ext demo_scope 1 \<lparr>evf_event_type = None, evf_after_sequence = None\<rparr> c (Some 1) lg)
       evl_data evl_pagination 3 None = Some (Inr (map view_event es))"
proof -
  obtain lg run where c: "ledger_inv demo_ext lg" "run_in_scope demo_ext demo_scope 1 lg = Inr run"
    "length (run_events (lg_indexes lg) 1) = 2"
    using demo_timeline [of 2] by auto
  have "resolve_limit (Some 1) = Inr 1" by (simp add: resolve_limit_def unwrap_or_def)
  from list_events_complete [OF c(1) this c(2), of 3 "\<lparr>evf_event_type = None, evf_after_sequence = None\<rparr>"] c(3)
  show ?thesis
    by (intro exI [of _ lg] exI [of _ "run_events (lg_indexes lg) 1"])
      (simp add: event_matches_def is_none_or_def)
qed

end
