(* ===== verification/Ledger_Snapshot.thy ===== *)
theory Ledger_Snapshot
  imports Indexes
begin

text \<open>
  \<open>calod-ledger/src/snapshot.rs\<close>: the snapshot directory of the ledger.

  A snapshot directory is a map of file names to files, as for the WAL: creating or truncating a
  file leaves nothing of it synced, and only \<open>sync_all\<close> moves the synced length to the end.  The
  outcome of every I/O call is an input (\<open>snap_io\<close>).  The directory's own path is an argument: it
  appears in error messages.
\<close>

section \<open>Saving\<close>

definition MANIFEST_FILE_NAME :: string where "MANIFEST_FILE_NAME = ''manifest.json''"
definition STATE_FILE_NAME :: string where "STATE_FILE_NAME = ''ledger-state.json''"
definition SNAPSHOT_FORMAT_VERSION :: nat where "SNAPSHOT_FORMAT_VERSION = 1"

record snap_io =
  sio_create_dir :: "string option"
  sio_open_state :: "string option"
  sio_write_state :: "(string \<times> nat) option"
  sio_sync_state :: "string option"
  sio_open_manifest :: "string option"
  sio_write_manifest :: "(string \<times> nat) option"
  sio_read :: "string \<Rightarrow> string option"
  sio_exists :: "string option"

definition snap_good :: snap_io where
  "snap_good = \<lparr>sio_create_dir = None, sio_open_state = None, sio_write_state = None, sio_sync_state = None,
     sio_open_manifest = None, sio_write_manifest = None, sio_read = (\<lambda>_. None), sio_exists = None\<rparr>"

text \<open>A file opened with \<open>create\<close> and \<open>truncate\<close> and written to: the bytes before a failure stay.\<close>

definition create_file :: "string \<Rightarrow> bytes \<Rightarrow> wal_dir \<Rightarrow> wal_dir" where
  "create_file name bs S = dm_insert name \<lparr>fdata = bs, fsynced = 0\<rparr> S"

definition write_manifest ::
  "serde \<Rightarrow> snap_io \<Rightarrow> ledger_snapshot_manifest \<Rightarrow> wal_dir \<Rightarrow> (persistence_error + ledger_snapshot_manifest) \<times> wal_dir" where
  "write_manifest K io manifest S =
     (case manifest_to_vec_pretty K manifest of
        Inl err \<Rightarrow> (Inl (SnapshotCreationFailed (''manifest encode: '' @ err)), S)
      | Inr manifest_bytes \<Rightarrow>
        (case sio_open_manifest io of Some e \<Rightarrow> (Inl (Io e), S)
         | None \<Rightarrow>
        (case sio_write_manifest io of
           Some (e, n) \<Rightarrow> (Inl (Io e), create_file MANIFEST_FILE_NAME (take n manifest_bytes) S)
         | None \<Rightarrow> (Inr manifest, create_file MANIFEST_FILE_NAME manifest_bytes S))))"

definition save_snapshot ::
  "ext \<Rightarrow> serde \<Rightarrow> snap_io \<Rightarrow> persisted_state \<Rightarrow> wal_position option \<Rightarrow> int \<Rightarrow> wal_dir \<Rightarrow>
   (persistence_error + ledger_snapshot_manifest) \<times> wal_dir" where
  "save_snapshot X K io st watermark created_at_ms S =
     (case sio_create_dir io of Some e \<Rightarrow> (Inl (Io e), S)
      | None \<Rightarrow>
     (case state_to_vec K st of
        Inl err \<Rightarrow> (Inl (SnapshotCreationFailed (''ledger state encode: '' @ err)), S)
      | Inr encoded \<Rightarrow>
     (case sio_open_state io of Some e \<Rightarrow> (Inl (Io e), S)
      | None \<Rightarrow>
     (case sio_write_state io of
        Some (e, n) \<Rightarrow> (Inl (Io e), create_file STATE_FILE_NAME (take n encoded) S)
      | None \<Rightarrow>
        let S = create_file STATE_FILE_NAME encoded S in
        case sio_sync_state io of Some e \<Rightarrow> (Inl (Io e), S)
        | None \<Rightarrow>
          let S = update_file STATE_FILE_NAME sync_all S;
              manifest = \<lparr>lm_version = SNAPSHOT_FORMAT_VERSION, lm_created_at_ms = created_at_ms,
                lm_wal_watermark = watermark,
                lm_files = [\<lparr>sfe_path = STATE_FILE_NAME, sfe_len = length encoded, sfe_crc32c = crc32c X encoded\<rparr>]\<rparr>
          in write_manifest K io manifest S))))"

section \<open>Loading\<close>

definition path_join :: "string \<Rightarrow> string \<Rightarrow> string" where
  "path_join dir name = (if dir = [] then name else if last dir = CHR ''/'' then dir @ name else dir @ ''/'' @ name)"

fun verify_files ::
  "ext \<Rightarrow> serde \<Rightarrow> snap_io \<Rightarrow> wal_dir \<Rightarrow> snapshot_file_entry list \<Rightarrow> persisted_state option \<Rightarrow>
   persistence_error + persisted_state option" where
  "verify_files X K io S [] st = Inr st"
| "verify_files X K io S (entry # entries) st =
     (if sfe_path entry \<noteq> STATE_FILE_NAME then
        Inl (Corruption (''ledger snapshot manifest lists unknown file '' @ sfe_path entry))
      else
        (case (case sio_read io (sfe_path entry) of Some e \<Rightarrow> Inl e
               | None \<Rightarrow> (case dm_get S (sfe_path entry) of None \<Rightarrow> Inl ''entity not found'' | Some f \<Rightarrow> Inr (fdata f))) of
           Inl err \<Rightarrow> Inl (Corruption (''ledger snapshot file '' @ sfe_path entry @ '' is unreadable: '' @ err))
         | Inr bs \<Rightarrow>
             if length bs \<noteq> sfe_len entry \<or> crc32c X bs \<noteq> sfe_crc32c entry then
               Inl (Corruption (''ledger snapshot file '' @ sfe_path entry @ '' failed checksum verification''))
             else (case state_from_slice K bs of
                 Inl err \<Rightarrow> Inl (Corruption (''undecodable ledger snapshot state: '' @ err))
               | Inr parsed \<Rightarrow> verify_files X K io S entries (Some parsed))))"

definition load_snapshot ::
  "ext \<Rightarrow> serde \<Rightarrow> snap_io \<Rightarrow> string \<Rightarrow> wal_dir \<Rightarrow>
   persistence_error + (persisted_state \<times> ledger_snapshot_manifest) option" where
  "load_snapshot X K io dir S =
     (case sio_read io MANIFEST_FILE_NAME of Some e \<Rightarrow> Inl (Io e)
      | None \<Rightarrow>
     (case dm_get S MANIFEST_FILE_NAME of
        None \<Rightarrow>
          if sio_exists io = None \<and> dm_get S STATE_FILE_NAME \<noteq> None then
            Inl (Corruption (''ledger snapshot state exists in '' @ dir @ '' but '' @ MANIFEST_FILE_NAME @
              '' is missing; refusing to apply an unverifiable snapshot''))
          else Inr None
      | Some f \<Rightarrow>
        (case manifest_from_slice K (fdata f) of
           Inl err \<Rightarrow> Inl (Corruption (''invalid ledger snapshot manifest '' @ path_join dir MANIFEST_FILE_NAME @ '': '' @ err))
         | Inr manifest \<Rightarrow>
           if lm_version manifest \<noteq> SNAPSHOT_FORMAT_VERSION then
             Inl (Corruption (''unsupported ledger snapshot version '' @ nat_to_string (lm_version manifest) @
               '' (expected '' @ nat_to_string SNAPSHOT_FORMAT_VERSION @ '')''))
           else
             (case verify_files X K io S (lm_files manifest) None of
                Inl e \<Rightarrow> Inl e
              | Inr (Some st) \<Rightarrow> Inr (Some (st, manifest))
              | Inr None \<Rightarrow> Inl (Corruption (''ledger snapshot manifest in '' @ dir @ '' lists no state file''))))))"

end
