(* ===== verification/Wal_Truncate.thy ===== *)
theory Wal_Truncate
  imports Wal_Durability
begin

text \<open>
  Dropping old segments (\<open>truncate_before\<close> of \<open>calod-storage/src/wal.rs\<close>): the log loses the
  records of the removed segments and nothing else, and the writer goes on as before.
\<close>

definition drop_below :: "nat \<Rightarrow> wal_dir \<Rightarrow> wal_dir" where
  "drop_below cutoff D = fold dm_remove (map snd (filter (\<lambda>s. fst s < cutoff) (segments D))) D"

lemma remove_segments_good:
  "remove_segments no_faults cutoff segs n D =
     (Inr (n + length (filter (\<lambda>s. fst s < cutoff) segs)), fold dm_remove (map snd (filter (\<lambda>s. fst s < cutoff) segs)) D)"
proof (induction segs arbitrary: n D)
  case (Cons s segs)
  then show ?case by (cases s) (simp add: no_faults_def)
qed simp

lemma truncate_before_good:
  "truncate_before no_faults active sid D =
     (Inr (length (filter (\<lambda>s. fst s < min sid active) (segments D))), drop_below (min sid active) D)"
  by (simp add: truncate_before_def Let_def remove_segments_good drop_below_def)

lemma fold_remove_get: "dm_get (fold dm_remove ps D) p = (if p \<in> set ps then None else dm_get D p)"
  by (induction ps arbitrary: D) (auto simp: dm_simps)

lemma fold_remove_ok: "dm_ok D \<Longrightarrow> dm_ok (fold dm_remove ps D)"
  by (induction ps arbitrary: D) auto

lemma segments_remove: "segments (dm_remove p D) = filter (\<lambda>s. snd s \<noteq> p) (segments D)"
proof -
  have "segment_entries (dm_remove p D) = filter (\<lambda>s. snd s \<noteq> p) (segment_entries D)"
    by (induction D) (auto simp: segment_entries_def dm_remove_def map_filter_simps split: option.split)
  then show ?thesis by (simp add: segments_def filter_sort)
qed

lemma segments_fold_remove: "segments (fold dm_remove ps D) = filter (\<lambda>s. snd s \<notin> set ps) (segments D)"
  by (induction ps arbitrary: D) (auto simp: segments_remove intro: filter_cong)

lemma dropped_iff:
  assumes "parse_segment_file_name p = Some i"
  shows "p \<in> set (map snd (filter (\<lambda>s. fst s < cutoff) (segments D))) \<longleftrightarrow> dm_get D p \<noteq> None \<and> i < cutoff"
proof -
  have "p \<in> set (map snd (filter (\<lambda>s. fst s < cutoff) (segments D))) \<longleftrightarrow> (\<exists>j. (j, p) \<in> set (segments D) \<and> j < cutoff)"
    by (simp add: image_iff Bex_def)
  then show ?thesis using assms by (simp add: segments_iff)
qed

lemma segments_drop: "segments (drop_below cutoff D) = filter (\<lambda>s. cutoff \<le> fst s) (segments D)"
  unfolding drop_below_def segments_fold_remove
proof (rule filter_cong [OF refl])
  fix s assume s: "s \<in> set (segments D)"
  obtain i p where ip: "s = (i, p)" by fastforce
  then have q: "dm_get D p \<noteq> None" "parse_segment_file_name p = Some i" using s by (simp_all add: segments_iff)
  show "(snd s \<notin> set (map snd (filter (\<lambda>s. fst s < cutoff) (segments D)))) = (cutoff \<le> fst s)"
    unfolding ip fst_conv snd_conv dropped_iff [OF q(2)] using q(1) by (simp only: not_less simp_thms)
qed

lemma drop_get:
  assumes "parse_segment_file_name p = Some i" "cutoff \<le> i"
  shows "dm_get (drop_below cutoff D) p = dm_get D p"
  unfolding drop_below_def fold_remove_get dropped_iff [OF assms(1)] using assms(2) by simp

lemma drop_get_Some: "dm_get (drop_below cutoff D) p = Some f \<Longrightarrow> dm_get D p = Some f"
  by (simp add: drop_below_def fold_remove_get split: if_splits)

lemma drop_below_ok: "dm_ok D \<Longrightarrow> dm_ok (drop_below cutoff D)"
  by (simp add: drop_below_def fold_remove_ok)

lemma segment_log_id: "r \<in> set (segment_log X sid d) \<Longrightarrow> wr_segment_id r = sid"
  by (auto simp: segment_log_def to_wal_record_def)

lemma segs_log_filter:
  "segs_log X D (filter (\<lambda>s. cutoff \<le> fst s) ss) = filter (\<lambda>r. cutoff \<le> wr_segment_id r) (segs_log X D ss)"
proof (induction ss)
  case (Cons s ss)
  obtain i p where s: "s = (i, p)" by fastforce
  have "filter (\<lambda>r. cutoff \<le> wr_segment_id r) (segment_log X i d) = (if cutoff \<le> i then segment_log X i d else [])" for d
    using segment_log_id [of _ X i d] by (auto simp: filter_id_conv filter_empty_conv)
  then show ?case using Cons by (simp add: s segs_log_simps)
qed (simp add: segs_log_simps)

lemma drop_log: "dir_log X (drop_below cutoff D) = filter (\<lambda>r. cutoff \<le> wr_segment_id r) (dir_log X D)"
proof -
  have "file_data (drop_below cutoff D) p = file_data D p" if "(i, p) \<in> set (filter (\<lambda>s. cutoff \<le> fst s) (segments D))" for i p
    using that drop_get [of p i cutoff D] by (simp add: file_data_def segments_iff)
  then have "segs_log X (drop_below cutoff D) (filter (\<lambda>s. cutoff \<le> fst s) (segments D)) =
      segs_log X D (filter (\<lambda>s. cutoff \<le> fst s) (segments D))" by (rule segs_log_cong)
  then show ?thesis by (simp add: dir_log_def segments_drop segs_log_filter)
qed

lemma drop_inv:
  assumes inv: "wal_inv X st D" and cut: "cutoff \<le> ws_segment_id st"
  shows "wal_inv X st (drop_below cutoff D)" "sync_inv st D \<Longrightarrow> sync_inv st (drop_below cutoff D)"
    "durable X st D (length (dir_log X D)) \<Longrightarrow>
      durable X st (drop_below cutoff D) (length (dir_log X (drop_below cutoff D)))"
proof -
  let ?D = "drop_below cutoff D"
  have name: "parse_segment_file_name (ws_file st) = Some (ws_segment_id st)" using inv by (simp add: wal_inv_def)
  note act = drop_get [OF name cut, of D]
  have data: "file_data ?D p = file_data D p" if "(i, p) \<in> set (segments ?D)" for i p
    using that drop_get [of p i cutoff D] by (simp add: segments_drop segments_iff file_data_def)
  show inv': "wal_inv X st ?D"
    unfolding wal_inv_def
  proof (intro conjI allI impI)
    show "canonical_names ?D"
      using inv fold_remove_ok unfolding wal_inv_def canonical_names_def
      by (meson drop_below_ok drop_get_Some)
    show "whole X (file_data ?D p)" "i \<le> ws_segment_id st" if "(i, p) \<in> set (segments ?D)" for i p
      using that inv data [OF that] by (auto simp: segments_drop wal_inv_def)
  qed (use inv act in \<open>auto simp: wal_inv_def file_data_def\<close>)
  show "sync_inv st D \<Longrightarrow> sync_inv st ?D" by (auto simp: sync_inv_def dest!: drop_get_Some)
  assume dur: "durable X st D (length (dir_log X D))"
  obtain f rs where f: "dm_get D (ws_file st) = Some f" "\<forall>r \<in> set rs. payload_fits r" "fdata f = wal.frames X rs"
    using active_file [OF inv] by metis
  note len = length_dir_log [OF inv f]
  have len': "length (dir_log X ?D) = length (sealed_log X st ?D) + length rs"
    using f act by (intro length_dir_log [OF inv']) simp_all
  have "covered X st D (length rs) \<or> rs = []"
    using dur unfolding durable_def len
  proof (elim disjE exE conjE)
    fix m assume m: "covered X st D m" "length (sealed_log X st D) + length rs \<le> length (sealed_log X st D) + m"
    then obtain f' rs' where f': "dm_get D (ws_file st) = Some f'" "\<forall>r \<in> set rs'. payload_fits r" "fdata f' = wal.frames X rs'"
      "m \<le> length rs'" unfolding covered_def by blast
    then have "rs' = rs" using f wal.frames_inj [of rs' rs X] by simp
    then have "m = length rs" using f'(4) m(2) by simp
    then show ?thesis using m(1) by simp
  qed simp
  then show "durable X st ?D (length (dir_log X ?D))"
  proof
    assume "covered X st D (length rs)"
    then have "covered X st ?D (length rs)" by (simp add: covered_def act)
    then show ?thesis unfolding durable_def len' by blast
  next
    assume "rs = []"
    then show ?thesis by (simp add: durable_def len')
  qed
qed

end
