(* ===== verification/Ledger_Recovery.thy ===== *)
theory Ledger_Recovery
  imports Ledger_Safety Ledger_Snapshot Wal_Truncate
begin

text \<open>
  Opening, snapshotting and recovering the ledger (\<open>open\<close>, \<open>flush\<close>, \<open>shutdown\<close>, \<open>snapshot\<close> and
  \<open>apply_configured_retention\<close> of \<open>calod-ledger/src/ledger.rs\<close>).

  The WAL directory is part of the ledger's writer; the snapshot directory is a separate argument
  and result.  \<open>snapshot\<close> is its two critical parts, because the code drops the commit lock between
  them: \<open>snapshot_save\<close> under the lock and \<open>snapshot_truncate\<close> after it.
\<close>

section \<open>Opening\<close>

definition covered_by :: "wal_position option \<Rightarrow> wal_record \<Rightarrow> bool" where
  "covered_by watermark record =
     is_some_and watermark (\<lambda>w. (wr_segment_id record, wr_offset record) \<le> (segment_id w, offset w))"

function open_loop ::
  "ext \<Rightarrow> serde \<Rightarrow> io_faults \<Rightarrow> wal_dir \<Rightarrow> wal_position option \<Rightarrow> replay \<Rightarrow> indexes \<Rightarrow> ledger_error + indexes" where
  "open_loop X K F D watermark r ix =
     (case replay_next X F D r of
        (None, r') \<Rightarrow> Inr ix
      | (Some (Inl e), r') \<Rightarrow> Inl (Persistence e)
      | (Some (Inr record), r') \<Rightarrow>
          if covered_by watermark record then open_loop X K F D watermark r' ix
          else (case decode K (wr_payload record) of Inl e \<Rightarrow> Inl (Persistence e)
            | Inr decoded \<Rightarrow>
              (case indexes_apply X (lr_kind decoded) ix of (Inl e, _) \<Rightarrow> Inl (Persistence e)
               | (Inr _, ix) \<Rightarrow> open_loop X K F D watermark r' ix)))"
  by pat_completeness auto
termination
  by (relation "inv_image (less_than <*lex*> less_than) (\<lambda>(X, K, F, D, w, r, ix). replay_left r)")
    (auto simp: replay_next_def split: if_splits intro!: replay_loop_progress [OF sym])

declare open_loop.simps [simp del]

definition open_snapshot ::
  "ext \<Rightarrow> serde \<Rightarrow> snap_io \<Rightarrow> string \<Rightarrow> wal_dir \<Rightarrow> ledger_error + wal_position option \<times> indexes" where
  "open_snapshot X K sio dir S =
     (case load_snapshot X K sio dir S of Inl e \<Rightarrow> Inl (Persistence e)
      | Inr None \<Rightarrow> Inr (None, empty_indexes)
      | Inr (Some (st, manifest)) \<Rightarrow>
          if ps_schema_version st \<noteq> SCHEMA_VERSION then
            Inl (Persistence (Corruption (''snapshot schema version '' @ nat_to_string (ps_schema_version st) @
              '' (expected '' @ nat_to_string SCHEMA_VERSION @ '')'')))
          else Inr (lm_wal_watermark manifest, load_state st empty_indexes))"

text \<open>The log is recovered twice, by the replay and by the writer: \<open>F\<close> and \<open>F'\<close> are their I/O.\<close>

definition ledger_open ::
  "ext \<Rightarrow> serde \<Rightarrow> snap_io \<Rightarrow> io_faults \<Rightarrow> io_faults \<Rightarrow> ledger_config \<Rightarrow> string \<Rightarrow> wal_dir \<Rightarrow> wal_dir \<Rightarrow>
   (ledger_error + ledger) \<times> wal_dir" where
  "ledger_open X K sio F F' cfg dir S D =
     (case open_snapshot X K sio dir S of Inl e \<Rightarrow> (Inl e, D)
      | Inr (watermark, ix) \<Rightarrow>
     (case replay_open X F D of (Inl e, D) \<Rightarrow> (Inl (Persistence e), D)
      | (Inr replay, D) \<Rightarrow>
     (case open_loop X K F D watermark replay ix of Inl e \<Rightarrow> (Inl e, D)
      | Inr ix \<Rightarrow>
     (case wal_open X F' (lc_wal cfg) D of (Inl e, D) \<Rightarrow> (Inl (Persistence e), D)
      | (Inr wal, D) \<Rightarrow>
          (Inr \<lparr>lg_wal = wal, lg_partitions = max (lc_partitions cfg) 1, lg_last_wal_position = watermark,
             lg_default_lease = lc_default_lease cfg, lg_min_lease = lc_min_lease cfg, lg_max_lease = lc_max_lease cfg,
             lg_indexes = ix, lg_counters = zero_counters, lg_retention = lc_retention cfg\<rparr>, D)))))"

section \<open>Flushing, closing and snapshotting\<close>

definition ledger_flush :: "ext \<Rightarrow> op_input \<Rightarrow> ledger \<Rightarrow> (ledger_error + unit) \<times> ledger" where
  "ledger_flush X oi lg =
     (case wal_flush X (oi_sync_io oi) (lg_wal lg) of
        (Inl e, W) \<Rightarrow> (Inl (Persistence e), lg\<lparr>lg_wal := W\<rparr>)
      | (Inr _, W) \<Rightarrow> (Inr (), lg\<lparr>lg_wal := W\<rparr>))"

definition ledger_shutdown :: "ext \<Rightarrow> op_input \<Rightarrow> ledger \<Rightarrow> (ledger_error + unit) \<times> wal_dir" where
  "ledger_shutdown X oi lg =
     (case wal_shutdown X (oi_sync_io oi) (lg_wal lg) of
        (Inl e, W) \<Rightarrow> (Inl (Persistence e), ww_dir W)
      | (Inr _, W) \<Rightarrow> (Inr (), ww_dir W))"

definition snapshot_save ::
  "ext \<Rightarrow> serde \<Rightarrow> snap_io \<Rightarrow> op_input \<Rightarrow> ledger \<Rightarrow> wal_dir \<Rightarrow>
   (ledger_error + wal_position option \<times> ledger_snapshot_manifest) \<times> ledger \<times> wal_dir" where
  "snapshot_save X K sio oi lg S =
     (case wal_flush X (oi_sync_io oi) (lg_wal lg) of
        (Inl e, W) \<Rightarrow> (Inl (Persistence e), lg\<lparr>lg_wal := W\<rparr>, S)
      | (Inr _, W) \<Rightarrow>
          let lg = lg\<lparr>lg_wal := W\<rparr>; watermark = lg_last_wal_position lg; st = collect_state (lg_indexes lg) in
          case save_snapshot X K sio st watermark (oi_now oi) S of
            (Inl e, S) \<Rightarrow> (Inl (Persistence e), lg, S)
          | (Inr manifest, S) \<Rightarrow> (Inr (watermark, manifest), lg, S))"

text \<open>The segment the writer task publishes; it is asked for only while the task runs.\<close>

definition active_segment_id :: "wal_writer \<Rightarrow> nat" where
  "active_segment_id W = (case ww_task W of WriterRunning st \<Rightarrow> ws_active_segment st | WriterStopped _ \<Rightarrow> 0)"

definition snapshot_truncate :: "io_faults \<Rightarrow> wal_position option \<Rightarrow> ledger \<Rightarrow> (ledger_error + unit) \<times> ledger" where
  "snapshot_truncate F watermark lg =
     (case watermark of None \<Rightarrow> (Inr (), lg)
      | Some w \<Rightarrow>
        (case truncate_before F (active_segment_id (lg_wal lg)) (u64_add (segment_id w) 1) (ww_dir (lg_wal lg)) of
           (Inl e, D) \<Rightarrow> (Inl (Persistence e), lg\<lparr>lg_wal := (lg_wal lg)\<lparr>ww_dir := D\<rparr>\<rparr>)
         | (Inr _, D) \<Rightarrow> (Inr (), lg\<lparr>lg_wal := (lg_wal lg)\<lparr>ww_dir := D\<rparr>\<rparr>)))"

definition ledger_snapshot ::
  "ext \<Rightarrow> serde \<Rightarrow> snap_io \<Rightarrow> io_faults \<Rightarrow> op_input \<Rightarrow> ledger \<Rightarrow> wal_dir \<Rightarrow>
   (ledger_error + ledger_snapshot_manifest) \<times> ledger \<times> wal_dir" where
  "ledger_snapshot X K sio F oi lg S =
     (case snapshot_save X K sio oi lg S of
        (Inl e, lg, S) \<Rightarrow> (Inl e, lg, S)
      | (Inr (watermark, manifest), lg, S) \<Rightarrow>
        (case snapshot_truncate F watermark lg of
           (Inl e, lg) \<Rightarrow> (Inl e, lg, S)
         | (Inr _, lg) \<Rightarrow> (Inr manifest, lg, S)))"

definition apply_configured_retention ::
  "ext \<Rightarrow> serde \<Rightarrow> snap_io \<Rightarrow> io_faults \<Rightarrow> op_input \<Rightarrow> op_input \<Rightarrow> ledger \<Rightarrow> wal_dir \<Rightarrow>
   (ledger_error + retention_report) \<times> ledger \<times> wal_dir" where
  "apply_configured_retention X K sio F oi oi' lg S =
     (case lg_retention lg of
        None \<Rightarrow> (Inr \<lparr>rp_runs_removed = 0, rp_effects_removed = 0, rp_events_removed = 0, rp_cutoff_ms = 0\<rparr>, lg, S)
      | Some policy \<Rightarrow>
        (case apply_retention X K oi policy lg of (Inl e, lg) \<Rightarrow> (Inl e, lg, S)
         | (Inr report, lg) \<Rightarrow>
             if 0 < rp_runs_removed report \<or> 0 < rp_effects_removed report then
               (case ledger_snapshot X K sio F oi' lg S of
                  (Inl e, lg, S) \<Rightarrow> (Inl e, lg, S)
                | (Inr _, lg, S) \<Rightarrow> (Inr report, lg, S))
             else (Inr report, lg, S)))"

section \<open>Replaying records\<close>

text \<open>What the loop of \<open>open\<close> does with the records the replay yields.\<close>

fun replay_records ::
  "ext \<Rightarrow> serde \<Rightarrow> wal_position option \<Rightarrow> wal_record list \<Rightarrow> indexes \<Rightarrow> ledger_error + indexes" where
  "replay_records X K w [] ix = Inr ix"
| "replay_records X K w (record # rs) ix =
     (if covered_by w record then replay_records X K w rs ix
      else (case decode K (wr_payload record) of Inl e \<Rightarrow> Inl (Persistence e)
        | Inr decoded \<Rightarrow>
          (case indexes_apply X (lr_kind decoded) ix of (Inl e, _) \<Rightarrow> Inl (Persistence e)
           | (Inr _, ix) \<Rightarrow> replay_records X K w rs ix)))"

lemma map_sum_Inr_iff: "map_sum id f s = Inr y \<longleftrightarrow> (\<exists>x. s = Inr x \<and> y = f x)"
  by (cases s) auto

lemma replay_collect_cases:
  assumes "replay_collect X F D r = Inr recs"
  obtains r' where "recs = []" "replay_next X F D r = (None, r')"
  | a recs' r' where "recs = a # recs'" "replay_next X F D r = (Some (Inr a), r')" "replay_collect X F D r' = Inr recs'"
  using assms
  by (auto simp: replay_collect.simps [of X F D r] map_sum_Inr_iff split: prod.splits option.splits sum.splits)

lemma open_loop_records:
  "replay_collect X F D r = Inr recs \<Longrightarrow> open_loop X K F D w r ix = replay_records X K w recs ix"
proof (induction recs arbitrary: r ix)
  case Nil
  then show ?case
    by (rule replay_collect_cases) (simp_all add: open_loop.simps [of X K F D w r])
next
  case (Cons a recs)
  then obtain r' where r': "replay_next X F D r = (Some (Inr a), r')" "replay_collect X F D r' = Inr recs"
    by (auto elim: replay_collect_cases)
  show ?case
    by (subst open_loop.simps) (simp add: r'(1) Cons.IH [OF r'(2)] split: sum.split prod.split)
qed

lemma replay_records_append:
  "replay_records X K w (xs @ ys) ix =
     (case replay_records X K w xs ix of Inl e \<Rightarrow> Inl e | Inr ix \<Rightarrow> replay_records X K w ys ix)"
  by (induction xs arbitrary: ix) (auto split: sum.split prod.split)

section \<open>The data of an index state\<close>

text \<open>What requests can observe of the indexes: lookups, whatever the layout of the maps.\<close>

definition data_of :: "indexes \<Rightarrow> (uuid \<Rightarrow> effect_record option) \<times> (effect_key \<Rightarrow> uuid option) \<times>
    (uuid \<Rightarrow> run_record option) \<times> (uuid \<Rightarrow> event_record list) \<times> (uuid \<Rightarrow> checkpoint_record list)" where
  "data_of ix = (dm_get (ix_effects_by_id ix), dm_get (ix_effect_ids ix), dm_get (ix_runs ix), run_events ix, run_checkpoints ix)"

lemma data_of_eq: "data_of ix = data_of ix' \<longleftrightarrow>
    dm_get (ix_effects_by_id ix) = dm_get (ix_effects_by_id ix') \<and> dm_get (ix_effect_ids ix) = dm_get (ix_effect_ids ix') \<and>
    dm_get (ix_runs ix) = dm_get (ix_runs ix') \<and> run_events ix = run_events ix' \<and> run_checkpoints ix = run_checkpoints ix'"
  by (simp add: data_of_def)

lemma data_of_same: "same_data ix ix' \<Longrightarrow> data_of ix' = data_of ix"
  by (simp add: data_of_eq same_data_def run_events_def run_checkpoints_def fun_eq_iff)

lemma run_events_indep [simp]:
  "run_events (ix\<lparr>ix_runs := a\<rparr>) = run_events ix" "run_events (ix\<lparr>ix_checkpoints := b\<rparr>) = run_events ix"
  by (simp_all add: run_events_def fun_eq_iff)

lemma data_insert_run: "data_of ix = data_of ix' \<Longrightarrow> data_of (insert_run r ix) = data_of (insert_run r ix')"
  by (simp add: data_of_eq insert_run_def run_events_def run_checkpoints_def fun_eq_iff dm_simps)

lemma data_insert_effect: "data_of ix = data_of ix' \<Longrightarrow> data_of (insert_effect e ix) = data_of (insert_effect e ix')"
  by (simp add: data_of_eq insert_effect_def run_events_def run_checkpoints_def fun_eq_iff dm_simps)

lemma data_apply_event:
  assumes "data_of ix = data_of ix'"
  shows "fst (apply_event X e ix) = fst (apply_event X e ix') \<and>
    data_of (snd (apply_event X e ix)) = data_of (snd (apply_event X e ix'))"
  using assms
  by (auto simp: data_of_eq apply_event_def Let_def fun_eq_iff dm_simps run_checkpoints_def run_events_def split: option.splits)

lemma data_remove_run: "data_of ix = data_of ix' \<Longrightarrow> data_of (remove_run i ix) = data_of (remove_run i ix')"
  by (simp add: data_of_eq remove_run_def run_events_def run_checkpoints_def fun_eq_iff dm_simps)

lemma data_remove_effect: "data_of ix = data_of ix' \<Longrightarrow> data_of (remove_effect i ix) = data_of (remove_effect i ix')"
  by (auto simp: data_of_eq remove_effect_def run_events_def run_checkpoints_def fun_eq_iff dm_simps split: option.split)

lemma data_fold:
  assumes step: "\<And>x ix ix'. data_of ix = data_of ix' \<Longrightarrow> data_of (f x ix) = data_of (f x ix')"
  shows "data_of ix = data_of ix' \<Longrightarrow> data_of (fold f xs ix) = data_of (fold f xs ix')"
proof (induction xs arbitrary: ix ix')
  case (Cons x xs)
  show ?case unfolding fold_simps by (rule Cons.IH [OF step [OF Cons.prems]])
qed simp

lemma data_apply:
  assumes "data_of ix = data_of ix'"
  shows "fst (indexes_apply X k ix) = fst (indexes_apply X k ix') \<and>
    data_of (snd (indexes_apply X k ix)) = data_of (snd (indexes_apply X k ix'))"
proof (cases k)
  case (EffectApplied e ev)
  then show ?thesis
    using data_insert_effect [OF assms] data_apply_event [OF data_insert_effect [OF assms]]
    by (cases ev) (simp_all add: Let_def)
next
  case (CheckpointCreated c)
  have "run_checkpoints ix (cpr_run_id c) = run_checkpoints ix' (cpr_run_id c)" using assms by (simp add: data_of_eq)
  then show ?thesis using assms
    by (simp add: CheckpointCreated Let_def data_of_eq fun_eq_iff dm_simps run_checkpoints_def run_events_def)
next
  case (RetentionApplied t rs es)
  then show ?thesis
    using data_fold [of remove_effect, OF data_remove_effect data_fold [of remove_run, OF data_remove_run assms]] by simp
qed (simp_all add: data_insert_run [OF assms] data_apply_event [OF assms])

lemma data_replay:
  assumes "data_of ix = data_of ix'" "replay_records X K w rs ix = Inr iy"
  obtains iy' where "replay_records X K w rs ix' = Inr iy'" "data_of iy = data_of iy'"
proof -
  have "\<exists>iy'. replay_records X K w rs ix' = Inr iy' \<and> data_of iy = data_of iy'"
    using assms
  proof (induction rs arbitrary: ix ix')
    case (Cons a rs)
    show ?case
    proof (cases "covered_by w a")
      case True
      then show ?thesis using Cons by simp
    next
      case False
      then obtain d iz where d: "decode K (wr_payload a) = Inr d" "indexes_apply X (lr_kind d) ix = (Inr (), iz)"
        "replay_records X K w rs iz = Inr iy"
        using Cons.prems(2) by (auto split: sum.splits prod.splits)
      obtain iz' where z: "indexes_apply X (lr_kind d) ix' = (Inr (), iz')" "data_of iz = data_of iz'"
        using data_apply [OF Cons.prems(1), of X "lr_kind d"] d(2)
        by (cases "indexes_apply X (lr_kind d) ix'") auto
      show ?thesis using Cons.IH [OF z(2) d(3)] False d(1) z(1) by simp
    qed
  qed auto
  then show ?thesis using that by blast
qed

section \<open>Loading what was collected\<close>

lemma fold_insert_get:
  "distinct (map kf vs) \<Longrightarrow> dm_get (fold (\<lambda>v. dm_insert (kf v) (f v)) vs m) k =
     (case map_of (map (\<lambda>v. (kf v, f v)) vs) k of None \<Rightarrow> dm_get m k | Some y \<Rightarrow> Some y)"
proof (induction vs arbitrary: m)
  case (Cons v vs)
  have "map_of (map (\<lambda>v. (kf v, f v)) vs) (kf v) = None"
    using Cons.prems by (auto simp: map_of_eq_None_iff)
  then show ?case using Cons by (auto simp: dm_simps split: option.split)
qed simp

lemma fold_insert_iff:
  assumes "distinct (map kf vs)"
  shows "dm_get (fold (\<lambda>v. dm_insert (kf v) (f v)) vs []) k = Some y \<longleftrightarrow> (\<exists>v \<in> set vs. kf v = k \<and> f v = y)"
proof -
  have d: "distinct (map fst (map (\<lambda>v. (kf v, f v)) vs))" using assms by (simp add: comp_def)
  show ?thesis
    using map_of_eq_Some_iff [OF d, of k y] by (auto simp: fold_insert_get [OF assms] split: option.split)
qed

text \<open>A map whose values carry their own keys is rebuilt from its values.\<close>

lemma rebuild_map:
  assumes "dm_ok m" "\<And>k v. dm_get m k = Some v \<Longrightarrow> kf v = k"
  shows "dm_get (fold (\<lambda>v. dm_insert (kf v) v) (dm_values m) []) = dm_get m"
proof
  fix k
  have "map kf (dm_values m) = map fst m" using assms dm_get_in_set [OF assms(1)] by (auto simp: dm_values_def)
  then have d: "distinct (map kf (dm_values m))" using assms(1) by (simp add: dm_ok_def)
  have "dm_get (fold (\<lambda>v. dm_insert (kf v) v) (dm_values m) []) k = Some y \<longleftrightarrow> dm_get m k = Some y" for y
    unfolding fold_insert_iff [OF d] using dm_values_iff [OF assms(1)] assms(2) by metis
  then show "dm_get (fold (\<lambda>v. dm_insert (kf v) v) (dm_values m) []) k = dm_get m k" by (metis not_None_eq)
qed

lemma fold_insert_run:
  "ix_runs (fold insert_run rs ix) = fold (\<lambda>r. dm_insert (rr_id r) r) rs (ix_runs ix)"
  "ix_effects_by_id (fold insert_run rs ix) = ix_effects_by_id ix" "ix_effect_ids (fold insert_run rs ix) = ix_effect_ids ix"
  "ix_events (fold insert_run rs ix) = ix_events ix" "ix_checkpoints (fold insert_run rs ix) = ix_checkpoints ix"
  by (induction rs arbitrary: ix) (simp_all add: insert_run_def)

lemma fold_insert_effect:
  "ix_effects_by_id (fold insert_effect es ix) = fold (\<lambda>e. dm_insert (er_id e) e) es (ix_effects_by_id ix)"
  "ix_effect_ids (fold insert_effect es ix) = fold (\<lambda>e. dm_insert (effect_key_of e) (er_id e)) es (ix_effect_ids ix)"
  "ix_runs (fold insert_effect es ix) = ix_runs ix"
  "ix_events (fold insert_effect es ix) = ix_events ix" "ix_checkpoints (fold insert_effect es ix) = ix_checkpoints ix"
  by (induction es arbitrary: ix) (simp_all add: insert_effect_def)

text \<open>Grouping the concatenation of lists that carry their run gives the lists back.\<close>

lemma push_group_get:
  "unwrap_or (dm_get (fold (push_group key) vs m) k) [] = unwrap_or (dm_get m k) [] @ filter (\<lambda>v. key v = k) vs"
  by (induction vs arbitrary: m) (auto simp: push_group_def dm_simps unwrap_or_def)

lemma push_group_ok: "dm_ok m \<Longrightarrow> dm_ok (fold (push_group key) vs m)"
  by (induction vs arbitrary: m) (simp_all add: push_group_def)

lemma filter_concat_values:
  assumes "dm_ok m" "\<And>k vs v. dm_get m k = Some vs \<Longrightarrow> v \<in> set vs \<Longrightarrow> key v = k"
  shows "filter (\<lambda>v. key v = k) (concat (dm_values m)) = unwrap_or (dm_get m k) []"
proof -
  have "filter (\<lambda>v. key v = k) (concat (map snd xs)) = unwrap_or (map_of xs k) []"
    if "distinct (map fst xs)" "\<forall>(j, vs) \<in> set xs. \<forall>v \<in> set vs. key v = j" for xs
    using that
  proof (induction xs)
    case (Cons x xs)
    obtain j vs where x: "x = (j, vs)" by fastforce
    have "filter (\<lambda>v. key v = k) vs = (if j = k then vs else [])"
      using Cons.prems(2) by (auto simp: x filter_id_conv filter_empty_conv)
    moreover have "j = k \<Longrightarrow> map_of xs k = None"
      using Cons.prems(1) by (auto simp: x map_of_eq_None_iff)
    ultimately show ?case using Cons by (auto simp: x unwrap_or_def)
  qed (simp add: unwrap_or_def)
  moreover have "\<forall>(j, vs) \<in> set m. \<forall>v \<in> set vs. key v = j" using assms dm_get_in_set [OF assms(1)] by blast
  ultimately show ?thesis using assms(1) by (simp add: dm_values_def dm_ok_def dm_get_def)
qed

lemma group_get:
  assumes "g [] = []"
  shows "unwrap_or (dm_get (fold (\<lambda>(i, vs). dm_insert i vs) (map (\<lambda>(i, vs). (i, g vs)) (group_by_run key vs)) []) k) [] =
    g (filter (\<lambda>v. key v = k) vs)"
proof -
  let ?m = "fold (push_group key) vs []"
  have ok: "dm_ok ?m" by (rule push_group_ok) simp
  have d: "distinct (map fst (sort_key fst ?m))"
    using ok unfolding dm_ok_def by (simp add: distinct_map)
  have "map_of (sort_key fst ?m) k = map_of ?m k"
    using map_of_eq_Some_iff [OF d] map_of_eq_Some_iff [of ?m] ok by (metis dm_ok_def not_None_eq set_sort)
  moreover have "fold (\<lambda>(i, vs). dm_insert i vs) (map (\<lambda>(i, vs). (i, g vs)) (group_by_run key vs)) [] =
      fold (\<lambda>x. dm_insert (fst x) (g (snd x))) (sort_key fst ?m) []"
    by (simp add: group_by_run_def fold_map comp_def case_prod_beta)
  moreover have "map_of (map (\<lambda>x. (fst x, g (snd x))) xs) k = map_option g (map_of xs k)" for xs
    by (induction xs) auto
  ultimately show ?thesis
    using fold_insert_get [OF d, of "\<lambda>x. g (snd x)" "[]" k] push_group_get [of key vs "[]" k] assms
    by (auto simp: dm_get_def unwrap_or_def split: option.splits)
qed

lemmas loaded = load_state_def collect_state_def Let_def fold_insert_effect fold_insert_run empty_indexes_def

lemma run_okD:
  assumes "indexes_ok X ix"
  shows "dm_get (ix_events ix) i = Some es \<Longrightarrow> e \<in> set es \<Longrightarrow> evr_run_id e = i"
    and "dm_get (ix_checkpoints ix) i = Some cs \<Longrightarrow> c \<in> set cs \<Longrightarrow> cpr_run_id c = i"
    and "sorted (map evr_sequence (run_events ix i))"
proof -
  have ok: "row_ok X i (run_events ix i) (run_checkpoints ix i) (dm_get (ix_runs ix) i)"
    using assms by (simp add: indexes_ok_def run_ok_def)
  then show "dm_get (ix_events ix) i = Some es \<Longrightarrow> e \<in> set es \<Longrightarrow> evr_run_id e = i"
    and "dm_get (ix_checkpoints ix) i = Some cs \<Longrightarrow> c \<in> set cs \<Longrightarrow> cpr_run_id c = i"
    by (simp_all add: row_ok_def run_events_def run_checkpoints_def unwrap_or_def)
  have chain: "verify_event_chain X (map view_event (run_events ix i))" "int (length (run_events ix i)) \<le> i64_max"
    using ok by (simp_all add: row_ok_def)
  show "sorted (map evr_sequence (run_events ix i))"
    using stored.verify_nth(1) [OF chain(1) _ chain(2)] by (simp add: sorted_iff_nth_mono)
qed

lemma option_eqI: "(\<And>y. a = Some y \<longleftrightarrow> b = Some y) \<Longrightarrow> a = b"
  by (cases a; cases b) auto

lemma load_effect_ids:
  assumes eff: "effects_ok ix"
  shows "dm_get (fold (\<lambda>e. dm_insert (effect_key_of e) (er_id e)) (dm_values (ix_effects_by_id ix)) []) k = dm_get (ix_effect_ids ix) k"
proof -
  let ?es = "dm_values (ix_effects_by_id ix)"
  have ok: "dm_ok (ix_effects_by_id ix)" using eff by (simp add: effects_ok_def)
  have "map er_id ?es = map fst (ix_effects_by_id ix)"
    using effects_okD(1) [OF eff] dm_get_in_set [OF ok] by (auto simp: dm_values_def)
  then have ids: "distinct (map er_id ?es)" using ok by (simp add: dm_ok_def)
  have key: "dm_get (ix_effect_ids ix) (effect_key_of e) = Some (er_id e)" if "e \<in> set ?es" for e
  proof -
    obtain i where i: "dm_get (ix_effects_by_id ix) i = Some e" using \<open>e \<in> set ?es\<close> dm_values_iff [OF ok] by blast
    show ?thesis using effects_okD(1,2) [OF eff i] by simp
  qed
  have "inj_on effect_key_of (set ?es)"
  proof (rule inj_onI)
    fix e e' assume e: "e \<in> set ?es" "e' \<in> set ?es" "effect_key_of e = effect_key_of e'"
    then have "er_id e = er_id e'" using key [OF e(1)] key [OF e(2)] by simp
    then show "e = e'" using ids e(1,2) by (simp add: distinct_map inj_on_def)
  qed
  with ids have d: "distinct (map effect_key_of ?es)" by (simp add: distinct_map)
  have "dm_get (ix_effect_ids ix) k = Some i \<longleftrightarrow> (\<exists>e \<in> set ?es. effect_key_of e = k \<and> er_id e = i)" for i
  proof
    assume "dm_get (ix_effect_ids ix) k = Some i"
    then obtain e where e: "dm_get (ix_effects_by_id ix) i = Some e" "effect_key_of e = k" using effects_okD(3) [OF eff] by blast
    then show "\<exists>e \<in> set ?es. effect_key_of e = k \<and> er_id e = i"
      using dm_values_iff [OF ok, of e] effects_okD(1) [OF eff e(1)] by blast
  qed (use key in auto)
  then have "dm_get (fold (\<lambda>e. dm_insert (effect_key_of e) (er_id e)) ?es []) k = Some i \<longleftrightarrow> dm_get (ix_effect_ids ix) k = Some i" for i
    using fold_insert_iff [OF d, of er_id k i] by simp
  then show ?thesis by (rule option_eqI)
qed

lemma load_collected:
  assumes ok: "indexes_ok X ix"
  shows "data_of (load_state (collect_state ix) empty_indexes) = data_of ix"
proof -
  have eff: "effects_ok ix" and dm: "dm_ok (ix_runs ix)" "dm_ok (ix_events ix)" "dm_ok (ix_checkpoints ix)" "dm_ok (ix_effects_by_id ix)"
    using ok by (simp_all add: indexes_ok_def effects_ok_def)
  let ?l = "load_state (collect_state ix) empty_indexes"
  have "dm_get (ix_effects_by_id ?l) = dm_get (ix_effects_by_id ix)"
    using rebuild_map [OF dm(4), of er_id, OF effects_okD(1) [OF eff]] by (simp add: loaded)
  moreover have "dm_get (ix_effect_ids ?l) = dm_get (ix_effect_ids ix)"
    by (rule ext) (simp add: loaded load_effect_ids [OF eff])
  moreover have "dm_get (ix_runs ?l) = dm_get (ix_runs ix)"
    using rebuild_map [OF dm(1), of rr_id, OF run_row(1) [OF ok]] by (simp add: loaded)
  moreover have "run_events ?l i = run_events ix i" for i
  proof -
    have "filter (\<lambda>e. evr_run_id e = i) (concat (dm_values (ix_events ix))) = run_events ix i"
      unfolding run_events_def by (rule filter_concat_values [OF dm(2) run_okD(1) [OF ok]])
    then show ?thesis
      using group_get [of "sort_key evr_sequence" evr_run_id "concat (dm_values (ix_events ix))" i]
        sort_key_id_if_sorted [OF run_okD(3) [OF ok, of i]]
      unfolding run_events_def by (simp add: loaded)
  qed
  moreover have "run_checkpoints ?l i = run_checkpoints ix i" for i
  proof -
    have "filter (\<lambda>c. cpr_run_id c = i) (concat (dm_values (ix_checkpoints ix))) = run_checkpoints ix i"
      unfolding run_checkpoints_def by (rule filter_concat_values [OF dm(3) run_okD(2) [OF ok]])
    then show ?thesis
      using group_get [of "\<lambda>x. x" cpr_run_id "concat (dm_values (ix_checkpoints ix))" i]
      unfolding run_checkpoints_def by (simp add: loaded case_prod_beta)
  qed
  ultimately show ?thesis by (simp add: data_of_eq fun_eq_iff)
qed

section \<open>Replayed indexes are well-formed\<close>

definition maps_ok :: "indexes \<Rightarrow> bool" where
  "maps_ok ix \<longleftrightarrow> dm_ok (ix_effects_by_id ix) \<and> dm_ok (ix_effect_ids ix) \<and> dm_ok (ix_runs ix) \<and> dm_ok (ix_events ix) \<and>
     dm_ok (ix_checkpoints ix) \<and> dm_ok (ix_run_locks ix)"

lemma maps_ok_empty: "maps_ok empty_indexes"
  by (simp add: maps_ok_def empty_indexes_def)

lemma maps_ok_step:
  "maps_ok ix \<Longrightarrow> maps_ok (insert_run r ix)" "maps_ok ix \<Longrightarrow> maps_ok (insert_effect e ix)"
  "maps_ok ix \<Longrightarrow> maps_ok (remove_run i ix)" "maps_ok ix \<Longrightarrow> maps_ok (remove_effect i ix)"
  "maps_ok ix \<Longrightarrow> maps_ok (snd (apply_event X ev ix))"
  by (simp_all add: maps_ok_def insert_run_def insert_effect_def remove_run_def remove_effect_def apply_event_def Let_def
      split: option.split)

lemma maps_ok_fold:
  "maps_ok ix \<Longrightarrow> maps_ok (fold insert_run rs ix)" "maps_ok ix \<Longrightarrow> maps_ok (fold insert_effect es ix)"
  "maps_ok ix \<Longrightarrow> maps_ok (fold remove_run is ix)" "maps_ok ix \<Longrightarrow> maps_ok (fold remove_effect js ix)"
  by (induction rs arbitrary: ix, simp_all add: maps_ok_step)
    (induction es arbitrary: ix, simp_all add: maps_ok_step, induction "is" arbitrary: ix, simp_all add: maps_ok_step,
     induction js arbitrary: ix, simp_all add: maps_ok_step)

lemma dm_ok_fold_insert: "dm_ok m \<Longrightarrow> dm_ok (fold (\<lambda>(i, vs). dm_insert i vs) xs m)"
  by (induction xs arbitrary: m) auto

lemma maps_ok_apply: "maps_ok ix \<Longrightarrow> maps_ok (snd (indexes_apply X k ix))"
proof (cases k)
  case (EffectApplied e ev)
  assume "maps_ok ix"
  then show ?thesis by (cases ev) (simp_all add: EffectApplied Let_def maps_ok_step)
next
  case (CheckpointCreated c)
  assume "maps_ok ix"
  then show ?thesis by (simp add: CheckpointCreated Let_def maps_ok_def)
next
  case (RetentionApplied t rs es)
  assume "maps_ok ix"
  then show ?thesis by (simp add: RetentionApplied maps_ok_fold)
qed (simp_all add: maps_ok_step)

lemma maps_ok_load: "maps_ok (load_state st empty_indexes)"
proof -
  have "maps_ok (fold insert_effect (ps_effects st) (fold insert_run (ps_runs st) empty_indexes))"
    by (simp add: maps_ok_fold maps_ok_empty)
  then show ?thesis by (simp add: load_state_def Let_def maps_ok_def dm_ok_fold_insert)
qed

lemma maps_ok_replay: "maps_ok ix \<Longrightarrow> replay_records X K w rs ix = Inr iy \<Longrightarrow> maps_ok iy"
proof (induction rs arbitrary: ix)
  case (Cons r rs)
  then show ?case
    using maps_ok_apply [OF Cons.prems(1), of X] by (auto split: if_splits sum.splits prod.splits) (metis snd_conv)
qed simp

lemma indexes_ok_data:
  assumes "data_of ix = data_of ix'" "indexes_ok X ix" "maps_ok ix'"
  shows "indexes_ok X ix'"
  using assms unfolding indexes_ok_def effects_ok_def run_ok_def maps_ok_def data_of_eq by simp

lemma ledger_inv_data:
  assumes "data_of (lg_indexes lg) = data_of (lg_indexes lg')" "ledger_inv X lg" "maps_ok (lg_indexes lg')"
  shows "ledger_inv X lg'"
proof -
  have "effect_wf (lg_indexes lg') e = effect_wf (lg_indexes lg) e" for e
    using assms(1) by (simp add: effect_wf_def data_of_eq)
  then show ?thesis
    using assms indexes_ok_data [OF assms(1) _ assms(3)] by (simp add: ledger_inv_def checkpoints_bounded_def data_of_eq)
qed

section \<open>Saved snapshots load\<close>

text \<open>What is relied on of the derived codecs: what they wrote they read back.\<close>

definition serde_inverts :: "serde \<Rightarrow> bool" where
  "serde_inverts K \<longleftrightarrow> (\<forall>r bs. record_to_vec K r = Inr bs \<longrightarrow> record_from_slice K bs = Inr r) \<and>
     (\<forall>st bs. state_to_vec K st = Inr bs \<longrightarrow> state_from_slice K bs = Inr st) \<and>
     (\<forall>mf bs. manifest_to_vec_pretty K mf = Inr bs \<longrightarrow> manifest_from_slice K bs = Inr mf)"

lemma encode_inverts:
  "serde_inverts K \<Longrightarrow> encode K kind = Inr bs \<Longrightarrow> decode K bs = Inr \<lparr>lr_v = RECORD_VERSION, lr_kind = kind\<rparr>"
  by (auto simp: serde_inverts_def encode_def decode_def split: sum.splits)

lemma save_load:
  assumes K: "serde_inverts K" and s: "save_snapshot X K sio st w t S = (Inr mf, S')"
  shows "load_snapshot X K snap_good dir S' = Inr (Some (st, mf))" "lm_wal_watermark mf = w"
proof -
  obtain bs ms where b: "state_to_vec K st = Inr bs"
    "mf = \<lparr>lm_version = SNAPSHOT_FORMAT_VERSION, lm_created_at_ms = t, lm_wal_watermark = w,
       lm_files = [\<lparr>sfe_path = STATE_FILE_NAME, sfe_len = length bs, sfe_crc32c = crc32c X bs\<rparr>]\<rparr>"
    "manifest_to_vec_pretty K mf = Inr ms"
    "S' = create_file MANIFEST_FILE_NAME ms (update_file STATE_FILE_NAME sync_all (create_file STATE_FILE_NAME bs S))"
    using s by (auto simp: save_snapshot_def write_manifest_def Let_def split: option.splits sum.splits prod.splits)
  have ne: "STATE_FILE_NAME \<noteq> MANIFEST_FILE_NAME" by (simp add: STATE_FILE_NAME_def MANIFEST_FILE_NAME_def)
  have "map_option fdata (dm_get S' STATE_FILE_NAME) = Some bs" "map_option fdata (dm_get S' MANIFEST_FILE_NAME) = Some ms"
    using ne by (simp_all add: b(4) create_file_def dm_get_update_file dm_simps sync_all_def)
  moreover have "manifest_from_slice K ms = Inr mf" "state_from_slice K bs = Inr st"
    using K b(1,3) by (simp_all add: serde_inverts_def)
  moreover have "lm_version mf = SNAPSHOT_FORMAT_VERSION"
    "lm_files mf = [\<lparr>sfe_path = STATE_FILE_NAME, sfe_len = length bs, sfe_crc32c = crc32c X bs\<rparr>]" by (simp_all add: b(2))
  ultimately show "load_snapshot X K snap_good dir S' = Inr (Some (st, mf))"
    by (auto simp: load_snapshot_def snap_good_def)
  show "lm_wal_watermark mf = w" by (simp add: b(2))
qed

lemma save_open:
  assumes "serde_inverts K" "save_snapshot X K sio (collect_state ix) w t S = (Inr mf, S')"
  shows "open_snapshot X K snap_good dir S' = Inr (w, load_state (collect_state ix) empty_indexes)"
proof -
  have "ps_schema_version (collect_state ix) = SCHEMA_VERSION" by (simp add: collect_state_def)
  then show ?thesis by (simp add: open_snapshot_def save_load [OF assms])
qed

section \<open>The log always holds the state\<close>

definition before :: "wal_position option \<Rightarrow> writer_state \<Rightarrow> bool" where
  "before w st = is_none_or w (\<lambda>p. (segment_id p, offset p) < wal_end st)"

text \<open>
  On a running, fully synced log: opening the snapshot directory and replaying the log on top gives
  the data of the indexes.
\<close>

definition recoverable :: "ext \<Rightarrow> serde \<Rightarrow> string \<Rightarrow> wal_dir \<Rightarrow> nat \<Rightarrow> ledger \<Rightarrow> bool" where
  "recoverable X K dir S n lg \<longleftrightarrow> (\<exists>st w base ix. ww_task (lg_wal lg) = WriterRunning st \<and>
     wal_inv X st (ww_dir (lg_wal lg)) \<and> sync_inv st (ww_dir (lg_wal lg)) \<and> ws_fsync_strategy st = Always \<and>
     durable X st (ww_dir (lg_wal lg)) (length (wal_log X lg)) \<and> ws_segment_id st + n < 2 ^ 64 \<and>
     open_snapshot X K snap_good dir S = Inr (w, base) \<and> replay_records X K w (wal_log X lg) base = Inr ix \<and>
     data_of ix = data_of (lg_indexes lg) \<and> before w st \<and> before (lg_last_wal_position lg) st \<and>
     (\<forall>r \<in> set (wal_log X lg). record_at r < wal_end st \<and> covered_by (lg_last_wal_position lg) r))"

lemma covered_after: "before w st \<Longrightarrow> wal_end st \<le> record_at r \<Longrightarrow> \<not> covered_by w r"
  by (cases w) (auto simp: before_def covered_by_def record_at_def dest: order_less_le_trans)

lemma before_mono: "before w st \<Longrightarrow> wal_end st \<le> wal_end st' \<Longrightarrow> before w st'"
  by (cases w) (auto simp: before_def intro: order_less_le_trans)

lemma covered_by_position: "covered_by (Some (record_position r)) r' \<longleftrightarrow> record_at r' \<le> record_at r"
  by (simp add: covered_by_def record_position_def record_at_def)

lemma recoverable_mono: "recoverable X K dir S n lg \<Longrightarrow> m \<le> n \<Longrightarrow> recoverable X K dir S m lg"
  unfolding recoverable_def by (meson add_left_mono order_le_less_trans)

lemma recoverable_cong:
  assumes "recoverable X K dir S n lg" "lg_wal lg' = lg_wal lg" "data_of (lg_indexes lg') = data_of (lg_indexes lg)"
    "lg_last_wal_position lg' = lg_last_wal_position lg"
  shows "recoverable X K dir S n lg'"
  using assms by (simp add: recoverable_def wal_log_def)

text \<open>With healthy I/O an append fails only when its payload is too long, and then nothing is written.\<close>

lemma wal_append_fails:
  assumes "ww_task W = WriterRunning st" "wal_inv X st (ww_dir W)" "ws_segment_id st + 1 < 2 ^ 64"
    and "wal_append X io_good io_good W Put bs = (Inl e, W')"
  shows "W' = W"
proof (cases "length bs < 2 ^ 32")
  case True
  then show ?thesis using wal_append_good [OF assms(1-3), of bs Put] assms(4) by (metis Pair_inject sum.distinct(1))
next
  case False
  then show ?thesis using assms(4) by (simp add: wal_append_def)
qed

lemma replay_snoc:
  assumes "replay_records X K w rs base = Inr ix" "\<not> covered_by w r" "decode K (wr_payload r) = Inr d"
    and "indexes_apply X (lr_kind d) ix = (Inr (), iy)"
  shows "replay_records X K w (rs @ [r]) base = Inr iy"
  using assms by (simp add: replay_records_append)

lemma append_length:
  "wal_append X io sio W t bs = (Inr position, W') \<Longrightarrow> length bs < 2 ^ 32"
  by (auto simp: wal_append_def split: if_splits)

lemma applied_recoverable:
  assumes K: "serde_inverts K" and rec: "recoverable X K dir S (Suc n) lg" and io: "healthy_io oi"
    and ok: "indexes_ok X (lg_indexes lg)" and ap: "applied X K oi sc kind lg lg'"
  shows "recoverable X K dir S n lg'"
proof -
  obtain st w base ix where r: "ww_task (lg_wal lg) = WriterRunning st" "wal_inv X st (ww_dir (lg_wal lg))"
    "sync_inv st (ww_dir (lg_wal lg))" "ws_fsync_strategy st = Always" "ws_segment_id st + Suc n < 2 ^ 64"
    "open_snapshot X K snap_good dir S = Inr (w, base)" "replay_records X K w (wal_log X lg) base = Inr ix"
    "data_of ix = data_of (lg_indexes lg)" "before w st"
    "\<forall>r \<in> set (wal_log X lg). record_at r < wal_end st"
    using rec by (auto simp: recoverable_def)
  obtain iz bs position where a: "same_data (lg_indexes lg) iz" "kind_fits X iz kind"
    "lg_indexes lg' = snd (indexes_apply X kind iz)" "encode K kind = Inr bs" "lg_last_wal_position lg' = Some position"
    "wal_append X io_good io_good (lg_wal lg) Put bs = (Inr position, lg_wal lg')"
    using ap io unfolding applied_def healthy_io_def by auto
  have id: "ws_segment_id st + 1 < 2 ^ 64" using r(5) by simp
  obtain st' D' rc where w: "wal_append X io_good io_good (lg_wal lg) Put bs =
      (Inr (record_position rc), \<lparr>ww_task = WriterRunning st', ww_dir = D'\<rparr>)"
    "grown X st (ww_dir (lg_wal lg)) st' D' [rc]" "record_content rc = (Put, bs)"
    "ws_fsync_strategy st = Always \<longrightarrow> durable X st' D' (length (dir_log X D'))"
    by (rule wal_append_good [OF r(1,2) id append_length [OF a(6)]])
  have lg': "lg_wal lg' = \<lparr>ww_task = WriterRunning st', ww_dir = D'\<rparr>" "position = record_position rc"
    using w(1) a(6) by simp_all
  have log: "wal_log X lg' = wal_log X lg @ [rc]" using w(2) by (simp add: wal_log_def lg' grown_def)
  have at: "wal_end st \<le> record_at rc" "record_at rc < wal_end st'" "wal_end st \<le> wal_end st'"
    using w(2) by (simp_all add: grown_def)
  have dec: "decode K (wr_payload rc) = Inr \<lparr>lr_v = RECORD_VERSION, lr_kind = kind\<rparr>"
    using encode_inverts [OF K a(4)] w(3) by (simp add: record_content_def)
  have "data_of ix = data_of iz" using r(8) data_of_same [OF a(1)] by simp
  note app = data_apply [OF this, of X kind]
  have "indexes_ok X iz" by (rule indexes_ok_same [OF a(1) ok])
  then have "fst (indexes_apply X kind iz) = Inr ()" by (rule apply_fits(1) [OF _ a(2)])
  then obtain iy where iy: "indexes_apply X kind ix = (Inr (), iy)" "data_of iy = data_of (lg_indexes lg')"
    using app a(3) by (cases "indexes_apply X kind ix") auto
  have "replay_records X K w (wal_log X lg') base = Inr iy"
    unfolding log using iy(1) by (intro replay_snoc [OF r(7) covered_after [OF r(9) at(1)] dec]) simp
  moreover have "covered_by (Some (record_position rc)) q \<and> record_at q < wal_end st'" if "q \<in> set (wal_log X lg')" for q
    using that r(10) at by (auto simp: log covered_by_position intro: order_less_imp_le order_less_le_trans)
  moreover have "before (lg_last_wal_position lg') st'"
    using at(2) by (simp add: before_def a(5) lg'(2) record_position_def record_at_def)
  ultimately show ?thesis
    using w(2,4) r(3-6) iy(2) before_mono [OF r(9) at(3)] a(5) lg'
    unfolding recoverable_def wal_log_def
    by (intro exI [of _ st'] exI [of _ w] exI [of _ base] exI [of _ iy]) (auto simp: grown_def)
qed

lemma applied_log:
  assumes rec: "recoverable X K dir S (Suc n) lg" and io: "healthy_io oi" and ap: "applied X K oi sc kind lg lg'"
  obtains rc st st' where "wal_log X lg' = wal_log X lg @ [rc]" "encode K kind = Inr (wr_payload rc)"
    "ww_task (lg_wal lg) = WriterRunning st" "ww_task (lg_wal lg') = WriterRunning st'"
    "grown X st (ww_dir (lg_wal lg)) st' (ww_dir (lg_wal lg')) [rc]"
proof -
  obtain st where r: "ww_task (lg_wal lg) = WriterRunning st" "wal_inv X st (ww_dir (lg_wal lg))" "ws_segment_id st + 1 < 2 ^ 64"
    using rec by (auto simp: recoverable_def)
  obtain bs position where a: "encode K kind = Inr bs" "wal_append X io_good io_good (lg_wal lg) Put bs = (Inr position, lg_wal lg')"
    using ap io unfolding applied_def healthy_io_def by auto
  obtain st' D' rc where w: "wal_append X io_good io_good (lg_wal lg) Put bs =
      (Inr (record_position rc), \<lparr>ww_task = WriterRunning st', ww_dir = D'\<rparr>)"
    "grown X st (ww_dir (lg_wal lg)) st' D' [rc]" "record_content rc = (Put, bs)"
    by (rule wal_append_good [OF r append_length [OF a(2)]])
  then show ?thesis
    using a r(1) by (intro that [of rc st st']) (auto simp: wal_log_def grown_def record_content_def)
qed

lemma op_recoverable:
  assumes K: "serde_inverts K" and rec: "recoverable X K dir S (Suc n) lg" and io: "healthy_io oi"
    and inv: "ledger_inv X lg" and fresh: "fresh_input oi lg"
  shows "recoverable X K dir S n (snd (ledger_op_exec X K oi op lg))"
proof -
  let ?lg = "snd (ledger_op_exec X K oi op lg)"
  have "kept X oi lg ?lg \<or> (\<exists>kind. applied X K oi (op_scope op) kind lg ?lg)"
    using ledger_op_outcome [OF inv fresh, of K op] by (auto simp: outcome_def)
  then show ?thesis
  proof
    assume k: "kept X oi lg ?lg"
    obtain st where "ww_task (lg_wal lg) = WriterRunning st" "wal_inv X st (ww_dir (lg_wal lg))" "ws_segment_id st + 1 < 2 ^ 64"
      using rec by (auto simp: recoverable_def)
    then have "lg_wal ?lg = lg_wal lg" using k io wal_append_fails unfolding kept_def healthy_io_def by metis
    then show ?thesis
      using k by (intro recoverable_cong [OF recoverable_mono [OF rec]]) (auto simp: kept_def intro: data_of_same)
  next
    assume "\<exists>kind. applied X K oi (op_scope op) kind lg ?lg"
    then show ?thesis using applied_recoverable [OF K rec io ledger_invD(1) [OF inv]] by blast
  qed
qed

section \<open>Snapshots keep it so\<close>

lemma wal_flush_good:
  assumes "ww_task W = WriterRunning st" "wal_inv X st (ww_dir W)"
  obtains st' D' where "wal_flush X io_good W = (Inr (), \<lparr>ww_task = WriterRunning st', ww_dir = D'\<rparr>)"
    "grown X st (ww_dir W) st' D' []" "wal_end st' = wal_end st"
proof (cases "ws_dirty st")
  case True
  then show ?thesis
    using assms sync_grown(1) [OF assms(2) refl refl]
    by (intro that [of "st\<lparr>ws_dirty := False\<rparr>" "update_file (ws_file st) sync_all (ww_dir W)"])
      (simp_all add: wal_flush_def writer_batch_def must_sync_def empty_batch_def flush_good ack_all_def wal_end_def)
next
  case False
  then show ?thesis
    using assms grown_refl [OF assms(2)]
    by (intro that [of st "ww_dir W"])
      (simp_all add: wal_flush_def writer_batch_def must_sync_def empty_batch_def ack_all_def)
qed

lemma replay_covered: "\<forall>r \<in> set rs. covered_by w r \<Longrightarrow> replay_records X K w rs ix = Inr ix"
  by (induction rs) simp_all

lemma snapshot_cases:
  assumes "ledger_snapshot X K sio no_faults oi lg S = (Inr mf, lg', S')" "oi_sync_io oi = io_good"
    and "ww_task (lg_wal lg) = WriterRunning st" "wal_inv X st (ww_dir (lg_wal lg))"
  obtains st' D' cutoff where "grown X st (ww_dir (lg_wal lg)) st' D' []" "cutoff \<le> ws_segment_id st'"
    "lg' = lg\<lparr>lg_wal := \<lparr>ww_task = WriterRunning st', ww_dir = drop_below cutoff D'\<rparr>\<rparr> \<and> lg_last_wal_position lg \<noteq> None \<or>
     lg' = lg\<lparr>lg_wal := \<lparr>ww_task = WriterRunning st', ww_dir = D'\<rparr>\<rparr>"
    "save_snapshot X K sio (collect_state (lg_indexes lg)) (lg_last_wal_position lg) (oi_now oi) S = (Inr mf, S')"
proof -
  obtain st' D' where f: "wal_flush X io_good (lg_wal lg) = (Inr (), \<lparr>ww_task = WriterRunning st', ww_dir = D'\<rparr>)"
    "grown X st (ww_dir (lg_wal lg)) st' D' []"
    by (rule wal_flush_good [OF assms(3,4)])
  have act: "ws_active_segment st' = ws_segment_id st'" using f(2) by (simp add: grown_def wal_inv_def)
  obtain mf' S1 where sv: "save_snapshot X K sio (collect_state (lg_indexes lg)) (lg_last_wal_position lg) (oi_now oi) S = (Inr mf', S1)"
    using assms(1,2) f(1)
    by (auto simp: ledger_snapshot_def snapshot_save_def Let_def split: prod.splits sum.splits)
  show ?thesis
  proof (cases "lg_last_wal_position lg")
    case None
    then show ?thesis
      using assms(1,2) f sv by (intro that [OF f(2), of 0]) (auto simp: ledger_snapshot_def snapshot_save_def snapshot_truncate_def)
  next
    case (Some w)
    then show ?thesis
      using assms(1,2) f sv
      by (intro that [OF f(2), of "min (u64_add (segment_id w) 1) (ws_segment_id st')"])
        (auto simp: ledger_snapshot_def snapshot_save_def snapshot_truncate_def truncate_before_good active_segment_id_def act)
  qed
qed

lemma snapshot_recoverable:
  assumes K: "serde_inverts K" and rec: "recoverable X K dir S n lg" and io: "healthy_io oi"
    and ok: "indexes_ok X (lg_indexes lg)"
    and s: "ledger_snapshot X K sio no_faults oi lg S = (Inr mf, lg', S')"
  shows "recoverable X K dir S' n lg'" "lg_indexes lg' = lg_indexes lg"
proof -
  obtain st where r: "ww_task (lg_wal lg) = WriterRunning st" "wal_inv X st (ww_dir (lg_wal lg))"
    "sync_inv st (ww_dir (lg_wal lg))" "ws_fsync_strategy st = Always" "ws_segment_id st + n < 2 ^ 64"
    "durable X st (ww_dir (lg_wal lg)) (length (wal_log X lg))" "before (lg_last_wal_position lg) st"
    "\<forall>r \<in> set (wal_log X lg). record_at r < wal_end st \<and> covered_by (lg_last_wal_position lg) r"
    using rec by (auto simp: recoverable_def)
  obtain st' D' cutoff where c: "grown X st (ww_dir (lg_wal lg)) st' D' []" "cutoff \<le> ws_segment_id st'"
    "lg' = lg\<lparr>lg_wal := \<lparr>ww_task = WriterRunning st', ww_dir = drop_below cutoff D'\<rparr>\<rparr> \<and> lg_last_wal_position lg \<noteq> None \<or>
     lg' = lg\<lparr>lg_wal := \<lparr>ww_task = WriterRunning st', ww_dir = D'\<rparr>\<rparr>"
    "save_snapshot X K sio (collect_state (lg_indexes lg)) (lg_last_wal_position lg) (oi_now oi) S = (Inr mf, S')"
    using io by (rule_tac snapshot_cases [OF s _ r(1,2)]) (auto simp: healthy_io_def)
  then show ix: "lg_indexes lg' = lg_indexes lg" by auto
  have g: "wal_inv X st' D'" "sync_inv st' D'" "durable X st' D' (length (dir_log X D'))" "dir_log X D' = wal_log X lg"
    "ws_fsync_strategy st' = Always" "wal_end st \<le> wal_end st'" "ws_segment_id st' + n < 2 ^ 64"
    using c(1) r(3-6) by (auto simp: grown_def wal_log_def)
  obtain D'' where D'': "lg_wal lg' = \<lparr>ww_task = WriterRunning st', ww_dir = D''\<rparr>" "wal_inv X st' D''" "sync_inv st' D''"
    "durable X st' D'' (length (dir_log X D''))" "set (dir_log X D'') \<subseteq> set (wal_log X lg)"
    "lg_last_wal_position lg' = lg_last_wal_position lg"
    using c(3)
  proof
    assume "lg' = lg\<lparr>lg_wal := \<lparr>ww_task = WriterRunning st', ww_dir = drop_below cutoff D'\<rparr>\<rparr> \<and> lg_last_wal_position lg \<noteq> None"
    then show ?thesis
      using drop_inv [OF g(1) c(2)] g by (intro that [of "drop_below cutoff D'"]) (auto simp: drop_log)
  next
    assume "lg' = lg\<lparr>lg_wal := \<lparr>ww_task = WriterRunning st', ww_dir = D'\<rparr>\<rparr>"
    then show ?thesis using g by (intro that [of D']) simp_all
  qed
  let ?w = "lg_last_wal_position lg" and ?base = "load_state (collect_state (lg_indexes lg)) empty_indexes"
  have log: "\<forall>q \<in> set (wal_log X lg'). record_at q < wal_end st' \<and> covered_by ?w q"
    using D''(1,5) r(8) g(6) by (auto simp: wal_log_def intro: order_less_le_trans)
  then have "replay_records X K ?w (wal_log X lg') ?base = Inr ?base" by (intro replay_covered) blast
  then show "recoverable X K dir S' n lg'"
    using D'' g(5,7) log before_mono [OF r(7) g(6)] save_open [OF K c(4), of dir] load_collected [OF ok] ix
    unfolding recoverable_def
    by (intro exI [of _ st'] exI [of _ ?w] exI [of _ ?base]) (simp add: wal_log_def)
qed

text \<open>The part of a snapshot that runs under the commit lock.\<close>

lemma snapshot_save_recoverable:
  assumes K: "serde_inverts K" and rec: "recoverable X K dir S n lg" and io: "healthy_io oi"
    and ok: "indexes_ok X (lg_indexes lg)"
    and s: "snapshot_save X K sio oi lg S = (Inr (w, mf), lg', S')"
  shows "recoverable X K dir S' n lg'" "lg_indexes lg' = lg_indexes lg" "w = lg_last_wal_position lg"
    "lg_last_wal_position lg' = w" "wal_log X lg' = wal_log X lg"
    "open_snapshot X K snap_good dir S' = Inr (w, load_state (collect_state (lg_indexes lg)) empty_indexes)"
proof -
  obtain st where r: "ww_task (lg_wal lg) = WriterRunning st" "wal_inv X st (ww_dir (lg_wal lg))"
    "sync_inv st (ww_dir (lg_wal lg))" "ws_fsync_strategy st = Always" "ws_segment_id st + n < 2 ^ 64"
    "durable X st (ww_dir (lg_wal lg)) (length (wal_log X lg))" "before (lg_last_wal_position lg) st"
    "\<forall>r \<in> set (wal_log X lg). record_at r < wal_end st \<and> covered_by (lg_last_wal_position lg) r"
    using rec by (auto simp: recoverable_def)
  obtain st' D' where f: "wal_flush X io_good (lg_wal lg) = (Inr (), \<lparr>ww_task = WriterRunning st', ww_dir = D'\<rparr>)"
    "grown X st (ww_dir (lg_wal lg)) st' D' []"
    by (rule wal_flush_good [OF r(1,2)])
  have lg': "lg' = lg\<lparr>lg_wal := \<lparr>ww_task = WriterRunning st', ww_dir = D'\<rparr>\<rparr>" "w = lg_last_wal_position lg"
    and sv: "save_snapshot X K sio (collect_state (lg_indexes lg)) w (oi_now oi) S = (Inr mf, S')"
    using s f(1) io by (auto simp: snapshot_save_def healthy_io_def Let_def split: prod.splits sum.splits)
  then show "lg_indexes lg' = lg_indexes lg" "w = lg_last_wal_position lg" "lg_last_wal_position lg' = w" by simp_all
  show log: "wal_log X lg' = wal_log X lg" using f(2) by (simp add: lg' wal_log_def grown_def)
  show op: "open_snapshot X K snap_good dir S' = Inr (w, load_state (collect_state (lg_indexes lg)) empty_indexes)"
    by (rule save_open [OF K sv])
  let ?base = "load_state (collect_state (lg_indexes lg)) empty_indexes"
  have "replay_records X K w (wal_log X lg') ?base = Inr ?base" unfolding log using r(8) by (intro replay_covered) (simp add: lg'(2))
  then show "recoverable X K dir S' n lg'"
    using f(2) r(3-8) op log load_collected [OF ok] before_mono [OF r(7), of st']
    unfolding recoverable_def
    by (intro exI [of _ st'] exI [of _ w] exI [of _ ?base])
      (auto simp: grown_def lg' wal_log_def intro: order_less_le_trans)
qed

section \<open>Reopening\<close>

lemma replay_all_open:
  assumes "replay_all X F D = (Inr recs, D')"
  obtains r where "replay_open X F D = (Inr r, D')" "replay_collect X F D' r = Inr recs"
  using assms by (auto simp: replay_all_def split: prod.splits sum.splits)

lemma ledger_open_log:
  assumes "open_snapshot X K sio dir S = Inr (w, base)" "replay_all X no_faults D = (Inr recs, D')"
    and "replay_records X K w recs base = Inr ix" "wal_open X no_faults (lc_wal cfg) D' = (Inr W, D'')"
  obtains lg' where "ledger_open X K sio no_faults no_faults cfg dir S D = (Inr lg', D'')" "lg_indexes lg' = ix" "lg_wal lg' = W"
    "lg_last_wal_position lg' = w"
proof -
  obtain r where r: "replay_open X no_faults D = (Inr r, D')" "replay_collect X no_faults D' r = Inr recs"
    by (rule replay_all_open [OF assms(2)])
  show ?thesis
    using assms(1,3,4) r(1) open_loop_records [OF r(2), of K w base] by (intro that) (simp add: ledger_open_def, simp_all)
qed

lemma open_snapshot_maps: "open_snapshot X K sio dir S = Inr (w, base) \<Longrightarrow> maps_ok base"
  by (auto simp: open_snapshot_def maps_ok_empty maps_ok_load split: sum.splits option.splits if_splits)

text \<open>Opening after a crash, and after a restart that lost nothing.\<close>

lemma reopen:
  assumes rec: "recoverable X K dir S (Suc n) lg" and cfg: "HEADER_LEN < wc_max_segment_size (lc_wal cfg)"
  obtains lg' D' st' base where
    "ledger_open X K snap_good no_faults no_faults cfg dir S (crash_dir keep (ww_dir (lg_wal lg))) = (Inr lg', D')"
    "data_of (lg_indexes lg') = data_of (lg_indexes lg)" "maps_ok (lg_indexes lg')"
    "open_snapshot X K snap_good dir S = Inr (lg_last_wal_position lg', base)"
    "ww_task (lg_wal lg') = WriterRunning st'" "wal_inv X st' (ww_dir (lg_wal lg'))" "wal_log X lg' = wal_log X lg"
    "replay_records X K (lg_last_wal_position lg') (wal_log X lg) base = Inr (lg_indexes lg')" "ws_segment_id st' + n < 2 ^ 64"
proof -
  obtain st w base ix where r: "wal_inv X st (ww_dir (lg_wal lg))"
    "sync_inv st (ww_dir (lg_wal lg))" "ws_fsync_strategy st \<noteq> No" "durable X st (ww_dir (lg_wal lg)) (length (wal_log X lg))"
    "ws_segment_id st + Suc n < 2 ^ 64" "open_snapshot X K snap_good dir S = Inr (w, base)"
    "replay_records X K w (wal_log X lg) base = Inr ix" "data_of ix = data_of (lg_indexes lg)"
    using rec by (auto simp: recoverable_def)
  obtain k D' where c: "replay_all X no_faults (crash_dir keep (ww_dir (lg_wal lg))) = (Inr (take k (dir_log X (ww_dir (lg_wal lg)))), D')"
    "\<forall>j. durable X st (ww_dir (lg_wal lg)) j \<longrightarrow> j \<le> k" "dir_ok X D'" "dir_log X D' = take k (dir_log X (ww_dir (lg_wal lg)))"
    "segments D' = segments (ww_dir (lg_wal lg))"
    by (rule crash_replay [OF r(1-3), of keep])
  have all: "take k (dir_log X (ww_dir (lg_wal lg))) = wal_log X lg"
    using c(2) r(4) by (simp add: wal_log_def)
  have ids: "Suc i < 2 ^ 64" if "(i, p) \<in> set (segments D')" for i p
    using that r(1,5) c(5) by (fastforce simp: wal_inv_def)
  obtain st' D'' where w: "wal_open X no_faults (lc_wal cfg) D' = (Inr \<lparr>ww_task = WriterRunning st', ww_dir = D''\<rparr>, D'')"
    "wal_inv X st' D''" "dir_log X D'' = dir_log X D'"
    "ws_segment_id st' = 1 \<or> (\<exists>p \<in> set (segments D'). ws_segment_id st' \<le> Suc (fst p))"
    by (rule wal_open_ok [OF c(3) cfg ids])
  have ge: "p \<in> set (segments D') \<Longrightarrow> fst p \<le> ws_segment_id st" for p using r(1) c(5) by (cases p) (auto simp: wal_inv_def)
  have near: "ws_segment_id st' + n < 2 ^ 64"
    using w(4) r(5) ge by fastforce
  obtain lg' where l: "ledger_open X K snap_good no_faults no_faults cfg dir S (crash_dir keep (ww_dir (lg_wal lg))) = (Inr lg', D'')"
    "lg_indexes lg' = ix" "lg_wal lg' = \<lparr>ww_task = WriterRunning st', ww_dir = D''\<rparr>" "lg_last_wal_position lg' = w"
    by (rule ledger_open_log [OF r(6) c(1) [unfolded all] r(7) w(1)])
  have "maps_ok ix" by (rule maps_ok_replay [OF open_snapshot_maps [OF r(6)] r(7)])
  then show ?thesis
    by (intro that [OF l(1), where base = base and st' = st']) (use l r(6-8) w c(4) all near in \<open>simp_all add: wal_log_def\<close>)
qed

lemma open_clean:
  assumes inv: "wal_inv X st D" and id: "Suc (ws_segment_id st) < 2 ^ 64"
    and cfg: "HEADER_LEN < wc_max_segment_size (lc_wal cfg)"
    and snap: "open_snapshot X K snap_good dir S = Inr (w, base)" "replay_records X K w (dir_log X D) base = Inr ix"
  obtains lg' D' where "ledger_open X K snap_good no_faults no_faults cfg dir S D = (Inr lg', D')" "lg_indexes lg' = ix"
proof -
  have clean: "\<forall>(i, n) \<in> set (segments D). snd (scan_segment X (file_data D n)) = None"
    using inv by (fastforce simp: wal_inv_def intro: whole_clean)
  obtain rep where rep: "recover X no_faults D = (Inr rep, D)" "rep_segments rep = map (clean_info D) (segments D)"
    using recover_clean [OF clean] by blast
  have "map (\<lambda>info. (si_id info, si_path info)) (rep_segments rep) = segments D"
    by (simp add: rep(2) clean_info_def comp_def)
  note replay = replay_all_after [OF rep(1) this clean]
  have ids: "Suc i < 2 ^ 64" if "(i, p) \<in> set (segments D)" for i p
    using that inv id by (fastforce simp: wal_inv_def)
  obtain st' D'' where w: "wal_open X no_faults (lc_wal cfg) D = (Inr \<lparr>ww_task = WriterRunning st', ww_dir = D''\<rparr>, D'')"
    by (rule wal_open_ok [OF wal_inv_dir_ok [OF inv] cfg ids])
  from ledger_open_log [OF snap(1) replay snap(2) w] that show ?thesis by blast
qed

lemma open_empty:
  assumes cfg: "HEADER_LEN < wc_max_segment_size (lc_wal cfg)" "wc_fsync_strategy (lc_wal cfg) = Always"
    and o: "ledger_open X K snap_good no_faults no_faults cfg dir [] [] = (Inr lg, D)" and n: "n + 1 < 2 ^ 64"
  shows "recoverable X K dir [] n lg" "lg_indexes lg = empty_indexes" "wal_log X lg = []"
    "\<exists>st. ww_task (lg_wal lg) = WriterRunning st \<and> wal_end st = (1, 0) \<and> ws_max_segment_size st = wc_max_segment_size (lc_wal cfg)"
proof -
  have segs: "segments [] = []" by (simp add: segments_def segment_entries_def map_filter_simps)
  have ok: "dir_ok X []" by (simp add: dir_ok_def canonical_names_def segs)
  have io: "iof_create_dir no_faults = None" "iof_open no_faults = None" by (simp_all add: no_faults_def)
  obtain st D1 where w: "wal_open X no_faults (lc_wal cfg) [] = (Inr \<lparr>ww_task = WriterRunning st, ww_dir = D1\<rparr>, D1)"
    "wal_inv X st D1" "dir_log X D1 = dir_log X []" "ws_fsync_strategy st = wc_fsync_strategy (lc_wal cfg)"
    "ws_max_segment_size st = wc_max_segment_size (lc_wal cfg)" "\<not> ws_dirty st" "all_synced [] \<longrightarrow> sync_inv st D1"
    by (rule wal_open_ok [OF ok cfg(1)]) (simp_all add: segs)
  have id: "ws_segment_id st = 1" "ws_segment_len st = 0" using w(1) cfg by (auto simp: wal_open_def recover_def segs io Let_def)
  have log: "dir_log X [] = []" by (simp add: dir_log_def segs segs_log_simps)
  have snap: "open_snapshot X K snap_good dir [] = Inr (None, empty_indexes)"
    by (simp add: open_snapshot_def load_snapshot_def snap_good_def)
  obtain rep where rep: "recover X no_faults [] = (Inr rep, [])" "rep_segments rep = []"
    using recover_clean [of "[]" X] by (auto simp: segs)
  have replay: "replay_all X no_faults [] = (Inr [], [])"
    using replay_all_after [OF rep(1)] rep(2) by (simp add: segs log)
  obtain lg' where l: "ledger_open X K snap_good no_faults no_faults cfg dir [] [] = (Inr lg', D1)" "lg_indexes lg' = empty_indexes"
    "lg_wal lg' = \<lparr>ww_task = WriterRunning st, ww_dir = D1\<rparr>" "lg_last_wal_position lg' = None"
    by (rule ledger_open_log [OF snap replay replay_records.simps(1) w(1)])
  then have eq: "lg' = lg" using o by simp
  then show "lg_indexes lg = empty_indexes" "wal_log X lg = []" using l(2,3) w(3) log by (simp_all add: wal_log_def)
  show "\<exists>st. ww_task (lg_wal lg) = WriterRunning st \<and> wal_end st = (1, 0) \<and> ws_max_segment_size st = wc_max_segment_size (lc_wal cfg)"
    using l(3) id w(5) by (simp add: eq [symmetric] wal_end_def)
  show "recoverable X K dir [] n lg"
    using l w id log snap n cfg(2) unfolding recoverable_def eq [symmetric] wal_log_def
    by (simp add: before_def durable_def all_synced_def)
qed

end
