(* ===== verification/Ledger_Restart.thy ===== *)
theory Ledger_Restart
  imports Ledger_Crash Ledger_Guarantees
begin

text \<open>
  Where restarts lose data: what the code of \<open>open\<close>, \<open>snapshot\<close> and \<open>save_snapshot\<close> does at the points
  that the recovery theorem excludes.
\<close>

section \<open>A snapshot after a restart\<close>

lemma run_events_insert_run: "run_events (insert_run r ix) = run_events ix"
  by (simp add: fun_eq_iff insert_run_def run_events_def)

lemma apply_event_again:
  assumes "run_events ix (evr_run_id ev) = [ev]" "evr_sequence ev = 1"
  obtains ix' where "apply_event X ev ix = (Inr (), ix')" "run_events ix' = run_events ix" "ix_runs ix' = ix_runs ix"
proof
  let ?ix = "ix\<lparr>ix_events := or_insert (evr_run_id ev) [] (ix_events ix)\<rparr>"
  show "run_events ?ix = run_events ix" by (simp add: fun_eq_iff)
  show "apply_event X ev ix = (Inr (), ?ix)"
    using assms by (simp add: apply_event_def Let_def len_i64_eq i64_max_def)
  show "ix_runs ?ix = ix_runs ix" by simp
qed

lemma two_requests_log:
  assumes K: "serde_inverts K" and rec: "recoverable X K dir S (Suc (Suc n)) lg0" and inv: "ledger_inv X lg0"
    and h: "healthy_io oi1" "healthy_io oi2" "fresh_input oi1 lg0" "fresh_input oi2 lgA"
    and c: "create_run X K oi1 scope creq lg0 = (Inr v, lgA)"
    and a: "append_event X K oi2 scope (oi_id oi1) ereq lgA = (Inr e, lg)"
  obtains r1 r2 run ev where "wal_log X lg = wal_log X lg0 @ [r1, r2]" "encode K (RunCreated run) = Inr (wr_payload r1)"
    "encode K (EventAppended ev) = Inr (wr_payload r2)" "rr_id run = oi_id oi1" "rr_last_event_sequence run = 0"
    "evr_run_id ev = oi_id oi1" "run_events (lg_indexes lg) (oi_id oi1) = [ev]" "evr_sequence ev = 1"
    "recoverable X K dir S n lg" "ledger_inv X lg"
proof -
  obtain run where run: "run = new_run oi1 scope (cr_external_id creq) (cr_agent_name creq) None None (cr_metadata creq)"
    "applied X K oi1 (Some scope) (RunCreated run) lg0 lgA"
    using create_run_cases [OF inv h(3) c] by auto
  have eA: "snd (ledger_op_exec X K oi1 (OpCreateRun scope creq) lg0) = lgA" by (simp add: c drop_value_def)
  have invA: "ledger_inv X lgA" using op_inv [OF inv h(3), of K "OpCreateRun scope creq"] eA by simp
  have recA: "recoverable X K dir S (Suc n) lgA" using op_recoverable [OF K rec h(1) inv h(3), of "OpCreateRun scope creq"] eA by simp
  obtain r1 where r1: "wal_log X lgA = wal_log X lg0 @ [r1]" "encode K (RunCreated run) = Inr (wr_payload r1)"
    by (rule applied_log [OF rec h(1) run(2)])
  obtain rA ev where ev: "run_in_scope X scope (oi_id oi1) lgA = Inr rA"
    "ev = build_event X (oi_event_id oi2) scope rA (ae_event_type ereq) (ae_occurred_at_ms ereq) (ae_payload ereq) (oi_now oi2)"
    "applied X K oi2 (Some scope) (EventAppended ev) lgA lg"
    using append_event_cases [OF invA h(4) a] by auto
  obtain r2 where r2: "wal_log X lg = wal_log X lgA @ [r2]" "encode K (EventAppended ev) = Inr (wr_payload r2)"
    by (rule applied_log [OF recA h(2) ev(3)])
  have eB: "snd (ledger_op_exec X K oi2 (OpAppendEvent scope (oi_id oi1) ereq) lgA) = lg" by (simp add: a drop_value_def)
  have recB: "recoverable X K dir S n lg"
    using op_recoverable [OF K recA h(2) invA h(4), of "OpAppendEvent scope (oi_id oi1) ereq"] eB by simp
  have invB: "ledger_inv X lg" using op_inv [OF invA h(4), of K "OpAppendEvent scope (oi_id oi1) ereq"] eB by simp
  obtain iz where iz: "same_data (lg_indexes lg0) iz" "lg_indexes lgA = insert_run run iz"
    using run(2) by (auto simp: applied_def)
  have "run_ok X (lg_indexes lg0) (oi_id oi1)" using ledger_invD(1) [OF inv] by (simp add: indexes_ok_def)
  then have "run_events (lg_indexes lg0) (oi_id oi1) = []" using h(3) by (simp add: run_ok_def row_ok_def fresh_input_def)
  then have emptyA: "run_events (lg_indexes lgA) (oi_id oi1) = []"
    using same_data_sel [OF iz(1)] by (simp add: iz(2) insert_run_def run_events_def)
  have getA: "dm_get (ix_runs (lg_indexes lgA)) (oi_id oi1) = Some rA" using ev(1) by (simp add: run_in_scope_Inr)
  note row = run_row [OF ledger_invD(1) [OF invA] getA]
  have idv: "evr_run_id ev = oi_id oi1" "evr_sequence ev = 1"
    using row emptyA by (simp_all add: ev(2) build_event_def Let_def i64_add_def in_i64_def i64_min_def i64_max_def)
  obtain iw where iw: "same_data (lg_indexes lgA) iw" "event_next X iw ev" "lg_indexes lg = snd (apply_event X ev iw)"
    using ev(3) by (auto simp: applied_def)
  have "run_events (lg_indexes lg) (oi_id oi1) = [ev]"
    using apply_event_next [OF iw(2)] same_data_sel [OF iw(1)] emptyA idv(1) by (simp add: iw(3) push_event_sel)
  then show ?thesis
    using that [of r1 r2 run ev] r1 r2 idv recB invB by (simp add: run(1) new_run_def)
qed

text \<open>
  C22: A snapshot taken right after a restart makes the next start corrupt the runs.  \<open>open\<close> sets the
  position the next snapshot records to the watermark of the snapshot it loaded, not to the last record
  it replayed.  A run is created and gets an event; the ledger restarts, takes a snapshot and restarts
  again.  The second start applies the log again on top of the snapshot: the timeline still has its event,
  but the run record is reset to sequence zero and the genesis hash, and the invariant of the ledger is lost.
\<close>

theorem snapshot_after_restart_rewinds_run:
  assumes "serde_inverts K" "HEADER_LEN < wc_max_segment_size (lc_wal cfg)" "wc_fsync_strategy (lc_wal cfg) = Always"
    and "ledger_open X K snap_good no_faults no_faults cfg dir [] [] = (Inr lg0, D0)"
    and "healthy_io oi1" "healthy_io oi2" "healthy_io oi3" "fresh_input oi1 lg0" "fresh_input oi2 lgA"
    and "create_run X K oi1 scope creq lg0 = (Inr v, lgA)"
    and "append_event X K oi2 scope (oi_id oi1) ereq lgA = (Inr e, lgB)"
    and "ledger_open X K snap_good no_faults no_faults cfg dir [] (crash_dir keep (ww_dir (lg_wal lgB))) = (Inr lg1, D1)"
    and "ledger_snapshot X K snap_good no_faults oi3 lg1 [] = (Inr mf, lg2, S)"
  shows "\<exists>lg3 D3 run1 run3. ledger_open X K snap_good no_faults no_faults cfg dir S (ww_dir (lg_wal lg2)) = (Inr lg3, D3) \<and>
    run_events (lg_indexes lg3) (oi_id oi1) = run_events (lg_indexes lg1) (oi_id oi1) \<and>
    dm_get (ix_runs (lg_indexes lg1)) (oi_id oi1) = Some run1 \<and> rr_last_event_sequence run1 = 1 \<and>
    dm_get (ix_runs (lg_indexes lg3)) (oi_id oi1) = Some run3 \<and> rr_last_event_sequence run3 = 0 \<and> \<not> ledger_inv X lg3"
proof -
  let ?i = "oi_id oi1"
  have n: "Suc (Suc (Suc (Suc 0))) + 1 < 2 ^ 64" by simp
  note init = open_empty [OF assms(2-4) n]
  obtain r1 r2 run ev where t: "wal_log X lgB = wal_log X lg0 @ [r1, r2]" "encode K (RunCreated run) = Inr (wr_payload r1)"
    "encode K (EventAppended ev) = Inr (wr_payload r2)" "rr_id run = ?i" "rr_last_event_sequence run = 0"
    "evr_run_id ev = ?i" "run_events (lg_indexes lgB) ?i = [ev]" "evr_sequence ev = 1"
    "recoverable X K dir [] (Suc (Suc 0)) lgB" "ledger_inv X lgB"
    by (rule two_requests_log [OF assms(1) init(1) ledger_inv_empty [OF init(2)] assms(5,6,8-11)])
  obtain lg' D' st1 base where o: "ledger_open X K snap_good no_faults no_faults cfg dir [] (crash_dir keep (ww_dir (lg_wal lgB))) = (Inr lg', D')"
    "data_of (lg_indexes lg') = data_of (lg_indexes lgB)" "maps_ok (lg_indexes lg')"
    "open_snapshot X K snap_good dir [] = Inr (lg_last_wal_position lg', base)"
    "ww_task (lg_wal lg') = WriterRunning st1" "wal_inv X st1 (ww_dir (lg_wal lg'))" "wal_log X lg' = wal_log X lgB"
    "ws_segment_id st1 + Suc 0 < 2 ^ 64"
    by (rule reopen [OF t(9) assms(2), of keep])
  have eq: "lg' = lg1" using o(1) assms(12) by simp
  note o = o [unfolded eq]
  have pos: "lg_last_wal_position lg1 = None" using o(4) by (simp add: open_snapshot_def load_snapshot_def snap_good_def)
  have inv1: "ledger_inv X lg1" using ledger_inv_data [OF o(2) [symmetric] t(10) o(3)] .
  have ev1: "run_events (lg_indexes lg1) ?i = [ev]" using o(2) t(7) by (simp add: data_of_eq)
  have sync: "oi_sync_io oi3 = io_good" using assms(7) by (simp add: healthy_io_def)
  obtain st2 D2 where s: "grown X st1 (ww_dir (lg_wal lg1)) st2 D2 []"
    "lg2 = lg1\<lparr>lg_wal := \<lparr>ww_task = WriterRunning st2, ww_dir = D2\<rparr>\<rparr>"
    "save_snapshot X K snap_good (collect_state (lg_indexes lg1)) None (oi_now oi3) [] = (Inr mf, S)"
    using snapshot_cases [OF assms(13) sync o(5,6)] pos by metis
  have inv2: "wal_inv X st2 D2" "dir_log X D2 = wal_log X lgB" using s(1) o(7) by (simp_all add: grown_def wal_log_def)
  have id: "Suc (ws_segment_id st2) < 2 ^ 64" using s(1) o(8) by (simp add: grown_def)
  let ?base = "load_state (collect_state (lg_indexes lg1)) empty_indexes"
  have base: "data_of ?base = data_of (lg_indexes lg1)" by (rule load_collected [OF ledger_invD(1) [OF inv1]])
  let ?ix = "insert_run run ?base"
  have evs: "run_events ?ix (evr_run_id ev) = [ev]" using base ev1 t(6) by (simp add: data_of_eq run_events_insert_run)
  obtain ix3 where ix3: "apply_event X ev ?ix = (Inr (), ix3)" "run_events ix3 = run_events ?ix" "ix_runs ix3 = ix_runs ?ix"
    by (rule apply_event_again [OF evs t(8)])
  have "replay_records X K None (dir_log X D2) ?base = Inr ix3"
    using encode_inverts [OF assms(1) t(2)] encode_inverts [OF assms(1) t(3)] ix3(1)
    by (simp add: inv2(2) t(1) init(3) covered_by_def)
  then obtain lg3 D3 where l3: "ledger_open X K snap_good no_faults no_faults cfg dir S D2 = (Inr lg3, D3)" "lg_indexes lg3 = ix3"
    by (rule open_clean [OF inv2(1) id assms(2) save_open [OF assms(1) s(3)]])
  have run3: "dm_get (ix_runs ix3) ?i = Some run" by (simp add: ix3(3) insert_run_def dm_simps t(4))
  have ev3: "run_events ix3 ?i = [ev]" using evs t(6) ix3(2) by simp
  have bad: "\<not> ledger_inv X lg3"
  proof
    assume "ledger_inv X lg3"
    from run_row(2) [OF ledger_invD(1) [OF this, unfolded l3(2)] run3] show False using ev3 t(5) by simp
  qed
  have "run_ok X (lg_indexes lg1) ?i" using ledger_invD(1) [OF inv1] by (simp add: indexes_ok_def)
  then obtain run1 where run1: "dm_get (ix_runs (lg_indexes lg1)) ?i = Some run1"
    using ev1 by (cases "dm_get (ix_runs (lg_indexes lg1)) ?i") (auto simp: run_ok_def row_ok_def)
  have "rr_last_event_sequence run1 = 1" using run_row(2) [OF ledger_invD(1) [OF inv1] run1] ev1 by simp
  then show ?thesis using l3 run3 ev3 bad run1 ev1 t(5) s(2) by auto
qed

text \<open>A codec for that run, its first event, the state with both and the manifest of its snapshot.\<close>

definition restart_event :: event_record where
  "restart_event = build_event demo_ext 2 demo_scope crash_run ''step'' 5 JNull 2000"

definition restart_indexes :: indexes where
  "restart_indexes = snd (apply_event demo_ext restart_event (insert_run crash_run empty_indexes))"

definition restart_manifest :: ledger_snapshot_manifest where
  "restart_manifest = \<lparr>lm_version = SNAPSHOT_FORMAT_VERSION, lm_created_at_ms = 3000, lm_wal_watermark = None,
     lm_files = [\<lparr>sfe_path = STATE_FILE_NAME, sfe_len = 1, sfe_crc32c = crc32c demo_ext ''s''\<rparr>]\<rparr>"

definition restart_codec :: serde where
  "restart_codec =
     \<lparr>record_to_vec = (\<lambda>r. if r = \<lparr>lr_v = RECORD_VERSION, lr_kind = RunCreated crash_run\<rparr> then Inr ''r''
        else if r = \<lparr>lr_v = RECORD_VERSION, lr_kind = EventAppended restart_event\<rparr> then Inr ''e'' else Inl ''unsupported''),
      record_from_slice = (\<lambda>bs. Inr \<lparr>lr_v = RECORD_VERSION,
        lr_kind = if bs = ''r'' then RunCreated crash_run else EventAppended restart_event\<rparr>),
      state_to_vec = (\<lambda>st. if st = collect_state restart_indexes then Inr ''s'' else Inl ''unsupported''),
      state_from_slice = (\<lambda>_. Inr (collect_state restart_indexes)),
      manifest_to_vec_pretty = (\<lambda>mf. if mf = restart_manifest then Inr ''m'' else Inl ''unsupported''),
      manifest_from_slice = (\<lambda>_. Inr restart_manifest)\<rparr>"

lemma restart_codec_inverts: "serde_inverts restart_codec"
  by (auto simp: serde_inverts_def restart_codec_def split: if_splits)

lemma restart_encode:
  "encode restart_codec (RunCreated crash_run) = Inr ''r''" "encode restart_codec (EventAppended restart_event) = Inr ''e''"
  "encode restart_codec (RunCreated run) = Inr bs \<Longrightarrow> run = crash_run"
  "encode restart_codec (EventAppended ev) = Inr bs \<Longrightarrow> ev = restart_event"
  by (auto simp: encode_def restart_codec_def split: if_splits)

text \<open>The run and its event, as far as the restart.\<close>

lemma restart_requests:
  assumes o: "ledger_open demo_ext restart_codec snap_good no_faults no_faults crash_config ''snap'' [] [] = (Inr lg0, D0)"
  obtains v lgA e lgB where
    "create_run demo_ext restart_codec (demo_input 1000 1) demo_scope demo_run_request lg0 = (Inr v, lgA)"
    "append_event demo_ext restart_codec (demo_input 2000 2) demo_scope 1 demo_event_request lgA = (Inr e, lgB)"
    "fresh_input (demo_input 1000 1) lg0" "fresh_input (demo_input 2000 2) lgA"
proof -
  have n: "1000 + 1 < (2 :: nat) ^ 64" by simp
  note init = open_empty [OF crash_config_sel o n]
  have ready: "wal_ready demo_ext (Suc 999) lg0" using wal_ready_recoverable [OF init(1)] by simp
  have ok: "indexes_ok demo_ext (lg_indexes lg0)" by (rule ledger_invD(1) [OF ledger_inv_empty [OF init(2)]])
  have fits: "kind_fits demo_ext (lg_indexes lg0) (RunCreated crash_run)"
    by (simp add: crash_run_def new_run_def init(2) empty_indexes_def)
  have len: "length ''r'' < 2 ^ 32" "length ''e'' < 2 ^ 32" by simp_all
  obtain lgA where p: "persist demo_ext restart_codec (demo_input 1000 1) (RunCreated crash_run) lg0 = (Inr (), lgA)"
    "wal_ready demo_ext 999 lgA" "lg_indexes lgA = snd (indexes_apply demo_ext (RunCreated crash_run) (lg_indexes lg0))"
    by (rule persist_good [OF ready demo_healthy restart_encode(1) len(1) ok fits])
  have c: "create_run demo_ext restart_codec (demo_input 1000 1) demo_scope demo_run_request lg0 = (Inr (view_run crash_run), lgA)"
    using p(1) by (simp add: create_run_def demo_run_request_def crash_run_def)
  have fresh0: "fresh_input (demo_input 1000 1) lg0" by (rule fresh_empty [OF init(2)])
  have ixA: "lg_indexes lgA = insert_run crash_run empty_indexes" using p(3) by (simp add: init(2))
  have id: "rr_id crash_run = 1" by (simp add: crash_run_def new_run_def)
  have freshA: "fresh_input (demo_input 2000 2) lgA" by (rule fresh_one_run [OF ixA]) (simp add: id)
  have invA: "ledger_inv demo_ext lgA"
    using op_inv [OF ledger_inv_empty [OF init(2)] fresh0, where K = restart_codec and op = "OpCreateRun demo_scope demo_run_request", where X = demo_ext]
    by (simp add: c drop_value_def)
  have run: "run_in_scope demo_ext demo_scope 1 lgA = Inr crash_run"
    by (simp add: run_in_scope_Inr ixA insert_run_def dm_simps crash_run_def new_run_def demo_scope_def)
  let ?lg = "run_lock 1 lgA"
  have d: "dm_get (ix_runs (lg_indexes ?lg)) 1 = Some crash_run" using run by (simp add: run_in_scope_Inr)
  note okA = ledger_invD(3) [OF invA, of 1]
  have "event_next demo_ext (lg_indexes ?lg) restart_event"
    unfolding restart_event_def using freshA by (intro build_event_next [OF okA d]) (simp add: fresh_input_def)
  then have fitsA: "kind_fits demo_ext (lg_indexes ?lg) (EventAppended restart_event)" by simp
  have readyA: "wal_ready demo_ext (Suc 998) ?lg" using p(2) by simp
  obtain lgB where q: "persist demo_ext restart_codec (demo_input 2000 2) (EventAppended restart_event) ?lg = (Inr (), lgB)"
    by (rule persist_good [OF readyA demo_healthy restart_encode(2) len(2) okA fitsA])
  have valid: "validate_event_type (ae_event_type demo_event_request) = Inr ()"
    by (simp add: validate_event_type_def demo_event_request_def char_in_def)
  have "append_event demo_ext restart_codec (demo_input 2000 2) demo_scope 1 demo_event_request lgA = (Inr (view_event restart_event), lgB)"
    using valid run q by (simp add: append_event_def Let_def restart_event_def demo_event_request_def demo_input_def)
  from that [OF c this fresh0 freshA] show ?thesis .
qed

theorem snapshot_after_restart_rewinds_run_witness:
  "\<exists>lg1 lg2 S lg3 D3 run1 run3.
    ledger_snapshot demo_ext restart_codec snap_good no_faults (demo_input 3000 3) lg1 [] = (Inr restart_manifest, lg2, S) \<and>
    ledger_open demo_ext restart_codec snap_good no_faults no_faults crash_config ''snap'' S (ww_dir (lg_wal lg2)) = (Inr lg3, D3) \<and>
    dm_get (ix_runs (lg_indexes lg1)) 1 = Some run1 \<and> rr_last_event_sequence run1 = 1 \<and>
    dm_get (ix_runs (lg_indexes lg3)) 1 = Some run3 \<and> rr_last_event_sequence run3 = 0"
proof -
  obtain lg0 D0 where o: "ledger_open demo_ext restart_codec snap_good no_faults no_faults crash_config ''snap'' [] [] = (Inr lg0, D0)"
    by (rule open_empty_ok [OF crash_config_sel(1)])
  obtain v lgA e lgB where r: "create_run demo_ext restart_codec (demo_input 1000 1) demo_scope demo_run_request lg0 = (Inr v, lgA)"
    "append_event demo_ext restart_codec (demo_input 2000 2) demo_scope (oi_id (demo_input 1000 1)) demo_event_request lgA = (Inr e, lgB)"
    "fresh_input (demo_input 1000 1) lg0" "fresh_input (demo_input 2000 2) lgA"
    using restart_requests [OF o] by (metis demo_input_sel(2))
  have n: "Suc (Suc (Suc (Suc 0))) + 1 < 2 ^ 64" by simp
  note init = open_empty [OF crash_config_sel o n]
  obtain r1 r2 run ev where t: "wal_log demo_ext lgB = wal_log demo_ext lg0 @ [r1, r2]"
    "encode restart_codec (RunCreated run) = Inr (wr_payload r1)" "encode restart_codec (EventAppended ev) = Inr (wr_payload r2)"
    "recoverable demo_ext restart_codec ''snap'' [] (Suc (Suc 0)) lgB"
    by (rule two_requests_log [OF restart_codec_inverts init(1) ledger_inv_empty [OF init(2)] demo_healthy demo_healthy r(3,4,1,2)])
  obtain lg1 D1 st1 base where q:
    "ledger_open demo_ext restart_codec snap_good no_faults no_faults crash_config ''snap'' [] (crash_dir (\<lambda>_. 0) (ww_dir (lg_wal lgB))) = (Inr lg1, D1)"
    "open_snapshot demo_ext restart_codec snap_good ''snap'' [] = Inr (lg_last_wal_position lg1, base)"
    "ww_task (lg_wal lg1) = WriterRunning st1" "wal_inv demo_ext st1 (ww_dir (lg_wal lg1))"
    "replay_records demo_ext restart_codec (lg_last_wal_position lg1) (wal_log demo_ext lgB) base = Inr (lg_indexes lg1)"
    by (rule reopen [OF t(4) crash_config_sel(1)])
  have pos: "lg_last_wal_position lg1 = None" "base = empty_indexes"
    using q(2) by (simp_all add: open_snapshot_def load_snapshot_def snap_good_def)
  have "lg_indexes lg1 = restart_indexes"
    using q(5) encode_inverts [OF restart_codec_inverts t(2)] encode_inverts [OF restart_codec_inverts t(3)]
      restart_encode(3) [OF t(2)] restart_encode(4) [OF t(3)]
    by (auto simp: t(1) init(3) pos covered_by_def restart_indexes_def split: sum.splits prod.splits)
  then obtain S where sv: "save_snapshot demo_ext restart_codec snap_good (collect_state (lg_indexes lg1)) None 3000 [] = (Inr restart_manifest, S)"
    by (simp add: save_snapshot_def write_manifest_def snap_good_def Let_def restart_codec_def restart_manifest_def)
  obtain W where w: "wal_flush demo_ext io_good (lg_wal lg1) = (Inr (), W)" using wal_flush_good [OF q(3,4)] by metis
  obtain lg2 where sn: "ledger_snapshot demo_ext restart_codec snap_good no_faults (demo_input 3000 3) lg1 [] = (Inr restart_manifest, lg2, S)"
    using w sv pos by (simp add: ledger_snapshot_def snapshot_save_def snapshot_truncate_def demo_input_def)
  obtain lg3 D3 run1 run3 where
    "ledger_open demo_ext restart_codec snap_good no_faults no_faults crash_config ''snap'' S (ww_dir (lg_wal lg2)) = (Inr lg3, D3)"
    "dm_get (ix_runs (lg_indexes lg1)) 1 = Some run1" "rr_last_event_sequence run1 = 1"
    "dm_get (ix_runs (lg_indexes lg3)) 1 = Some run3" "rr_last_event_sequence run3 = 0"
    using snapshot_after_restart_rewinds_run [OF restart_codec_inverts crash_config_sel o demo_healthy demo_healthy demo_healthy
      r(3,4,1,2) q(1) sn] unfolding demo_input_sel by blast
  with sn show ?thesis by blast
qed

section \<open>Interrupted and unsynced snapshots\<close>

definition checksum_failed :: "persistence_error" where
  "checksum_failed = Corruption (''ledger snapshot file '' @ STATE_FILE_NAME @ '' failed checksum verification'')"

lemma state_overwritten:
  assumes K: "serde_inverts K" and s: "save_snapshot X K io st w t S = (Inr mf, S1)" "state_to_vec K st = Inr bs"
    and new: "length bs' \<noteq> length bs \<or> crc32c X bs' \<noteq> crc32c X bs"
    and S2: "dm_get S2 MANIFEST_FILE_NAME = dm_get S1 MANIFEST_FILE_NAME" "map_option fdata (dm_get S2 STATE_FILE_NAME) = Some bs'"
  shows "load_snapshot X K snap_good dir S2 = Inl checksum_failed"
proof -
  obtain ms S0 where b:
    "mf = \<lparr>lm_version = SNAPSHOT_FORMAT_VERSION, lm_created_at_ms = t, lm_wal_watermark = w,
       lm_files = [\<lparr>sfe_path = STATE_FILE_NAME, sfe_len = length bs, sfe_crc32c = crc32c X bs\<rparr>]\<rparr>"
    "manifest_to_vec_pretty K mf = Inr ms" "S1 = create_file MANIFEST_FILE_NAME ms S0"
    using s by (auto simp: save_snapshot_def write_manifest_def Let_def split: option.splits sum.splits prod.splits)
  have "manifest_from_slice K ms = Inr mf" using K b(2) by (simp add: serde_inverts_def)
  then show ?thesis
    using new S2 by (auto simp: load_snapshot_def snap_good_def b(1,3) create_file_def dm_simps checksum_failed_def)
qed

text \<open>
  C26: A failed second snapshot makes the ledger unopenable.  \<open>save_snapshot\<close> overwrites the state file of
  the previous snapshot in place and only then replaces the manifest.  When the manifest cannot be
  written, the old manifest stays beside the new state, its checksum no longer matches, and every later
  \<open>open\<close> fails, although the previous snapshot and the log together held everything.
\<close>

theorem failed_snapshot_blocks_open:
  assumes "serde_inverts K" "save_snapshot X K io st w t S = (Inr mf, S1)" "state_to_vec K st = Inr bs"
    and "state_to_vec K st' = Inr bs'" "length bs' \<noteq> length bs \<or> crc32c X bs' \<noteq> crc32c X bs"
    and "save_snapshot X K (snap_good\<lparr>sio_open_manifest := Some err\<rparr>) st' w' t' S1 = (r, S2)"
  shows "isl r \<and> ledger_open X K snap_good F F' cfg dir S2 D = (Inl (Persistence checksum_failed), D)"
proof -
  have "(r, S2) = (Inl (Io err), update_file STATE_FILE_NAME sync_all (create_file STATE_FILE_NAME bs' S1)) \<or>
    isl r \<and> S2 = update_file STATE_FILE_NAME sync_all (create_file STATE_FILE_NAME bs' S1)"
    using assms(4,6) by (auto simp: save_snapshot_def write_manifest_def snap_good_def Let_def split: sum.splits)
  then have r: "isl r" "S2 = update_file STATE_FILE_NAME sync_all (create_file STATE_FILE_NAME bs' S1)" by auto
  have "load_snapshot X K snap_good dir S2 = Inl checksum_failed"
    by (rule state_overwritten [OF assms(1-3,5)])
      (simp_all add: r(2) create_file_def dm_simps dm_get_update_file sync_all_def STATE_FILE_NAME_def MANIFEST_FILE_NAME_def)
  then show ?thesis using r(1) by (simp add: ledger_open_def open_snapshot_def)
qed

text \<open>A codec of two states and one manifest.\<close>

definition two_states_manifest :: ledger_snapshot_manifest where
  "two_states_manifest = \<lparr>lm_version = SNAPSHOT_FORMAT_VERSION, lm_created_at_ms = 1000, lm_wal_watermark = None,
     lm_files = [\<lparr>sfe_path = STATE_FILE_NAME, sfe_len = 1, sfe_crc32c = crc32c demo_ext ''s''\<rparr>]\<rparr>"

definition two_states_codec :: serde where
  "two_states_codec = demo_serde
     \<lparr>record_to_vec := (\<lambda>_. Inl ''unsupported''),
      state_to_vec := (\<lambda>st. if st = collect_state empty_indexes then Inr ''s''
        else if st = collect_state (insert_run crash_run empty_indexes) then Inr ''ss'' else Inl ''unsupported''),
      state_from_slice := (\<lambda>bs. Inr (collect_state (if bs = ''s'' then empty_indexes else insert_run crash_run empty_indexes))),
      manifest_to_vec_pretty := (\<lambda>mf. if mf = two_states_manifest then Inr ''m'' else Inl ''unsupported''),
      manifest_from_slice := (\<lambda>bs. if bs = [] then Inl ''EOF while parsing a value'' else Inr two_states_manifest)\<rparr>"

lemma two_states_inverts: "serde_inverts two_states_codec"
  by (auto simp: serde_inverts_def two_states_codec_def split: if_splits)

lemma two_states_encode:
  "state_to_vec two_states_codec (collect_state empty_indexes) = Inr ''s''"
  "state_to_vec two_states_codec (collect_state (insert_run crash_run empty_indexes)) = Inr ''ss''"
  by (simp_all add: two_states_codec_def collect_state_def insert_run_def empty_indexes_def dm_values_def dm_insert_def)

lemma two_states_save:
  obtains S1 where "save_snapshot demo_ext two_states_codec snap_good (collect_state empty_indexes) None 1000 [] = (Inr two_states_manifest, S1)"
  by (simp add: save_snapshot_def write_manifest_def snap_good_def Let_def two_states_encode)
    (simp add: two_states_codec_def two_states_manifest_def)

theorem failed_snapshot_blocks_open_witness:
  "\<exists>S1 r S2. save_snapshot demo_ext two_states_codec snap_good (collect_state empty_indexes) None 1000 [] = (Inr two_states_manifest, S1) \<and>
    save_snapshot demo_ext two_states_codec (snap_good\<lparr>sio_open_manifest := Some ''disk full''\<rparr>)
      (collect_state (insert_run crash_run empty_indexes)) None 2000 S1 = (r, S2) \<and>
    ledger_open demo_ext two_states_codec snap_good no_faults no_faults crash_config ''snap'' S2 [] = (Inl (Persistence checksum_failed), [])"
proof -
  obtain S1 where s1: "save_snapshot demo_ext two_states_codec snap_good (collect_state empty_indexes) None 1000 [] = (Inr two_states_manifest, S1)"
    by (rule two_states_save)
  obtain r S2 where s2: "save_snapshot demo_ext two_states_codec (snap_good\<lparr>sio_open_manifest := Some ''disk full''\<rparr>)
      (collect_state (insert_run crash_run empty_indexes)) None 2000 S1 = (r, S2)" by fastforce
  have "length ''ss'' \<noteq> length ''s'' \<or> crc32c demo_ext ''ss'' \<noteq> crc32c demo_ext ''s''" by simp
  from failed_snapshot_blocks_open [OF two_states_inverts s1 two_states_encode this s2] s1 s2 show ?thesis by blast
qed

text \<open>
  C27: A power loss after a successful snapshot can make the ledger unopenable.  The manifest is written
  but never synced, so a crash may leave it empty.  An empty file does not parse as a manifest, and
  \<open>open\<close> then refuses whatever the log holds.
\<close>

theorem unsynced_manifest_blocks_open:
  assumes "save_snapshot X K io st w t S = (Inr mf, S1)" "manifest_from_slice K [] = Inl err"
  shows "ledger_open X K snap_good F F' cfg dir (crash_dir (\<lambda>_. 0) S1) D =
    (Inl (Persistence (Corruption (''invalid ledger snapshot manifest '' @ path_join dir MANIFEST_FILE_NAME @ '': '' @ err))), D)"
proof -
  obtain ms S0 where "S1 = create_file MANIFEST_FILE_NAME ms S0"
    using assms(1) by (auto simp: save_snapshot_def write_manifest_def Let_def split: option.splits sum.splits prod.splits)
  then have "dm_get (crash_dir (\<lambda>_. 0) S1) MANIFEST_FILE_NAME = Some \<lparr>fdata = [], fsynced = 0\<rparr>"
    by (simp add: dm_get_crash create_file_def dm_simps crash_file_def Let_def)
  then show ?thesis
    using assms(2) by (simp add: ledger_open_def open_snapshot_def load_snapshot_def snap_good_def)
qed

theorem unsynced_manifest_blocks_open_witness:
  "\<exists>S1 e. save_snapshot demo_ext two_states_codec snap_good (collect_state empty_indexes) None 1000 [] = (Inr two_states_manifest, S1) \<and>
    ledger_open demo_ext two_states_codec snap_good no_faults no_faults crash_config ''snap'' (crash_dir (\<lambda>_. 0) S1) [] = (Inl e, [])"
proof -
  obtain S1 where s1: "save_snapshot demo_ext two_states_codec snap_good (collect_state empty_indexes) None 1000 [] = (Inr two_states_manifest, S1)"
    by (rule two_states_save)
  have "manifest_from_slice two_states_codec [] = Inl ''EOF while parsing a value''" by (simp add: two_states_codec_def)
  from unsynced_manifest_blocks_open [OF s1 this] s1 show ?thesis by blast
qed

end
