(* ===== verification/Ledger_Truncation.thy ===== *)
theory Ledger_Truncation
  imports Ledger_Restart
begin

text \<open>
  Truncating the log after a snapshot.  \<open>snapshot\<close> drops the commit lock before it removes the
  segments up to the one of its watermark, so requests can run in between.
\<close>

section \<open>Requests between a snapshot and its truncation\<close>

lemma created_run_log:
  assumes K: "serde_inverts K" and rec: "recoverable X K dir S (Suc n) lg" and inv: "ledger_inv X lg"
    and h: "healthy_io oi" "fresh_input oi lg" and c: "create_run X K oi scope req lg = (Inr v, lg')"
  obtains rc st st' run where "wal_log X lg' = wal_log X lg @ [rc]" "encode K (RunCreated run) = Inr (wr_payload rc)"
    "rr_id run = oi_id oi" "ww_task (lg_wal lg) = WriterRunning st" "ww_task (lg_wal lg') = WriterRunning st'"
    "grown X st (ww_dir (lg_wal lg)) st' (ww_dir (lg_wal lg')) [rc]"
    "dm_get (ix_runs (lg_indexes lg')) i = (if i = oi_id oi then Some run else dm_get (ix_runs (lg_indexes lg)) i)"
    "recoverable X K dir S n lg'" "ledger_inv X lg'"
proof -
  obtain run where run: "run = new_run oi scope (cr_external_id req) (cr_agent_name req) None None (cr_metadata req)"
    "applied X K oi (Some scope) (RunCreated run) lg lg'"
    using create_run_cases [OF inv h(2) c] by auto
  have e: "snd (ledger_op_exec X K oi (OpCreateRun scope req) lg) = lg'" by (simp add: c drop_value_def)
  obtain iz where iz: "same_data (lg_indexes lg) iz" "lg_indexes lg' = insert_run run iz"
    using run(2) by (auto simp: applied_def)
  have get: "dm_get (ix_runs (lg_indexes lg')) i = (if i = oi_id oi then Some run else dm_get (ix_runs (lg_indexes lg)) i)"
    using same_data_sel [OF iz(1)] by (simp add: iz(2) insert_run_def dm_simps run(1) new_run_def)
  obtain rc st st' where "wal_log X lg' = wal_log X lg @ [rc]" "encode K (RunCreated run) = Inr (wr_payload rc)"
    "ww_task (lg_wal lg) = WriterRunning st" "ww_task (lg_wal lg') = WriterRunning st'"
    "grown X st (ww_dir (lg_wal lg)) st' (ww_dir (lg_wal lg')) [rc]"
    by (rule applied_log [OF rec h(1) run(2)])
  then show ?thesis
    using get op_recoverable [OF K rec h(1) inv h(2), of "OpCreateRun scope req"] op_inv [OF inv h(2), of K "OpCreateRun scope req"] e
    by (intro that [of rc run st st']) (simp_all add: run(1) new_run_def del: ledger_op_exec.simps)
qed

text \<open>
  C23: A snapshot can delete acknowledged records.  After the snapshot is saved and before its
  segments are removed, two runs are created: the record of the first goes into the segment of the
  watermark, behind it, and the second rolls the log to the next segment.  The truncation then removes
  the whole segment of the watermark.  The first run, acknowledged and synced, is in neither the
  snapshot nor the log: it is gone after the next start.
\<close>

theorem truncation_race_loses_run:
  assumes "serde_inverts K" "HEADER_LEN < wc_max_segment_size (lc_wal cfg)" "wc_fsync_strategy (lc_wal cfg) = Always"
    and "ledger_open X K snap_good no_faults no_faults cfg dir [] [] = (Inr lg0, D0)"
    and "actions_ok X K acts lg0 []" "run_actions X K acts lg0 [] = (lg, S)" "length acts + 5 < 2 ^ 64"
    and "healthy_io oi" "healthy_io oiA" "healthy_io oiB"
    and "snapshot_save X K snap_good oi lg S = (Inr (Some p, mf), lg1, S1)"
    and "fresh_input oiA lg1" "create_run X K oiA scope reqA lg1 = (Inr vA, lg2)"
    and "fresh_input oiB lg2" "create_run X K oiB scope reqB lg2 = (Inr vB, lg3)"
    and "active_segment_id (lg_wal lg2) = segment_id p" "active_segment_id (lg_wal lg3) = Suc (segment_id p)"
    and "snapshot_truncate no_faults (Some p) lg3 = (r, lg4)"
  shows "\<exists>lg5 D5. ledger_open X K snap_good no_faults no_faults cfg dir S1 (ww_dir (lg_wal lg4)) = (Inr lg5, D5) \<and>
    dm_get (ix_runs (lg_indexes lg3)) (oi_id oiA) \<noteq> None \<and> dm_get (ix_runs (lg_indexes lg5)) (oi_id oiA) = None"
proof -
  have n: "(length acts + 4) + 1 < 2 ^ 64" using assms(7) by simp
  note init = open_empty [OF assms(2-4) n]
  have rec: "recoverable X K dir S 4 lg" "ledger_inv X lg"
    using run_actions_recoverable [OF assms(1) init(1) ledger_inv_empty [OF init(2)] assms(5,6)] by simp_all
  note sv = snapshot_save_recoverable [OF assms(1) rec(1) assms(8) ledger_invD(1) [OF rec(2)] assms(11)]
  have inv1: "ledger_inv X lg1" using rec(2) sv(2) by (simp add: ledger_inv_def)
  have rec1: "recoverable X K dir S1 (Suc 3) lg1" using sv(1) by (simp add: eval_nat_numeral)
  obtain rA st1 st2 runA where A: "wal_log X lg2 = wal_log X lg1 @ [rA]" "rr_id runA = oi_id oiA"
    "ww_task (lg_wal lg1) = WriterRunning st1" "ww_task (lg_wal lg2) = WriterRunning st2"
    "grown X st1 (ww_dir (lg_wal lg1)) st2 (ww_dir (lg_wal lg2)) [rA]"
    "dm_get (ix_runs (lg_indexes lg2)) (oi_id oiA) = (if oi_id oiA = oi_id oiA then Some runA else dm_get (ix_runs (lg_indexes lg1)) (oi_id oiA))"
    "recoverable X K dir S1 3 lg2" "ledger_inv X lg2"
    by (rule created_run_log [OF assms(1) rec1 inv1 assms(9,12,13), of "oi_id oiA"])
  have rec2: "recoverable X K dir S1 (Suc 2) lg2" using A(7) by (simp add: eval_nat_numeral)
  obtain rB st2' st3 runB where B: "wal_log X lg3 = wal_log X lg2 @ [rB]" "encode K (RunCreated runB) = Inr (wr_payload rB)"
    "rr_id runB = oi_id oiB" "ww_task (lg_wal lg2) = WriterRunning st2'" "ww_task (lg_wal lg3) = WriterRunning st3"
    "grown X st2' (ww_dir (lg_wal lg2)) st3 (ww_dir (lg_wal lg3)) [rB]"
    "dm_get (ix_runs (lg_indexes lg3)) (oi_id oiA) = (if oi_id oiA = oi_id oiB then Some runB else dm_get (ix_runs (lg_indexes lg2)) (oi_id oiA))"
    "recoverable X K dir S1 2 lg3"
    by (rule created_run_log [OF assms(1) rec2 A(8) assms(10,14,15), of "oi_id oiA"])
  have ne: "oi_id oiB \<noteq> oi_id oiA" using assms(14) A(6) by (auto simp: fresh_input_def)
  have wi: "wal_inv X st2 (ww_dir (lg_wal lg2))" "wal_inv X st3 (ww_dir (lg_wal lg3))" using A(5) B(6) by (simp_all add: grown_def)
  have seg: "ws_segment_id st2 = segment_id p" "ws_segment_id st3 = Suc (segment_id p)" "ws_active_segment st3 = Suc (segment_id p)"
    using assms(16,17) A(4) B(5) wi by (simp_all add: active_segment_id_def wal_inv_def)
  have old: "wr_segment_id q \<le> segment_id p" if "q \<in> set (wal_log X lg2)" for q
  proof -
    have "record_at q < wal_end st2" using A(4,7) that by (auto simp: recoverable_def)
    then show ?thesis by (auto simp: record_at_def wal_end_def seg(1))
  qed
  have lt: "Suc (segment_id p) + 2 < 2 ^ 64" using B(5,8) seg(2) by (auto simp: recoverable_def)
  have lg4: "lg4 = lg3\<lparr>lg_wal := (lg_wal lg3)\<lparr>ww_dir := drop_below (Suc (segment_id p)) (ww_dir (lg_wal lg3))\<rparr>\<rparr>"
    using assms(18) lt by (simp add: snapshot_truncate_def truncate_before_good assms(17) u64_add_def)
  have log4: "dir_log X (ww_dir (lg_wal lg4)) = filter (\<lambda>q. Suc (segment_id p) \<le> wr_segment_id q) [rB]"
    using B(1) old by (simp add: lg4 drop_log wal_log_def [symmetric] filter_empty_conv not_less_eq_eq)
  have wi4: "wal_inv X st3 (ww_dir (lg_wal lg4))" using drop_inv(1) [OF wi(2), of "Suc (segment_id p)"] by (simp add: lg4 seg(2))
  let ?base = "load_state (collect_state (lg_indexes lg)) empty_indexes"
  have none: "dm_get (ix_runs ?base) (oi_id oiA) = None"
    using load_collected [OF ledger_invD(1) [OF rec(2)]] assms(12) sv(2) by (simp add: data_of_eq fresh_input_def)
  have "\<exists>ix. replay_records X K (Some p) (dir_log X (ww_dir (lg_wal lg4))) ?base = Inr ix \<and> dm_get (ix_runs ix) (oi_id oiA) = None"
    using encode_inverts [OF assms(1) B(2)] none ne by (simp add: log4 insert_run_def dm_simps B(3))
  then obtain ix where ix: "replay_records X K (Some p) (dir_log X (ww_dir (lg_wal lg4))) ?base = Inr ix"
    "dm_get (ix_runs ix) (oi_id oiA) = None" by blast
  have id: "Suc (ws_segment_id st3) < 2 ^ 64" using lt seg(2) by simp
  obtain lg5 D5 where "ledger_open X K snap_good no_faults no_faults cfg dir S1 (ww_dir (lg_wal lg4)) = (Inr lg5, D5)" "lg_indexes lg5 = ix"
    by (rule open_clean [OF wi4 id assms(2) sv(6) ix(1)])
  then show ?thesis using ix(2) A(6) B(7) ne by auto
qed

section \<open>A race\<close>

text \<open>Where one append of a frame leaves the writer.\<close>

definition next_end :: "writer_state \<Rightarrow> nat \<Rightarrow> nat \<times> nat" where
  "next_end st n = (if 0 < ws_segment_len st \<and> ws_max_segment_size st < ws_segment_len st + n
     then (Suc (ws_segment_id st), n) else (ws_segment_id st, ws_segment_len st + n))"

lemma handle_append_end:
  assumes inv: "wal_inv X st D" and sid: "Suc (ws_segment_id st) < 2 ^ 64"
  obtains st' D' pos where "handle_append X io_good st D t p = (Inr pos, st', D')" "segment_id pos = ws_segment_id st'"
    "ws_max_segment_size st' = ws_max_segment_size st"
    "wal_end st' = next_end st (HEADER_LEN + length p)"
proof (cases "0 < ws_segment_len st \<and> ws_max_segment_size st < ws_segment_len st + (HEADER_LEN + length p)")
  case True
  obtain st1 D1 where r: "roll_segment io_good st D = (Inr (), st1, D1)"
    "ws_max_segment_size st1 = ws_max_segment_size st" "ws_segment_id st1 = Suc (ws_segment_id st)" "ws_segment_len st1 = 0"
    by (rule roll_grown [OF inv sid])
  show ?thesis
    by (rule that [of "\<lparr>segment_id = ws_segment_id st1, offset = ws_segment_len st1\<rparr>"
          "st1\<lparr>ws_segment_len := ws_segment_len st1 + length (encode_record X t p []), ws_dirty := True\<rparr>"
          "update_file (ws_file st1) (append_bytes (encode_record X t p [])) D1"])
      (use True r in \<open>simp_all add: handle_append_def Let_def wal_end_def next_end_def length_frame\<close>)
next
  case False
  show ?thesis
    by (rule that [of "\<lparr>segment_id = ws_segment_id st, offset = ws_segment_len st\<rparr>"
          "st\<lparr>ws_segment_len := ws_segment_len st + length (encode_record X t p []), ws_dirty := True\<rparr>"
          "update_file (ws_file st) (append_bytes (encode_record X t p [])) D"])
      (use False in \<open>auto simp: handle_append_def Let_def wal_end_def next_end_def length_frame\<close>)
qed

lemma wal_append_end:
  assumes "ww_task W = WriterRunning st" "wal_inv X st (ww_dir W)" "Suc (ws_segment_id st) < 2 ^ 64" "length p < 2 ^ 32"
  obtains st' pos W' where "wal_append X io_good io_good W t p = (Inr pos, W')" "ww_task W' = WriterRunning st'"
    "segment_id pos = ws_segment_id st'" "ws_max_segment_size st' = ws_max_segment_size st"
    "wal_end st' = next_end st (HEADER_LEN + length p)"
proof -
  obtain st1 D1 pos where h: "handle_append X io_good st (ww_dir W) t p = (Inr pos, st1, D1)" "segment_id pos = ws_segment_id st1"
    "ws_max_segment_size st1 = ws_max_segment_size st"
    "wal_end st1 = next_end st (HEADER_LEN + length p)"
    by (rule handle_append_end [OF assms(2,3)])
  define b where "b = empty_batch\<lparr>b_acks := [(0, pos)]\<rparr>"
  have m: "handle_messages X [(Append t p 0, io_good)] st (ww_dir W) empty_batch = ([], st1, D1, b)"
    using h(1) by (simp add: b_def empty_batch_def)
  have sd: "b_shutdown b = None" by (simp add: b_def empty_batch_def)
  let ?st = "if must_sync st1 b then st1\<lparr>ws_dirty := False\<rparr> else st1"
  let ?D = "if must_sync st1 b then update_file (ws_file st1) sync_all D1 else D1"
  have "writer_batch X [(Append t p 0, io_good)] io_good st (ww_dir W) = (ack_all b, WriterRunning ?st, ?D)"
    unfolding writer_batch_def m using sd by (simp add: flush_good)
  then have w: "wal_append X io_good io_good W t p = (Inr pos, \<lparr>ww_task = WriterRunning ?st, ww_dir = ?D\<rparr>)"
    using assms(1,4) by (simp add: wal_append_def ack_all_def b_def empty_batch_def)
  show ?thesis by (rule that [OF w, of ?st]) (use h(2-4) in \<open>simp_all add: wal_end_def\<close>)
qed

definition race_run :: "uuid \<Rightarrow> run_record" where
  "race_run i = new_run (demo_input 1000 i) demo_scope ''job'' ''agent'' None None None"

text \<open>Two records of one byte fill a segment.\<close>

definition race_config :: ledger_config where
  "race_config = new_ledger_config\<lparr>lc_wal := \<lparr>wc_max_segment_size = 2 * (HEADER_LEN + 1), wc_fsync_strategy = Always\<rparr>\<rparr>"

definition race_record :: "uuid \<Rightarrow> ledger_wal_record" where
  "race_record i = \<lparr>lr_v = RECORD_VERSION, lr_kind = RunCreated (race_run i)\<rparr>"

definition race_codec :: serde where
  "race_codec = crash_codec
     \<lparr>record_to_vec := (\<lambda>r. if r = race_record 1 then Inr ''1'' else if r = race_record 2 then Inr ''2''
        else if r = race_record 3 then Inr ''3'' else Inl ''unsupported''),
      record_from_slice := (\<lambda>bs. Inr (race_record (if bs = ''1'' then 1 else if bs = ''2'' then 2 else 3)))\<rparr>"

lemma race_run_id [simp]: "rr_id (race_run i) = i"
  by (simp add: race_run_def new_run_def)

lemma race_codec_inverts: "serde_inverts race_codec"
  using crash_codec_inverts by (auto simp: serde_inverts_def race_codec_def split: if_splits)

lemma race_record_inj [simp]: "race_record i = race_record j \<longleftrightarrow> i = j"
proof
  assume "race_record i = race_record j"
  then have "rr_id (race_run i) = rr_id (race_run j)" by (simp add: race_record_def)
  then show "i = j" by simp
qed simp

lemma race_encode:
  assumes "i = 1 \<or> i = 2 \<or> i = 3"
  shows "\<exists>c. encode race_codec (RunCreated (race_run i)) = Inr [c]"
  unfolding encode_def race_record_def [symmetric] using assms by (auto simp: race_codec_def)

lemma race_create:
  assumes st: "ww_task (lg_wal lg) = WriterRunning st" "wal_inv demo_ext st (ww_dir (lg_wal lg))" "ws_segment_id st < 2 ^ 32"
    and i: "i = 1 \<or> i = 2 \<or> i = 3"
  obtains lg' st' pos where
    "create_run demo_ext race_codec (demo_input 1000 i) demo_scope demo_run_request lg = (Inr (view_run (race_run i)), lg')"
    "lg_indexes lg' = insert_run (race_run i) (lg_indexes lg)" "ww_task (lg_wal lg') = WriterRunning st'"
    "ws_max_segment_size st' = ws_max_segment_size st" "lg_last_wal_position lg' = Some pos" "segment_id pos = ws_segment_id st'"
    "wal_end st' = next_end st (HEADER_LEN + 1)" "wal_inv demo_ext st' (ww_dir (lg_wal lg'))"
proof -
  obtain c where c: "encode race_codec (RunCreated (race_run i)) = Inr [c]" using race_encode [OF i] by blast
  have id: "Suc (ws_segment_id st) < 2 ^ 64" "length [c] < 2 ^ 32" using st(3) by simp_all
  obtain st' pos W' where w: "wal_append demo_ext io_good io_good (lg_wal lg) Put [c] = (Inr pos, W')" "ww_task W' = WriterRunning st'"
    "segment_id pos = ws_segment_id st'" "ws_max_segment_size st' = ws_max_segment_size st"
    "wal_end st' = next_end st (HEADER_LEN + length [c])"
    by (rule wal_append_end [OF st(1,2) id])
  let ?lg = "lg\<lparr>lg_wal := W', lg_indexes := insert_run (race_run i) (lg_indexes lg), lg_last_wal_position := Some pos\<rparr>"
  have "persist demo_ext race_codec (demo_input 1000 i) (RunCreated (race_run i)) lg = (Inr (), ?lg)"
    using w(1) by (simp add: persist_def c demo_input_def)
  then have "create_run demo_ext race_codec (demo_input 1000 i) demo_scope demo_run_request lg = (Inr (view_run (race_run i)), ?lg)"
    by (simp add: create_run_def demo_run_request_def race_run_def Let_def)
  moreover have "wal_inv demo_ext st' (ww_dir W')"
  proof -
    have id': "ws_segment_id st + 1 < 2 ^ 64" using id(1) by simp
    obtain st'' D'' rc where "wal_append demo_ext io_good io_good (lg_wal lg) Put [c] =
        (Inr (record_position rc), \<lparr>ww_task = WriterRunning st'', ww_dir = D''\<rparr>)"
      "grown demo_ext st (ww_dir (lg_wal lg)) st'' D'' [rc]"
      by (rule wal_append_good [OF st(1,2) id' id(2)])
    then show ?thesis using w(1,2) by (auto simp: grown_def)
  qed
  ultimately show ?thesis by (intro that [of ?lg st' pos]) (use w(2-5) in simp_all)
qed

lemma race_fresh: "lg_indexes lg = insert_run (race_run 2) (insert_run (race_run 1) empty_indexes) \<Longrightarrow> fresh_input (demo_input 1000 3) lg"
  by (simp add: fresh_input_def insert_run_def empty_indexes_def run_events_def i64_max_def dm_simps)

theorem truncation_race_loses_run_witness:
  "\<exists>lg S p mf lg1 S1 lg2 lg3 lg4 lg5 D5.
    snapshot_save demo_ext race_codec snap_good (demo_input 2000 9) lg S = (Inr (Some p, mf), lg1, S1) \<and>
    create_run demo_ext race_codec (demo_input 1000 2) demo_scope demo_run_request lg1 = (Inr (view_run (race_run 2)), lg2) \<and>
    create_run demo_ext race_codec (demo_input 1000 3) demo_scope demo_run_request lg2 = (Inr (view_run (race_run 3)), lg3) \<and>
    snd (snapshot_truncate no_faults (Some p) lg3) = lg4 \<and>
    ledger_open demo_ext race_codec snap_good no_faults no_faults race_config ''snap'' S1 (ww_dir (lg_wal lg4)) = (Inr lg5, D5) \<and>
    dm_get (ix_runs (lg_indexes lg3)) 2 \<noteq> None \<and> dm_get (ix_runs (lg_indexes lg5)) 2 = None"
proof -
  have cfg: "HEADER_LEN < wc_max_segment_size (lc_wal race_config)" "wc_fsync_strategy (lc_wal race_config) = Always"
    and mx: "wc_max_segment_size (lc_wal race_config) = 2 * (HEADER_LEN + 1)" by (simp_all add: race_config_def)
  obtain lg0 D0 where o: "ledger_open demo_ext race_codec snap_good no_faults no_faults race_config ''snap'' [] [] = (Inr lg0, D0)"
    by (rule open_empty_ok [OF cfg(1)])
  have n: "1000 + 1 < (2 :: nat) ^ 64" by simp
  note init = open_empty [OF cfg o n]
  obtain st0 where st0: "ww_task (lg_wal lg0) = WriterRunning st0" "wal_end st0 = (1, 0)" "ws_max_segment_size st0 = 2 * (HEADER_LEN + 1)"
    using init(4) mx by auto
  have wi0: "wal_inv demo_ext st0 (ww_dir (lg_wal lg0))" using init(1) st0(1) by (auto simp: recoverable_def)
  have b0: "ws_segment_id st0 < 2 ^ 32" "(1 :: uuid) = 1 \<or> (1 :: uuid) = 2 \<or> (1 :: uuid) = 3" using st0(2) by (simp_all add: wal_end_def)
  obtain lg st p where c1: "create_run demo_ext race_codec (demo_input 1000 1) demo_scope demo_run_request lg0 = (Inr (view_run (race_run 1)), lg)"
    "lg_indexes lg = insert_run (race_run 1) (lg_indexes lg0)" "ww_task (lg_wal lg) = WriterRunning st"
    "ws_max_segment_size st = ws_max_segment_size st0" "lg_last_wal_position lg = Some p" "segment_id p = ws_segment_id st"
    "wal_end st = next_end st0 (HEADER_LEN + 1)" "wal_inv demo_ext st (ww_dir (lg_wal lg))"
    by (rule race_create [OF st0(1) wi0 b0])
  have e1: "wal_end st = (1, HEADER_LEN + 1)" using c1(7) st0(2) by (simp add: next_end_def wal_end_def)
  obtain st1 D1 where f: "wal_flush demo_ext io_good (lg_wal lg) = (Inr (), \<lparr>ww_task = WriterRunning st1, ww_dir = D1\<rparr>)"
    "grown demo_ext st (ww_dir (lg_wal lg)) st1 D1 []" "wal_end st1 = wal_end st"
    by (rule wal_flush_good [OF c1(3,8)])
  have run1: "race_run 1 = crash_run" by (simp add: race_run_def crash_run_def)
  obtain S1 where sv: "save_snapshot demo_ext race_codec snap_good (collect_state (lg_indexes lg)) (Some p) 2000 [] = (Inr (crash_manifest p), S1)"
    by (simp add: save_snapshot_def write_manifest_def snap_good_def Let_def c1(2) init(2) run1 race_codec_def crash_codec_def crash_manifest_def)
  let ?lg1 = "lg\<lparr>lg_wal := \<lparr>ww_task = WriterRunning st1, ww_dir = D1\<rparr>\<rparr>"
  have ss: "snapshot_save demo_ext race_codec snap_good (demo_input 2000 9) lg [] = (Inr (Some p, crash_manifest p), ?lg1, S1)"
    using f(1) sv c1(5) by (simp add: snapshot_save_def demo_input_def Let_def)
  have t1: "ww_task (lg_wal ?lg1) = WriterRunning st1" "wal_inv demo_ext st1 (ww_dir (lg_wal ?lg1))" "ws_segment_id st1 < 2 ^ 32"
    "ws_max_segment_size st1 = 2 * (HEADER_LEN + 1)"
    using f(2,3) e1 c1(4) st0(3) by (simp_all add: grown_def wal_end_def)
  have i2: "(2 :: uuid) = 1 \<or> (2 :: uuid) = 2 \<or> (2 :: uuid) = 3" and i3: "(3 :: uuid) = 1 \<or> (3 :: uuid) = 2 \<or> (3 :: uuid) = 3" by simp_all
  obtain lg2 st2 where c2: "create_run demo_ext race_codec (demo_input 1000 2) demo_scope demo_run_request ?lg1 = (Inr (view_run (race_run 2)), lg2)"
    "lg_indexes lg2 = insert_run (race_run 2) (lg_indexes ?lg1)" "ww_task (lg_wal lg2) = WriterRunning st2"
    "ws_max_segment_size st2 = ws_max_segment_size st1"
    "wal_end st2 = next_end st1 (HEADER_LEN + 1)" "wal_inv demo_ext st2 (ww_dir (lg_wal lg2))"
    by (rule race_create [OF t1(1-3) i2])
  have e2: "wal_end st2 = (1, 2 * (HEADER_LEN + 1))" using c2(5) f(3) e1 t1(4) by (simp add: next_end_def wal_end_def)
  have b2: "ws_segment_id st2 < 2 ^ 32" using e2 by (simp add: wal_end_def)
  obtain lg3 st3 where c3: "create_run demo_ext race_codec (demo_input 1000 3) demo_scope demo_run_request lg2 = (Inr (view_run (race_run 3)), lg3)"
    "ww_task (lg_wal lg3) = WriterRunning st3" "wal_end st3 = next_end st2 (HEADER_LEN + 1)" "wal_inv demo_ext st3 (ww_dir (lg_wal lg3))"
    by (rule race_create [OF c2(3,6) b2 i3])
  have e3: "wal_end st3 = (2, HEADER_LEN + 1)" using c3(3) e2 c2(4) t1(4) by (simp add: next_end_def wal_end_def)
  have act: "active_segment_id (lg_wal lg2) = segment_id p" "active_segment_id (lg_wal lg3) = Suc (segment_id p)"
    using c2(3,6) c3(2,4) e1 e2 e3 c1(6) by (simp_all add: active_segment_id_def wal_inv_def wal_end_def)
  let ?acts = "[Request (demo_input 1000 1) (OpCreateRun demo_scope demo_run_request)]"
  have acts: "actions_ok demo_ext race_codec ?acts lg0 []" "run_actions demo_ext race_codec ?acts lg0 [] = (lg, [])"
    using c1(1) fresh_empty [OF init(2)] by (simp_all add: drop_value_def)
  have len: "length ?acts + 5 < 2 ^ 64" by simp
  have fr: "fresh_input (demo_input 1000 2) ?lg1" "fresh_input (demo_input 1000 3) lg2"
    using fresh_one_run [of ?lg1 "race_run 1"] race_fresh [of lg2] c1(2) c2(2) init(2) by simp_all
  obtain r lg4 where t: "snapshot_truncate no_faults (Some p) lg3 = (r, lg4)" by fastforce
  from truncation_race_loses_run [OF race_codec_inverts cfg o acts len demo_healthy demo_healthy demo_healthy ss fr(1) c2(1) fr(2) c3(1) act t]
  obtain lg5 D5 where "ledger_open demo_ext race_codec snap_good no_faults no_faults race_config ''snap'' S1 (ww_dir (lg_wal lg4)) = (Inr lg5, D5)"
    "dm_get (ix_runs (lg_indexes lg3)) 2 \<noteq> None" "dm_get (ix_runs (lg_indexes lg5)) 2 = None"
    unfolding demo_input_sel by blast
  moreover have "snd (snapshot_truncate no_faults (Some p) lg3) = lg4" using t by simp
  ultimately show ?thesis using ss c2(1) c3(1) by blast
qed

end
