(* ===== verification/Rust_Text.thy ===== *)
theory Rust_Text
  imports Rust_Std "HOL-Library.Log_Nat"
begin

text \<open>
  Text and floating point of the Rust standard library, as the key-value server uses them:
  \<open>str::from_utf8\<close>, \<open>str::parse::<f64>\<close> and the \<open>Display\<close> of \<open>f64\<close>.

  An \<open>f64\<close> is its 64 bits.  Every finite \<open>f64\<close> is a whole number of units of \<open>2 ^ -1074\<close>, so
  rounding is exact arithmetic on naturals: \<open>units k\<close> is the value of the magnitude bits \<open>k\<close>, and
  \<open>nearest n d\<close> the bits of the magnitude nearest to \<open>n / d\<close>, ties to even.
\<close>

section \<open>UTF-8\<close>

definition byte_in :: "nat \<Rightarrow> nat \<Rightarrow> char \<Rightarrow> bool" where
  "byte_in lo hi c \<longleftrightarrow> lo \<le> (of_char c :: nat) \<and> of_char c \<le> hi"

definition utf8_tail :: "char \<Rightarrow> bool" where
  "utf8_tail = byte_in 0x80 0xBF"

fun utf8_valid :: "bytes \<Rightarrow> bool" where
  "utf8_valid [] = True"
| "utf8_valid (a # s) =
     (if byte_in 0 0x7F a then utf8_valid s
      else case s of [] \<Rightarrow> False
      | b # s \<Rightarrow>
        if byte_in 0xC2 0xDF a then utf8_tail b \<and> utf8_valid s
        else case s of [] \<Rightarrow> False
        | c # s \<Rightarrow>
          if byte_in 0xE0 0xEF a then
            byte_in (if a = CHR 0xE0 then 0xA0 else 0x80) (if a = CHR 0xED then 0x9F else 0xBF) b \<and>
            utf8_tail c \<and> utf8_valid s
          else case s of [] \<Rightarrow> False
          | d # s \<Rightarrow>
            byte_in 0xF0 0xF4 a \<and>
            byte_in (if a = CHR 0xF0 then 0x90 else 0x80) (if a = CHR 0xF4 then 0x8F else 0xBF) b \<and>
            utf8_tail c \<and> utf8_tail d \<and> utf8_valid s)"

lemma utf8_ascii: "\<forall>c \<in> set s. (of_char c :: nat) < 128 \<Longrightarrow> utf8_valid s"
  by (induction s) (auto simp: byte_in_def)

lemma utf8_number [simp]: "utf8_valid (int_to_string i)" "utf8_valid (nat_to_string n)"
  using int_to_string_char_code [of _ i] nat_to_radix_char_code [of 10 _ n]
  by (force intro!: utf8_ascii simp: nat_to_string_def)+

section \<open>The bits of an \<open>f64\<close>\<close>

type_synonym f64 = "64 word"

definition unit_den :: nat where "unit_den = 2 ^ 1074"

definition magnitude :: "f64 \<Rightarrow> nat" where
  "magnitude w = unat w mod 2 ^ 63"

definition is_sign_negative :: "f64 \<Rightarrow> bool" where
  "is_sign_negative w \<longleftrightarrow> 2 ^ 63 \<le> unat w"

definition of_magnitude :: "bool \<Rightarrow> nat \<Rightarrow> f64" where
  "of_magnitude neg k = of_nat (k + (if neg then 2 ^ 63 else 0))"

definition INFINITE :: nat where "INFINITE = 2047 * 2 ^ 52"

definition NAN :: nat where "NAN = INFINITE + 2 ^ 51"

definition is_nan :: "f64 \<Rightarrow> bool" where "is_nan w \<longleftrightarrow> INFINITE < magnitude w"

definition is_infinite :: "f64 \<Rightarrow> bool" where "is_infinite w \<longleftrightarrow> magnitude w = INFINITE"

definition is_finite :: "f64 \<Rightarrow> bool" where "is_finite w \<longleftrightarrow> magnitude w < INFINITE"

text \<open>The value of a finite magnitude in units of \<open>1 / unit_den\<close>.\<close>

definition units :: "nat \<Rightarrow> nat" where
  "units k = (if k < 2 ^ 52 then k else (2 ^ 52 + k mod 2 ^ 52) * 2 ^ (k div 2 ^ 52 - 1))"

definition round_half_even :: "nat \<Rightarrow> nat \<Rightarrow> nat" where
  "round_half_even n d =
     (let q = n div d; r = n mod d
      in if 2 * r < d then q else if d < 2 * r then q + 1 else if even q then q else q + 1)"

definition nearest :: "nat \<Rightarrow> nat \<Rightarrow> nat" where
  "nearest n d =
     (let u = n * unit_den; s = floorlog 2 (u div d) - 53
      in min INFINITE (round_half_even u (d * 2 ^ s) + s * 2 ^ 52))"

lemma unat_of_magnitude: "k < 2 ^ 63 \<Longrightarrow> unat (of_magnitude neg k) = k + (if neg then 2 ^ 63 else 0)"
  unfolding of_magnitude_def by (subst unat_of_nat) (simp add: take_bit_eq_mod)

lemma unit_den_pos [simp]: "0 < unit_den"
  by (simp add: unit_den_def)

lemma magnitude_of_magnitude [simp]: "k < 2 ^ 63 \<Longrightarrow> magnitude (of_magnitude neg k) = k"
  by (simp add: magnitude_def unat_of_magnitude)

lemma sign_of_magnitude [simp]: "k < 2 ^ 63 \<Longrightarrow> is_sign_negative (of_magnitude neg k) = neg"
  by (simp add: is_sign_negative_def unat_of_magnitude)

lemma of_magnitude_split [simp]: "of_magnitude (is_sign_negative w) (magnitude w) = w"
proof -
  have "unat w < 2 ^ 64" using unsigned_less [of w] by simp
  then have "unat w mod 2 ^ 63 + (if 2 ^ 63 \<le> unat w then 2 ^ 63 else 0) = unat w"
    by (cases "2 ^ 63 \<le> unat w") (simp_all add: le_mod_geq)
  then show ?thesis unfolding of_magnitude_def magnitude_def is_sign_negative_def by simp
qed

lemma INFINITE_less: "INFINITE < 2 ^ 63" "NAN < 2 ^ 63" "INFINITE < NAN"
  by (simp_all add: INFINITE_def NAN_def)

lemma floorlog_unique: "0 < n \<Longrightarrow> 2 ^ n \<le> 2 * q \<Longrightarrow> q < 2 ^ n \<Longrightarrow> floorlog 2 q = n"
proof -
  assume a: "0 < n" "2 ^ n \<le> 2 * q" "q < 2 ^ n"
  then have "0 < q" by (metis gr0I mult_0_right not_le zero_less_numeral zero_less_power)
  then have b: "2 ^ (floorlog 2 q - 1) \<le> q \<and> q < 2 ^ floorlog 2 q" using floorlog_bounds [where b = 2 and x = q] by simp
  have "0 < floorlog 2 q" using b \<open>0 < q\<close> by (cases "floorlog 2 q") auto
  moreover have "(2 :: nat) ^ (n - 1) < 2 ^ floorlog 2 q" "(2 :: nat) ^ (floorlog 2 q - 1) < 2 ^ n"
    using a b by (auto simp: power_eq_if)
  ultimately show ?thesis using a(1) by (simp add: power_strict_increasing_iff)
qed

lemma floorlog_units: "floorlog 2 (units k) - 53 = k div 2 ^ 52 - 1"
proof (cases "k < 2 ^ 52")
  case True
  then have "floorlog 2 k \<le> 53" by (intro floorlog_leI) auto
  with True show ?thesis by (simp add: units_def)
next
  case False
  define e where "e = k div 2 ^ 52 - 1"
  have u: "units k = (2 ^ 52 + k mod 2 ^ 52) * 2 ^ e" using False by (simp add: units_def e_def)
  have m: "k mod 2 ^ 52 < (2 ^ 52 :: nat)" by simp
  have "floorlog 2 (units k) = 53 + e"
  proof (rule floorlog_unique)
    show "2 ^ (53 + e) \<le> 2 * units k" by (simp add: u power_add)
    have "units k < (2 ^ 53) * 2 ^ e" unfolding u using m by simp
    then show "units k < 2 ^ (53 + e)" by (simp add: power_add)
  qed simp
  then show ?thesis by (simp add: e_def)
qed

text \<open>A value that is an \<open>f64\<close> rounds to itself.\<close>

lemma nearest_exact:
  assumes "n * unit_den = units k * d" "0 < d" "k < INFINITE"
  shows "nearest n d = k"
proof -
  define e where "e = k div 2 ^ 52 - 1"
  have s: "floorlog 2 (n * unit_den div d) - 53 = e"
    using assms(1,2) floorlog_units [of k] by (simp add: e_def)
  have v: "\<exists>m. units k = m * 2 ^ e \<and> m + e * 2 ^ 52 = k"
  proof (cases "k < 2 ^ 52")
    case False
    then have "Suc (k div 2 ^ 52 - 1) = k div 2 ^ 52" by (simp add: div_greater_zero_iff)
    then have "2 ^ 52 + k mod 2 ^ 52 + e * 2 ^ 52 = k"
      unfolding e_def by (metis add.commute add.left_commute div_mult_mod_eq mult_Suc)
    with False show ?thesis by (auto simp: units_def e_def)
  qed (simp add: units_def e_def)
  then obtain m where m: "units k = m * 2 ^ e" "m + e * 2 ^ 52 = k" by auto
  have "round_half_even (n * unit_den) (d * 2 ^ e) = m"
    using assms(2) unfolding assms(1) m(1) by (simp add: round_half_even_def mult.assoc mult.commute [of "2 ^ e" d])
  then show ?thesis using m(2) assms(3) by (simp add: nearest_def s)
qed

section \<open>Reading\<close>

text \<open>\<open>dec_nearest c p\<close> is the magnitude nearest to \<open>c * 10 ^ p\<close>.\<close>

definition dec_nearest :: "nat \<Rightarrow> int \<Rightarrow> nat" where
  "dec_nearest c p = (if 0 \<le> p then nearest (c * 10 ^ nat p) 1 else nearest c (10 ^ nat (- p)))"

definition to_ascii_lowercase :: "char \<Rightarrow> char" where
  "to_ascii_lowercase c = (if byte_in 65 90 c then char_of (of_char c + 32 :: nat) else c)"

definition split_sign :: "string \<Rightarrow> bool \<times> string" where
  "split_sign s = (case s of [] \<Rightarrow> (False, [])
     | c # cs \<Rightarrow> if c = CHR ''-'' then (True, cs) else if c = CHR ''+'' then (False, cs) else (False, s))"

definition parse_exponent :: "string \<Rightarrow> int option" where
  "parse_exponent s = (case s of [] \<Rightarrow> Some 0
     | c # cs \<Rightarrow>
       let (neg, ds) = split_sign cs in
       if c \<noteq> CHR ''e'' \<and> c \<noteq> CHR ''E'' \<or> ds = [] then None
       else map_option (\<lambda>n. if neg then - int n else int n) (digits_value 10 ds 0))"

definition parse_decimal :: "string \<Rightarrow> nat option" where
  "parse_decimal body =
     (let ints = takeWhile is_ascii_digit body; rest = dropWhile is_ascii_digit body;
          (frac, rest) = (case rest of [] \<Rightarrow> ([], [])
            | c # cs \<Rightarrow> if c = CHR ''.'' then (takeWhile is_ascii_digit cs, dropWhile is_ascii_digit cs) else ([], rest))
      in if ints = [] \<and> frac = [] then None
         else case (digits_value 10 (ints @ frac) 0, parse_exponent rest) of
             (Some c, Some x) \<Rightarrow> Some (dec_nearest c (x - int (length frac)))
           | _ \<Rightarrow> None)"

definition parse_f64 :: "string \<Rightarrow> f64 option" where
  "parse_f64 s =
     (let (neg, body) = split_sign s; low = map to_ascii_lowercase body
      in if low = ''inf'' \<or> low = ''infinity'' then Some (of_magnitude neg INFINITE)
         else if low = ''nan'' then Some (of_magnitude neg NAN)
         else map_option (of_magnitude neg) (parse_decimal body))"

section \<open>Rendering\<close>

text \<open>
  \<open>Display\<close> writes the shortest decimal that reads back as the same number, the closest such one, in
  positional notation.  \<open>digits_at k n\<close> is the multiple of \<open>10 ^ (n - 1074)\<close> that reads back as \<open>k\<close>;
  at \<open>n = 0\<close> the decimal is exact.
\<close>

definition dec_shift :: nat where "dec_shift = 5 ^ 1074"

definition digits_at :: "nat \<Rightarrow> nat \<Rightarrow> nat option" where
  "digits_at k n =
     (let v = units k * dec_shift; d = 10 ^ n; lo = v div d; p = int n - 1074;
          down = (dec_nearest lo p = k); up = (dec_nearest (lo + 1) p = k)
      in if down \<and> (\<not> up \<or> 2 * (v mod d) < d) then Some lo else if up then Some (lo + 1) else None)"

fun shortest :: "nat \<Rightarrow> nat \<Rightarrow> nat \<times> int" where
  "shortest k 0 = (units k * dec_shift, - 1074)"
| "shortest k (Suc n) = (case digits_at k (Suc n) of Some c \<Rightarrow> (c, int (Suc n) - 1074) | None \<Rightarrow> shortest k n)"

definition positional :: "nat \<Rightarrow> int \<Rightarrow> string" where
  "positional c p =
     (if 0 \<le> p then nat_to_string c @ replicate (nat p) (CHR ''0'')
      else let k = nat (- p); s = pad_zero (k + 1) (nat_to_string c)
           in take (length s - k) s @ ''.'' @ drop (length s - k) s)"

definition f64_to_string :: "f64 \<Rightarrow> string" where
  "f64_to_string w =
     (if is_nan w then ''NaN''
      else (if is_sign_negative w then ''-'' else '''') @
        (if is_infinite w then ''inf''
         else if magnitude w = 0 then ''0''
         else case shortest (magnitude w) 1383 of (c, p) \<Rightarrow> positional c p))"

lemma unit_den_shift: "dec_shift * unit_den = 10 ^ 1074"
proof -
  have "dec_shift * unit_den = (5 * 2) ^ 1074" unfolding dec_shift_def unit_den_def by (rule power_mult_distrib [symmetric])
  also have "(5 * 2 :: nat) = 10" by simp
  finally show ?thesis .
qed

lemma shortest_exact: "k < INFINITE \<Longrightarrow> dec_nearest (units k * dec_shift) (- 1074) = k"
proof -
  assume k: "k < INFINITE"
  have "units k * dec_shift * unit_den = units k * 10 ^ 1074" unfolding mult.assoc unit_den_shift ..
  then have "nearest (units k * dec_shift) (10 ^ 1074) = k" by (rule nearest_exact [OF _ zero_less_power k]) simp
  moreover have "nat (- (- 1074)) = 1074" "\<not> (0 :: int) \<le> - 1074" by simp_all
  ultimately show ?thesis unfolding dec_nearest_def by presburger
qed

lemma shortest_reads_back: "k < INFINITE \<Longrightarrow> shortest k n = (c, p) \<Longrightarrow> dec_nearest c p = k"
proof (induction n)
  case 0
  then show ?case using shortest_exact by auto
next
  case (Suc n)
  then show ?case
    by (auto simp: digits_at_def Let_def split: option.splits if_splits)
qed

text \<open>Decimal digit strings.\<close>

lemma ascii_digit_of_number [simp]: "list_all is_ascii_digit (nat_to_string n)"
  using nat_to_radix_chars [of 10 _ n] by (force simp: list_all_iff nat_to_string_def is_ascii_digit_def of_char_digit_char)

lemma number_nonempty [simp]: "nat_to_string n \<noteq> []"
  by (simp add: nat_to_string_def)

lemma ascii_digit_pad [simp]: "list_all is_ascii_digit (pad_zero w (nat_to_string n))"
  using pad_zero_digits [of _ w n] by (auto simp: list_all_iff is_ascii_digit_def)

lemma digits_value_scaled: "digits_value 10 (replicate k (CHR ''0'')) a = Some (a * 10 ^ k)"
  by (induction k arbitrary: a) (simp_all add: to_digit_def)

lemma digit_head:
  assumes "s \<noteq> []" "list_all is_ascii_digit s"
  shows "split_sign (s @ t) = (False, s @ t)"
    "\<not> is_ascii_digit c \<Longrightarrow> map to_ascii_lowercase (s @ t) \<noteq> c # u"
  using assms by (cases s; auto simp: split_sign_def is_ascii_digit_def to_ascii_lowercase_def byte_in_def)+

lemma parse_decimal_digits:
  assumes "s \<noteq> []" "list_all is_ascii_digit s" "digits_value 10 s 0 = Some c"
  shows "parse_decimal s = Some (dec_nearest c 0)"
proof -
  have tw: "takeWhile is_ascii_digit s = s" "dropWhile is_ascii_digit s = []"
    using assms(2) by (auto simp: list_all_iff takeWhile_eq_all_conv)
  show ?thesis using assms(1,3) by (simp add: tw parse_decimal_def parse_exponent_def)
qed

lemma parse_decimal_point:
  assumes "s \<noteq> []" "list_all is_ascii_digit s" "list_all is_ascii_digit t" "digits_value 10 (s @ t) 0 = Some c"
  shows "parse_decimal (s @ ''.'' @ t) = Some (dec_nearest c (- int (length t)))"
proof -
  have tw: "takeWhile is_ascii_digit (s @ CHR ''.'' # t) = s" "dropWhile is_ascii_digit (s @ CHR ''.'' # t) = CHR ''.'' # t"
    "takeWhile is_ascii_digit t = t" "dropWhile is_ascii_digit t = []"
    using assms(2,3) by (auto simp: list_all_iff is_ascii_digit_def takeWhile_append dropWhile_append takeWhile_eq_all_conv)
  show ?thesis using assms(1,4) by (simp add: tw parse_decimal_def parse_exponent_def)
qed

lemma parse_positional: "parse_decimal (positional c p) = Some (dec_nearest c p)"
proof (cases "0 \<le> p")
  case True
  have "is_ascii_digit (CHR ''0'')" by (simp add: is_ascii_digit_def)
  then have "parse_decimal (nat_to_string c @ replicate (nat p) (CHR ''0'')) = Some (dec_nearest (c * 10 ^ nat p) 0)"
    using digits_value_radix [of 10 c] ascii_digit_of_number [of c]
    by (intro parse_decimal_digits) (auto simp: digits_value_append digits_value_scaled nat_to_string_def list_all_iff)
  with True show ?thesis by (simp add: positional_def dec_nearest_def)
next
  case False
  define k s where "k = nat (- p)" and "s = pad_zero (k + 1) (nat_to_string c)"
  have len: "k < length s" by (simp add: s_def pad_zero_def)
  have d: "list_all is_ascii_digit s" "digits_value 10 s 0 = Some c" by (simp_all only: s_def ascii_digit_pad pad_zero_value)
  have "parse_decimal (take (length s - k) s @ ''.'' @ drop (length s - k) s) =
    Some (dec_nearest c (- int (length (drop (length s - k) s))))"
    using len d set_take_subset [of "length s - k" s] set_drop_subset [of "length s - k" s]
    by (intro parse_decimal_point) (auto simp: list_all_iff)
  then show ?thesis using False len unfolding positional_def k_def [symmetric] s_def [symmetric] Let_def
    by (simp add: k_def)
qed

end
