(* ===== verification/Resp_Value.thy ===== *)
theory Resp_Value
  imports Rust_Text
begin

text \<open>
  Protocol values of the key-value server and their wire encoding (\<open>parser/value.rs\<close>,
  \<open>cld_srv/protocol.rs\<close> of \<open>calod-resp\<close>).  \<open>encode_into\<close> writes RESP2 or RESP3 bytes; \<open>wire\<close> is the
  value a client of that protocol version gets to see.
\<close>

section \<open>Values\<close>

datatype protocol_version = Resp2 | Resp3

fun as_u8 :: "protocol_version \<Rightarrow> nat" where
  "as_u8 Resp2 = 2"
| "as_u8 Resp3 = 3"

definition proto_from_u8 :: "nat \<Rightarrow> protocol_version option" where
  "proto_from_u8 v = (if v = 2 then Some Resp2 else if v = 3 then Some Resp3 else None)"

definition is_resp3 :: "protocol_version \<Rightarrow> bool" where
  "is_resp3 p \<longleftrightarrow> p = Resp3"

datatype resp_value =
    SimpleString string
  | Error string
  | Integer int
  | BulkString bytes
  | Array "resp_value list"
  | NilValue
  | NilArray
  | Boolean bool
  | Double f64
  | BigNumber string
  | VerbatimString bytes bytes
  | MapValue "(resp_value \<times> resp_value) list"
  | SetValue "resp_value list"
  | Push "resp_value list"

fun is_nil :: "resp_value \<Rightarrow> bool" where
  "is_nil NilValue = True"
| "is_nil _ = False"

fun as_string :: "resp_value \<Rightarrow> string option" where
  "as_string (SimpleString s) = Some s"
| "as_string (BulkString b) = (if utf8_valid b then Some b else None)"
| "as_string _ = None"

fun as_bytes :: "resp_value \<Rightarrow> bytes option" where
  "as_bytes (BulkString b) = Some b"
| "as_bytes _ = None"

fun as_i64 :: "resp_value \<Rightarrow> int option" where
  "as_i64 (Integer i) = Some i"
| "as_i64 _ = None"

fun as_array :: "resp_value \<Rightarrow> resp_value list option" where
  "as_array (Array a) = Some a"
| "as_array _ = None"

section \<open>Encoding\<close>

definition CRLF :: bytes where "CRLF = [CHR 0x0D, CHR 0x0A]"

definition encode_bulk :: "bytes \<Rightarrow> bytes \<Rightarrow> bytes" where
  "encode_bulk bs out =
     (let out = out @ ''$'';
          out = out @ nat_to_string (length bs);
          out = out @ CRLF;
          out = out @ bs
      in out @ CRLF)"

definition encode_aggregate_header :: "char \<Rightarrow> nat \<Rightarrow> bytes \<Rightarrow> bytes" where
  "encode_aggregate_header marker count out =
     (let out = out @ [marker];
          out = out @ nat_to_string count
      in out @ CRLF)"

text \<open>\<open>d == d.trunc()\<close>, \<open>d.abs() < 1e17\<close> and \<open>d as i64\<close>.\<close>

definition f64_whole :: "f64 \<Rightarrow> bool" where
  "f64_whole d \<longleftrightarrow> units (magnitude d) mod unit_den = 0"

definition f64_abs_below :: "nat \<Rightarrow> f64 \<Rightarrow> bool" where
  "f64_abs_below n d \<longleftrightarrow> units (magnitude d) < n * unit_den"

definition f64_as_i64 :: "f64 \<Rightarrow> int" where
  "f64_as_i64 d =
     (if is_nan d then 0
      else let n = (if is_infinite d then i64_max + 1 else int (units (magnitude d) div unit_den))
           in if is_sign_negative d then max i64_min (- n) else min i64_max n)"

definition format_double :: "f64 \<Rightarrow> string" where
  "format_double d =
     (if is_nan d then ''nan''
      else if is_infinite d then (if \<not> is_sign_negative d then ''inf'' else ''-inf'')
      else if f64_whole d \<and> f64_abs_below (10 ^ 17) d then int_to_string (f64_as_i64 d)
      else f64_to_string d)"

fun encode_into :: "resp_value \<Rightarrow> bytes \<Rightarrow> protocol_version \<Rightarrow> bytes" where
  "encode_into (SimpleString s) out proto = out @ ''+'' @ s @ CRLF"
| "encode_into (Error s) out proto = out @ ''-'' @ s @ CRLF"
| "encode_into (Integer i) out proto = out @ '':'' @ int_to_string i @ CRLF"
| "encode_into (BulkString b) out proto = encode_bulk b out"
| "encode_into (Array items) out proto =
     fold (\<lambda>item out. encode_into item out proto) items (encode_aggregate_header (CHR ''*'') (length items) out)"
| "encode_into NilValue out proto = out @ (if is_resp3 proto then ''_'' else ''$-1'') @ CRLF"
| "encode_into NilArray out proto = out @ (if is_resp3 proto then ''_'' else ''*-1'') @ CRLF"
| "encode_into (Boolean b) out proto =
     out @ (if is_resp3 proto then (if b then ''#t'' else ''#f'') else (if b then '':1'' else '':0'')) @ CRLF"
| "encode_into (Double d) out proto =
     (let s = format_double d in if is_resp3 proto then out @ '','' @ s @ CRLF else encode_bulk s out)"
| "encode_into (BigNumber s) out proto =
     (if is_resp3 proto then out @ ''('' @ s @ CRLF else encode_bulk s out)"
| "encode_into (VerbatimString format data) out proto =
     (if is_resp3 proto then
        let total = 4 + length data
        in out @ ''='' @ nat_to_string total @ CRLF @ format @ '':'' @ data @ CRLF
      else encode_bulk data out)"
| "encode_into (MapValue pairs) out proto =
     fold (\<lambda>(k, v) out. encode_into v (encode_into k out proto) proto) pairs
       (if is_resp3 proto then encode_aggregate_header (CHR ''%'') (length pairs) out
        else encode_aggregate_header (CHR ''*'') (length pairs * 2) out)"
| "encode_into (SetValue items) out proto =
     fold (\<lambda>item out. encode_into item out proto) items
       (encode_aggregate_header (if is_resp3 proto then CHR ''~'' else CHR ''*'') (length items) out)"
| "encode_into (Push items) out proto =
     fold (\<lambda>item out. encode_into item out proto) items
       (encode_aggregate_header (if is_resp3 proto then CHR ''>'' else CHR ''*'') (length items) out)"

definition encode_value :: "resp_value \<Rightarrow> protocol_version \<Rightarrow> bytes" where
  "encode_value v proto = encode_into v [] proto"

definition serialize :: "resp_value \<Rightarrow> bytes" where
  "serialize v = encode_value v Resp2"

section \<open>The encoding as frames\<close>

lemma encode_bulk_append: "encode_bulk bs out = out @ encode_bulk bs []"
  by (simp add: encode_bulk_def)

lemma encode_header_append: "encode_aggregate_header m n out = out @ encode_aggregate_header m n []"
  by (simp add: encode_aggregate_header_def)

lemma fold_append_concat:
  assumes "\<And>x out. x \<in> set xs \<Longrightarrow> f x out = out @ g x"
  shows "fold f xs out = out @ concat (map g xs)"
  using assms by (induction xs arbitrary: out) auto

lemma encode_into_append: "encode_into v out proto = out @ encode_value v proto"
  unfolding encode_value_def
proof (induction v arbitrary: out)
  case (BulkString b)
  show ?case using encode_bulk_append [of b out] by simp
next
  case (Array items)
  then have "fold (\<lambda>item out. encode_into item out proto) items acc = acc @ concat (map (\<lambda>v. encode_into v [] proto) items)" for acc
    by (intro fold_append_concat) blast
  then show ?case using encode_header_append [of _ "length items" out] by simp
next
  case (SetValue items)
  then have "fold (\<lambda>item out. encode_into item out proto) items acc = acc @ concat (map (\<lambda>v. encode_into v [] proto) items)" for acc
    by (intro fold_append_concat) blast
  then show ?case using encode_header_append [of _ "length items" out] by simp
next
  case (Push items)
  then have "fold (\<lambda>item out. encode_into item out proto) items acc = acc @ concat (map (\<lambda>v. encode_into v [] proto) items)" for acc
    by (intro fold_append_concat) blast
  then show ?case using encode_header_append [of _ "length items" out] by simp
next
  case (MapValue pairs)
  have "fold (\<lambda>(k, v) out. encode_into v (encode_into k out proto) proto) pairs acc =
      acc @ concat (map (\<lambda>(k, v). encode_into k [] proto @ encode_into v [] proto) pairs)" for acc
  proof (rule fold_append_concat, clarify)
    fix k v out
    assume "(k, v) \<in> set pairs"
    then show "encode_into v (encode_into k out proto) proto = out @ encode_into k [] proto @ encode_into v [] proto"
      using MapValue [of "(k, v)" k "out"] MapValue [of "(k, v)" v "encode_into k out proto"] by simp
  qed
  then show ?case using encode_header_append [of _ "length pairs" out] encode_header_append [of _ "length pairs * 2" out] by simp
next
  case (Double d)
  show ?case using encode_bulk_append [of _ out] by (simp add: Let_def)
next
  case (BigNumber s)
  show ?case using encode_bulk_append [of _ out] by simp
next
  case (VerbatimString f d)
  show ?case using encode_bulk_append [of _ out] by (simp add: Let_def)
qed simp_all

definition aggregate :: "char \<Rightarrow> bytes list \<Rightarrow> bytes" where
  "aggregate marker frames = marker # nat_to_string (length frames) @ CRLF @ concat frames"

definition bulk :: "char \<Rightarrow> bytes \<Rightarrow> bytes" where
  "bulk marker bs = marker # nat_to_string (length bs) @ CRLF @ bs @ CRLF"

definition pair_frames :: "protocol_version \<Rightarrow> (resp_value \<times> resp_value) list \<Rightarrow> bytes list" where
  "pair_frames proto pairs = concat (map (\<lambda>(k, v). [encode_value k proto, encode_value v proto]) pairs)"

lemma fold_encode: "fold (\<lambda>item out. encode_into item out proto) items acc = acc @ concat (map (\<lambda>v. encode_value v proto) items)"
  by (rule fold_append_concat) (rule encode_into_append)

lemma length_pair_frames [simp]: "length (pair_frames proto pairs) = length pairs * 2"
  by (induction pairs) (auto simp: pair_frames_def)

lemma fold_encode_pairs:
  "fold (\<lambda>(k, v) out. encode_into v (encode_into k out proto) proto) pairs acc = acc @ concat (pair_frames proto pairs)"
proof -
  have "fold (\<lambda>(k, v) out. encode_into v (encode_into k out proto) proto) pairs acc =
      acc @ concat (map (\<lambda>(k, v). encode_value k proto @ encode_value v proto) pairs)"
    by (rule fold_append_concat) (auto simp: encode_into_append [of _ "_ @ _"] encode_into_append)
  also have "concat (map (\<lambda>(k, v). encode_value k proto @ encode_value v proto) pairs) = concat (pair_frames proto pairs)"
    by (induction pairs) (auto simp: pair_frames_def)
  finally show ?thesis .
qed

lemma encode_value_simps:
  "encode_value (SimpleString s) proto = CHR ''+'' # s @ CRLF"
  "encode_value (Error s) proto = CHR ''-'' # s @ CRLF"
  "encode_value (Integer i) proto = CHR '':'' # int_to_string i @ CRLF"
  "encode_value (BulkString b) proto = bulk (CHR ''$'') b"
  "encode_value (Array items) proto = aggregate (CHR ''*'') (map (\<lambda>v. encode_value v proto) items)"
  "encode_value NilValue proto = (if is_resp3 proto then ''_'' else ''$-1'') @ CRLF"
  "encode_value NilArray proto = (if is_resp3 proto then ''_'' else ''*-1'') @ CRLF"
  "encode_value (Boolean t) proto =
     (if is_resp3 proto then (if t then ''#t'' else ''#f'') else (if t then '':1'' else '':0'')) @ CRLF"
  "encode_value (Double d) proto =
     (if is_resp3 proto then CHR '','' # format_double d @ CRLF else bulk (CHR ''$'') (format_double d))"
  "encode_value (BigNumber s) proto = (if is_resp3 proto then CHR ''('' # s @ CRLF else bulk (CHR ''$'') s)"
  "length f = 3 \<Longrightarrow> encode_value (VerbatimString f data) proto =
     (if is_resp3 proto then bulk (CHR ''='') (f @ '':'' @ data) else bulk (CHR ''$'') data)"
  "encode_value (MapValue pairs) Resp2 = aggregate (CHR ''*'') (pair_frames Resp2 pairs)"
  "encode_value (MapValue pairs) Resp3 =
     CHR ''%'' # nat_to_string (length pairs) @ CRLF @ concat (pair_frames Resp3 pairs)"
  "encode_value (SetValue items) proto =
     aggregate (if is_resp3 proto then CHR ''~'' else CHR ''*'') (map (\<lambda>v. encode_value v proto) items)"
  "encode_value (Push items) proto =
     aggregate (if is_resp3 proto then CHR ''>'' else CHR ''*'') (map (\<lambda>v. encode_value v proto) items)"
  unfolding encode_value_def [of "_ :: resp_value"] encode_into.simps fold_encode fold_encode_pairs
  by (simp_all add: encode_bulk_def encode_aggregate_header_def aggregate_def bulk_def Let_def is_resp3_def)

section \<open>Reading a double back\<close>

definition canonical_double :: "f64 \<Rightarrow> f64" where
  "canonical_double d = (if is_nan d then of_magnitude False NAN else if magnitude d = 0 then of_magnitude False 0 else d)"

lemma parse_f64_digits:
  assumes "s \<noteq> []" "list_all is_ascii_digit s"
  shows "parse_f64 ((if neg then ''-'' else '''') @ s @ t) = map_option (of_magnitude neg) (parse_decimal (s @ t))"
proof -
  have l: "map to_ascii_lowercase (s @ t) \<noteq> ''inf''" "map to_ascii_lowercase (s @ t) \<noteq> ''infinity''"
    "map to_ascii_lowercase (s @ t) \<noteq> ''nan''"
    by (rule digit_head(2) [OF assms]; simp add: is_ascii_digit_def)+
  have "split_sign ((if neg then ''-'' else '''') @ s @ t) = (neg, s @ t)"
    using digit_head(1) [OF assms, of t] by (cases neg) (simp_all, simp add: split_sign_def)
  with l show ?thesis unfolding parse_f64_def by simp
qed

lemma units_eq_0 [simp]: "units k = 0 \<longleftrightarrow> k = 0"
  by (simp add: units_def)

lemma units_0 [simp]: "units 0 = 0"
  by (simp add: units_def)

lemma int_to_string_signed: "0 < n \<or> \<not> neg \<Longrightarrow>
  int_to_string (if neg then - int n else int n) = (if neg then ''-'' else '''') @ nat_to_string n"
  by (auto simp: int_to_string_def)

lemma parse_f64_whole:
  assumes "is_finite d" "f64_whole d" "f64_abs_below (10 ^ 17) d"
  shows "parse_f64 (int_to_string (f64_as_i64 d)) = Some (canonical_double d)"
proof -
  define k n neg where "k = magnitude d" and "n = units k div unit_den" and "neg = (is_sign_negative d \<and> 0 < n)"
  have k: "k < INFINITE" using assms(1) by (simp add: is_finite_def k_def)
  have u: "n * unit_den = units k * 1" using assms(2) by (auto simp: f64_whole_def n_def k_def)
  have "n < 10 ^ 17" using assms(3) unfolding f64_abs_below_def k_def [symmetric] n_def
    by (rule less_mult_imp_div_less)
  then have "f64_as_i64 d = (if neg then - int n else int n)"
    using k by (auto simp: f64_as_i64_def is_nan_def is_infinite_def k_def [symmetric] n_def [symmetric] neg_def
        i64_min_def i64_max_def)
  then have s: "int_to_string (f64_as_i64 d) = (if neg then ''-'' else '''') @ nat_to_string n @ []"
    using int_to_string_signed [of n neg] by (auto simp: neg_def)
  have "parse_decimal (nat_to_string n) = Some (dec_nearest n 0)"
    by (rule parse_decimal_digits) (simp_all, simp add: nat_to_string_def digits_value_radix)
  also have "dec_nearest n 0 = k" using nearest_exact [OF u _ k] by (simp add: dec_nearest_def)
  finally have p: "parse_f64 (int_to_string (f64_as_i64 d)) = Some (of_magnitude neg k)"
    unfolding s by (subst parse_f64_digits) simp_all
  have "n = 0 \<longleftrightarrow> k = 0" using u units_eq_0 [of k] unit_den_pos by (metis mult_eq_0_iff nat_mult_1_right less_not_refl)
  then have "of_magnitude neg k = canonical_double d"
    using k of_magnitude_split [of d]
    by (auto simp: canonical_double_def is_nan_def k_def [symmetric] neg_def)
  with p show ?thesis by simp
qed

lemma positional_head: "\<exists>s t. positional c p = s @ t \<and> s \<noteq> [] \<and> list_all is_ascii_digit s"
proof (cases "0 \<le> p")
  case True
  then show ?thesis
    by (intro exI [of _ "nat_to_string c"] exI [of _ "replicate (nat p) (CHR ''0'')"])
      (simp add: positional_def)
next
  case False
  define s where "s = pad_zero (nat (- p) + 1) (nat_to_string c)"
  have "nat (- p) < length s" by (simp add: s_def pad_zero_def)
  moreover have "list_all is_ascii_digit s" unfolding s_def by (rule ascii_digit_pad)
  ultimately show ?thesis
    using False set_take_subset [of "length s - nat (- p)" s]
    by (intro exI [of _ "take (length s - nat (- p)) s"] exI [of _ "''.'' @ drop (length s - nat (- p)) s"]) (auto simp: positional_def Let_def s_def list_all_iff)
qed

lemma parse_format_double: "parse_f64 (format_double d) = Some (canonical_double d)"
proof (cases "is_finite d")
  case False
  then consider "is_nan d" | "is_infinite d" "\<not> is_nan d"
    by (fastforce simp: is_finite_def is_nan_def is_infinite_def)
  then show ?thesis
  proof cases
    case 2
    then show ?thesis using of_magnitude_split [of d]
      by (auto simp: format_double_def parse_f64_def split_sign_def to_ascii_lowercase_def byte_in_def canonical_double_def
          is_infinite_def INFINITE_def)
  qed (simp add: format_double_def parse_f64_def split_sign_def to_ascii_lowercase_def byte_in_def canonical_double_def)
next
  case True
  then have n: "\<not> is_nan d" "\<not> is_infinite d" by (auto simp: is_finite_def is_nan_def is_infinite_def)
  show ?thesis
  proof (cases "f64_whole d \<and> f64_abs_below (10 ^ 17) d")
    case whole: True
    then show ?thesis using parse_f64_whole [OF True] n by (simp add: format_double_def)
  next
    case False
    obtain c p where sh: "shortest (magnitude d) 1383 = (c, p)" by fastforce
    have k: "magnitude d \<noteq> 0" using False by (auto simp: f64_whole_def f64_abs_below_def intro!: gr0I)
    obtain s t where st: "positional c p = s @ t" "s \<noteq> []" "list_all is_ascii_digit s"
      using positional_head [of c p] by auto
    have "format_double d = (if is_sign_negative d then ''-'' else '''') @ s @ t"
      using n False k unfolding format_double_def f64_to_string_def sh st(1) [symmetric] by auto
    then have "parse_f64 (format_double d) = map_option (of_magnitude (is_sign_negative d)) (parse_decimal (positional c p))"
      using parse_f64_digits [OF st(2,3)] st(1) by simp
    then show ?thesis
      using shortest_reads_back [OF True [unfolded is_finite_def] sh] k n
      by (simp add: parse_positional canonical_double_def)
  qed
qed

definition plain :: "char \<Rightarrow> bool" where
  "plain c \<longleftrightarrow> 32 \<le> (of_char c :: nat) \<and> of_char c < (127 :: nat)"

lemma plain_digit: "is_ascii_digit c \<Longrightarrow> plain c"
  by (simp add: is_ascii_digit_def plain_def)

lemma plain_int [simp]: "list_all plain (int_to_string i)"
  using int_to_string_char_code [of _ i] by (fastforce simp: list_all_iff plain_def)

lemma plain_positional: "list_all plain (positional c p)"
proof -
  have "list_all plain (nat_to_string c)" "list_all plain (pad_zero w (nat_to_string c))" for w
    using ascii_digit_of_number [of c] ascii_digit_pad [of w c] plain_digit unfolding list_all_iff by blast+
  then show ?thesis
    using set_take_subset set_drop_subset
    by (auto simp: positional_def Let_def list_all_iff plain_def dest!: in_set_takeD in_set_dropD)
qed

lemma plain_format_double: "list_all plain (format_double d)"
  using plain_positional by (auto simp: format_double_def f64_to_string_def plain_def split: prod.splits)

lemma plain_line:
  assumes "list_all plain s"
  shows "utf8_valid s" "CHR 0x0D \<notin> set s"
  using assms by (auto simp: list_all_iff plain_def intro!: utf8_ascii)

section \<open>What a client sees\<close>

text \<open>
  RESP3 keeps every value but the distinction of the two nulls, the sign of zero and the payload of
  a NaN.  RESP2 has no booleans, doubles, big numbers, verbatim strings, maps, sets and pushes, and
  gets integers, bulk strings and flat arrays for them.
\<close>

fun wire :: "protocol_version \<Rightarrow> resp_value \<Rightarrow> resp_value" where
  "wire p (Array items) = Array (map (wire p) items)"
| "wire p NilArray = (if is_resp3 p then NilValue else NilArray)"
| "wire p (Boolean b) = (if is_resp3 p then Boolean b else Integer (if b then 1 else 0))"
| "wire p (Double d) = (if is_resp3 p then Double (canonical_double d) else BulkString (format_double d))"
| "wire p (BigNumber s) = (if is_resp3 p then BigNumber s else BulkString s)"
| "wire p (VerbatimString f data) = (if is_resp3 p then VerbatimString f data else BulkString data)"
| "wire p (MapValue pairs) =
     (if is_resp3 p then MapValue (map (\<lambda>(k, v). (wire p k, wire p v)) pairs)
      else Array (concat (map (\<lambda>(k, v). [wire p k, wire p v]) pairs)))"
| "wire p (SetValue items) = (if is_resp3 p then SetValue (map (wire p) items) else Array (map (wire p) items))"
| "wire p (Push items) = (if is_resp3 p then Push (map (wire p) items) else Array (map (wire p) items))"
| "wire p v = v"

end
