(* ===== verification/Resp_Scan.thy ===== *)
theory Resp_Scan
  imports Resp_Value
begin

text \<open>
  Finding the end of a line (\<open>parser/simd.rs\<close> of \<open>calod-resp\<close>).  The vector versions compare a block of
  32 or 16 bytes with CR at once and look at the bits of the comparison mask; the rest is left to the
  \<open>memchr\<close> crate, whose two searches are parameters.  All versions find the first CRLF.
\<close>

unbundle bit_operations_syntax

section \<open>The searches of the \<open>memchr\<close> crate and the processor features\<close>

record search_ext =
  memchr :: "char \<Rightarrow> bytes \<Rightarrow> nat option"
  memmem_find :: "bytes \<Rightarrow> bytes \<Rightarrow> nat option"
  has_avx2 :: bool
  has_sse2 :: bool

definition first_index :: "(nat \<Rightarrow> bool) \<Rightarrow> nat \<Rightarrow> nat option" where
  "first_index P n = find P [0..<n]"

definition occurs_at :: "bytes \<Rightarrow> bytes \<Rightarrow> nat \<Rightarrow> bool" where
  "occurs_at needle haystack i \<longleftrightarrow> take (length needle) (drop i haystack) = needle"

text \<open>Documented: both return the index of the first occurrence.\<close>

definition search_ok :: "search_ext \<Rightarrow> bool" where
  "search_ok M \<longleftrightarrow>
     (\<forall>c s. memchr M c s = first_index (\<lambda>i. s ! i = c) (length s)) \<and>
     (\<forall>n s. n \<noteq> [] \<longrightarrow> memmem_find M n s = first_index (occurs_at n s) (length s))"

section \<open>The line search\<close>

definition find_crlf_fallback :: "search_ext \<Rightarrow> bytes \<Rightarrow> nat option" where
  "find_crlf_fallback M buf = memmem_find M CRLF buf"

text \<open>The mask has bit \<open>i\<close> set where byte \<open>i\<close> of the block is the given one.\<close>

definition cmpeq_movemask :: "char \<Rightarrow> bytes \<Rightarrow> 32 word" where
  "cmpeq_movemask c chunk = horner_sum of_bool 2 (map (\<lambda>b. b = c) chunk)"

fun scan_mask :: "32 word \<Rightarrow> bytes \<Rightarrow> nat \<Rightarrow> 32 word \<Rightarrow> nat \<Rightarrow> nat \<Rightarrow> nat option" where
  "scan_mask cr_mask buf offset bt i 0 = None"
| "scan_mask cr_mask buf offset bt i (Suc n) =
     (if cr_mask AND bt \<noteq> 0 \<and> offset + i + 1 < length buf \<and> buf ! (offset + i + 1) = CHR 0x0A
      then Some (offset + i)
      else scan_mask cr_mask buf offset (push_bit 1 bt) (i + 1) n)"

text \<open>The loop for a positive block size \<open>w\<close>; 32 for AVX2 and 16 for SSE2.\<close>

function find_crlf_blocks :: "nat \<Rightarrow> search_ext \<Rightarrow> bytes \<Rightarrow> nat \<Rightarrow> nat option" where
  "find_crlf_blocks w M buf offset =
     (if 0 < w \<and> offset + (w + 1) \<le> length buf then
        let cr_mask = cmpeq_movemask (CHR 0x0D) (slice buf offset (offset + w)) in
        case (if cr_mask \<noteq> 0 then scan_mask cr_mask buf offset 1 0 w else None) of
          Some i \<Rightarrow> Some i
        | None \<Rightarrow> find_crlf_blocks w M buf (offset + w)
      else map_option (\<lambda>pos. offset + pos) (find_crlf_fallback M (drop offset buf)))"
  by pat_completeness auto
termination
  by (relation "measure (\<lambda>(w, M, buf, offset). length buf - offset)") auto

declare find_crlf_blocks.simps [simp del]

definition find_crlf_avx2 :: "search_ext \<Rightarrow> bytes \<Rightarrow> nat option" where
  "find_crlf_avx2 M buf = find_crlf_blocks 32 M buf 0"

definition find_crlf_sse2 :: "search_ext \<Rightarrow> bytes \<Rightarrow> nat option" where
  "find_crlf_sse2 M buf = find_crlf_blocks 16 M buf 0"

definition find_crlf :: "search_ext \<Rightarrow> bytes \<Rightarrow> nat option" where
  "find_crlf M buf =
     (if has_avx2 M \<and> 32 \<le> length buf then find_crlf_avx2 M buf
      else if has_sse2 M \<and> 16 \<le> length buf then find_crlf_sse2 M buf
      else find_crlf_fallback M buf)"

section \<open>The reference search\<close>

definition crlf_at :: "bytes \<Rightarrow> nat \<Rightarrow> bool" where
  "crlf_at s i \<longleftrightarrow> i + 1 < length s \<and> s ! i = CHR 0x0D \<and> s ! (i + 1) = CHR 0x0A"

definition line_end :: "bytes \<Rightarrow> nat option" where
  "line_end s = first_index (crlf_at s) (length s)"

lemma CRLF_nonempty: "CRLF \<noteq> []"
  by (simp add: CRLF_def)

lemma occurs_at_CRLF: "occurs_at CRLF s i \<longleftrightarrow> crlf_at s i"
proof -
  have two: "take 2 t = [a, b] \<longleftrightarrow> 1 < length t \<and> t ! 0 = a \<and> t ! 1 = b" for t :: bytes and a b
    by (cases t; cases "tl t") auto
  show ?thesis by (auto simp: occurs_at_def crlf_at_def CRLF_def numeral_2_eq_2 [symmetric] two)
qed

lemma find_append: "find P (xs @ ys) = (case find P xs of None \<Rightarrow> find P ys | Some x \<Rightarrow> Some x)"
  by (induction xs) auto

lemma find_map: "find P (map f xs) = map_option f (find (P \<circ> f) xs)"
  by (induction xs) auto

lemma crlf_at_drop: "crlf_at (drop k s) i \<longleftrightarrow> crlf_at s (k + i)"
  by (auto simp: crlf_at_def add.assoc)

lemma fallback_from:
  assumes "search_ok M" "k \<le> length s"
  shows "map_option (\<lambda>i. k + i) (find_crlf_fallback M (drop k s)) = find (crlf_at s) [k..<length s]"
proof -
  have "[k..<length s] = map (\<lambda>i. k + i) [0..<length s - k]"
    using assms(2) map_add_upt [of k "length s - k"] by (simp add: add.commute)
  moreover have "find_crlf_fallback M (drop k s) = find (crlf_at s \<circ> (\<lambda>i. k + i)) [0..<length s - k]"
    using assms(1) CRLF_nonempty
    by (simp add: search_ok_def find_crlf_fallback_def first_index_def occurs_at_CRLF [abs_def] crlf_at_drop [abs_def] comp_def)
  ultimately show ?thesis by (simp add: find_map)
qed

lemma mask_bit:
  assumes "length chunk \<le> 32" "i < length chunk"
  shows "cmpeq_movemask c chunk AND 2 ^ i \<noteq> 0 \<longleftrightarrow> chunk ! i = c"
  using assms by (simp add: and_exp_eq_0_iff_not_bit cmpeq_movemask_def bit_horner_sum_bit_word_iff)

lemma scan_mask_find:
  assumes "w \<le> 32" "offset + w < length buf" "i + n \<le> w"
  shows "scan_mask (cmpeq_movemask (CHR 0x0D) (slice buf offset (offset + w))) buf offset (2 ^ i) i n =
    find (crlf_at buf) [offset + i..<offset + i + n]"
  using assms(3)
proof (induction n arbitrary: i)
  case (Suc n)
  have m: "cmpeq_movemask (CHR 0x0D) (slice buf offset (offset + w)) AND 2 ^ i \<noteq> 0 \<longleftrightarrow> buf ! (offset + i) = CHR 0x0D"
    using mask_bit [of "slice buf offset (offset + w)" i "CHR 0x0D"] assms Suc.prems by (simp add: slice_def)
  have u: "[offset + i..<offset + i + Suc n] = (offset + i) # [offset + (i + 1)..<offset + (i + 1) + n]"
    by (simp add: upt_conv_Cons)
  have p: "push_bit 1 (2 ^ i :: 32 word) = 2 ^ (i + 1)" by (simp add: push_bit_eq_mult)
  have "i + 1 + n \<le> w" using Suc.prems by simp
  note IH = Suc.IH [OF this]
  have "i + offset + 1 < length buf" using Suc.prems assms(2) by simp
  then show ?case unfolding scan_mask.simps u p IH m find.simps by (simp add: crlf_at_def add.commute)
qed simp

lemma mask_zero:
  assumes "w \<le> 32" "offset + w < length buf" "cmpeq_movemask (CHR 0x0D) (slice buf offset (offset + w)) = 0"
  shows "find (crlf_at buf) [offset..<offset + w] = None"
proof -
  have "\<not> crlf_at buf (offset + i)" if "i < w" for i
    using mask_bit [of "slice buf offset (offset + w)" i "CHR 0x0D"] assms that by (simp add: slice_def crlf_at_def)
  then have "\<forall>j \<in> set [offset..<offset + w]. \<not> crlf_at buf j"
    by (metis add_diff_inverse_nat atLeastLessThan_iff atLeastLessThan_upt le_add_diff_inverse less_diff_conv2 nat_add_left_cancel_less not_less)
  then show ?thesis by (simp add: find_None_iff)
qed

lemma find_crlf_blocks_correct:
  assumes "search_ok M" "w \<le> 32" "offset \<le> length buf"
  shows "find_crlf_blocks w M buf offset = find (crlf_at buf) [offset..<length buf]"
  using assms
proof (induction w M buf offset rule: find_crlf_blocks.induct)
  case (1 w M buf offset)
  show ?case
  proof (cases "0 < w \<and> offset + (w + 1) \<le> length buf")
    case False
    then show ?thesis using 1(2,4) by (subst find_crlf_blocks.simps) (auto simp: fallback_from)
  next
    case True
    let ?mask = "cmpeq_movemask (CHR 0x0D) (slice buf offset (offset + w))"
    have "[offset..<length buf] = [offset..<offset + w] @ [offset + w..<length buf]"
      using True upt_add_eq_append [of offset "offset + w" "length buf - (offset + w)"] by simp
    moreover have "(if ?mask \<noteq> 0 then scan_mask ?mask buf offset 1 0 w else None) = find (crlf_at buf) [offset..<offset + w]"
      using True 1(3) scan_mask_find [of w offset buf 0 w] mask_zero [of w offset buf] by simp
    moreover have "find (crlf_at buf) [offset..<offset + w] = None \<Longrightarrow>
        find_crlf_blocks w M buf (offset + w) = find (crlf_at buf) [offset + w..<length buf]"
      using True 1(2,3) by (intro 1(1) [OF True refl]) (simp_all add: calculation)
    ultimately show ?thesis
      using True by (subst find_crlf_blocks.simps) (auto simp: find_append Let_def split: option.splits)
  qed
qed

lemma find_crlf_eq:
  assumes "search_ok M"
  shows "find_crlf M buf = line_end buf"
  using find_crlf_blocks_correct [OF assms, of _ 0 buf] fallback_from [OF assms, of 0 buf]
  by (simp add: find_crlf_def find_crlf_avx2_def find_crlf_sse2_def line_end_def first_index_def option.map_ident)

section \<open>Lines\<close>

lemma first_index_Some_iff:
  "first_index P n = Some i \<longleftrightarrow> i < n \<and> P i \<and> (\<forall>j < i. \<not> P j)"
proof -
  have "find P [0..<n] = Some i \<longleftrightarrow> (\<exists>k < n. P ([0..<n] ! k) \<and> i = [0..<n] ! k \<and> (\<forall>j < k. \<not> P ([0..<n] ! j)))"
    by (simp add: find_Some_iff)
  also have "\<dots> \<longleftrightarrow> i < n \<and> P i \<and> (\<forall>j < i. \<not> P j)" by auto
  finally show ?thesis by (simp add: first_index_def)
qed

lemma first_index_None_iff: "first_index P n = None \<longleftrightarrow> (\<forall>j < n. \<not> P j)"
  by (auto simp: first_index_def find_None_iff)

lemma line_end_Some_iff: "line_end s = Some i \<longleftrightarrow> crlf_at s i \<and> (\<forall>j < i. \<not> crlf_at s j)"
  by (auto simp: line_end_def first_index_Some_iff crlf_at_def)

lemma line_end_None_iff: "line_end s = None \<longleftrightarrow> (\<forall>j. \<not> crlf_at s j)"
  by (auto simp: line_end_def first_index_None_iff crlf_at_def)

lemma line_end_bound: "line_end s = Some i \<Longrightarrow> i + 2 \<le> length s"
  by (simp add: line_end_Some_iff crlf_at_def)

lemma crlf_at_append: "i + 1 < length s \<Longrightarrow> crlf_at (s @ t) i \<longleftrightarrow> crlf_at s i"
  by (auto simp: crlf_at_def nth_append)

lemma line_end_stable: "line_end s = Some i \<Longrightarrow> line_end (s @ t) = Some i"
  using crlf_at_append [of _ s t] by (auto simp: line_end_Some_iff) (auto simp: crlf_at_def)

lemma line_end_line:
  assumes "line_end s = None"
  shows "line_end (s @ CRLF @ t) = Some (length s)"
proof -
  have "\<not> crlf_at (s @ CRLF @ t) j" if "j < length s" for j
  proof (cases "j + 1 < length s")
    case True
    then show ?thesis using assms crlf_at_append [of j s] by (simp add: line_end_None_iff)
  next
    case False
    with that have "j = length s - 1" "s \<noteq> []" by auto
    then show ?thesis by (auto simp: crlf_at_def nth_append CRLF_def)
  qed
  then show ?thesis by (auto simp: line_end_Some_iff crlf_at_def nth_append CRLF_def)
qed

lemma line_end_no_cr: "CHR 0x0D \<notin> set s \<Longrightarrow> line_end s = None"
  by (force simp: line_end_None_iff crlf_at_def in_set_conv_nth)

lemma line_end_Cons: "c \<noteq> CHR 0x0D \<Longrightarrow> line_end (c # s) = map_option Suc (line_end s)"
proof (cases "line_end s")
  case None
  moreover assume "c \<noteq> CHR 0x0D"
  ultimately have "line_end (c # s) = None" by (auto simp: line_end_None_iff crlf_at_def nth_Cons split: nat.splits)
  with None show ?thesis by simp
next
  case (Some i)
  moreover assume "c \<noteq> CHR 0x0D"
  ultimately have "line_end (c # s) = Some (Suc i)"
    by (auto simp: line_end_Some_iff crlf_at_def nth_Cons split: nat.splits)
  with Some show ?thesis by simp
qed

definition demo_search :: search_ext where
  "demo_search = \<lparr>memchr = \<lambda>c s. first_index (\<lambda>i. s ! i = c) (length s),
     memmem_find = \<lambda>n s. first_index (occurs_at n s) (length s), has_avx2 = True, has_sse2 = True\<rparr>"

lemma demo_search_ok: "search_ok demo_search"
  by (simp add: search_ok_def demo_search_def)

text \<open>
  C36: The vector searches find the first CRLF.  Whatever the processor supports and however long the
  buffer is, the search returns a position exactly when a CRLF starts there and none starts earlier.
\<close>

theorem find_crlf_first:
  assumes "search_ok M"
  shows "find_crlf M buf = Some i \<longleftrightarrow> take 2 (drop i buf) = CRLF \<and> (\<forall>j < i. take 2 (drop j buf) \<noteq> CRLF)"
  using occurs_at_CRLF [of buf]
  by (simp add: find_crlf_eq [OF assms] line_end_Some_iff occurs_at_def CRLF_def numeral_2_eq_2)

theorem find_crlf_first_witness:
  "search_ok demo_search \<and> find_crlf demo_search (replicate 40 (CHR ''a'') @ CRLF @ ''b'') = Some 40"
proof -
  have "take 2 (drop j (replicate 40 (CHR ''a'') @ CRLF @ ''b'')) \<noteq> CRLF" if "j < 40" for j
    using that by (cases "40 - j") (auto simp: CRLF_def)
  then show ?thesis
    using find_crlf_first [OF demo_search_ok, of "replicate 40 (CHR ''a'') @ CRLF @ ''b''" 40] demo_search_ok
    by (simp add: CRLF_def)
qed

end
