(* ===== verification/Resp_Parser.thy ===== *)
theory Resp_Parser
  imports Resp_Scan
begin

text \<open>
  The protocol parser (\<open>parser/parser.rs\<close> and \<open>parser/errors.rs\<close> of \<open>calod-resp\<close>): one definition per
  method of \<open>RESPParser\<close>.  A parser gets the unread bytes and returns the value with the number of
  bytes it used, or an error; \<open>Incomplete\<close> asks for more bytes.  The parsers of aggregates take the
  parser of their elements as an argument, and \<open>parse_value_depth\<close> ties the knot.

  The payloads of \<open>Utf8\<close> and \<open>ParseInt\<close> are the errors of the standard library; nothing reads them and
  they are left out.  Sums of positions within the buffer do not overflow; the checked sums are kept.
\<close>

section \<open>Errors and limits\<close>

datatype resp_error =
    Incomplete
  | InvalidFormat string
  | UnsupportedType
  | ProtocolError string
  | RespIo string
  | ParseInt
  | Utf8
  | Overflow
  | BulkLengthExceeded
  | MultibulkLengthExceeded
  | DepthExceeded
  | InlineTooLong

definition is_incomplete :: "resp_error \<Rightarrow> bool" where
  "is_incomplete e \<longleftrightarrow> e = Incomplete"

definition MAX_BULK_LEN :: nat where "MAX_BULK_LEN = 512 * 1024 * 1024"
definition MAX_MULTIBULK_LEN :: int where "MAX_MULTIBULK_LEN = 1024 * 1024"
definition MAX_DEPTH :: nat where "MAX_DEPTH = 128"
definition MAX_INLINE_LEN :: nat where "MAX_INLINE_LEN = 64 * 1024"

definition usize_checked_add :: "nat \<Rightarrow> nat \<Rightarrow> nat option" where
  "usize_checked_add a b = (if a + b < 2 ^ 64 then Some (a + b) else None)"

type_synonym parsed = "resp_error + resp_value \<times> nat"

section \<open>Lines\<close>

text \<open>\<open>slice::split\<close>: the pieces between the separators.\<close>

fun split_on :: "(char \<Rightarrow> bool) \<Rightarrow> bytes \<Rightarrow> bytes list" where
  "split_on sep [] = [[]]"
| "split_on sep (b # s) =
     (if sep b then [] # split_on sep s
      else case split_on sep s of [] \<Rightarrow> [[b]] | tok # toks \<Rightarrow> (b # tok) # toks)"

definition parse_inline :: "search_ext \<Rightarrow> bytes \<Rightarrow> parsed" where
  "parse_inline M buffer =
     (case memchr M (CHR 0x0A) buffer of
        Some nl \<Rightarrow>
          if MAX_INLINE_LEN < nl then Inl InlineTooLong
          else
            let line_end = (if 0 < nl \<and> buffer ! (nl - 1) = CHR 0x0D then nl - 1 else nl);
                line = take line_end buffer;
                args = map BulkString (filter (\<lambda>tok. tok \<noteq> []) (split_on (\<lambda>b. b = CHR '' '' \<or> b = CHR 0x09) line))
            in Inr (Array args, nl + 1)
      | None \<Rightarrow> if MAX_INLINE_LEN < length buffer then Inl InlineTooLong else Inl Incomplete)"

text \<open>The rest of a line after the type byte, as text: the first step of the line types.\<close>

definition parse_line :: "search_ext \<Rightarrow> bytes \<Rightarrow> resp_error + string \<times> nat" where
  "parse_line M buffer =
     (case find_crlf M buffer of
        Some e \<Rightarrow> let s = slice buffer 1 e in if utf8_valid s then Inr (s, e) else Inl Utf8
      | None \<Rightarrow> Inl Incomplete)"

definition parse_simple_string :: "search_ext \<Rightarrow> bytes \<Rightarrow> parsed" where
  "parse_simple_string M buffer =
     (case parse_line M buffer of Inl e \<Rightarrow> Inl e | Inr (s, e) \<Rightarrow> Inr (SimpleString s, e + 2))"

definition parse_error :: "search_ext \<Rightarrow> bytes \<Rightarrow> parsed" where
  "parse_error M buffer =
     (case parse_line M buffer of Inl e \<Rightarrow> Inl e | Inr (s, e) \<Rightarrow> Inr (Error s, e + 2))"

text \<open>The length or integer on a line: the second step of all the types with a number.\<close>

definition parse_number :: "search_ext \<Rightarrow> bytes \<Rightarrow> resp_error + int \<times> nat" where
  "parse_number M buffer =
     (case parse_line M buffer of Inl e \<Rightarrow> Inl e
      | Inr (s, e) \<Rightarrow> (case parse_i64 s of None \<Rightarrow> Inl ParseInt | Some n \<Rightarrow> Inr (n, e)))"

definition parse_integer :: "search_ext \<Rightarrow> bytes \<Rightarrow> parsed" where
  "parse_integer M buffer =
     (case parse_number M buffer of Inl e \<Rightarrow> Inl e | Inr (num, e) \<Rightarrow> Inr (Integer num, e + 2))"

definition parse_boolean :: "bytes \<Rightarrow> parsed" where
  "parse_boolean buffer =
     (if length buffer < 3 then Inl Incomplete
      else if buffer ! 1 = CHR ''t'' then
        (if length buffer < 4 \<or> slice buffer 2 4 \<noteq> CRLF then Inl Incomplete else Inr (Boolean True, 4))
      else if buffer ! 1 = CHR ''f'' then
        (if length buffer < 4 \<or> slice buffer 2 4 \<noteq> CRLF then Inl Incomplete else Inr (Boolean False, 4))
      else Inl (InvalidFormat (''Invalid boolean value: '' @ nat_to_string (of_char (buffer ! 1)))))"

definition parse_double :: "search_ext \<Rightarrow> bytes \<Rightarrow> parsed" where
  "parse_double M buffer =
     (case parse_line M buffer of Inl e \<Rightarrow> Inl e
      | Inr (s, e) \<Rightarrow>
        (case parse_f64 s of None \<Rightarrow> Inl (InvalidFormat (''Invalid double value: '' @ s))
         | Some num \<Rightarrow> Inr (Double num, e + 2)))"

definition parse_null :: "bytes \<Rightarrow> parsed" where
  "parse_null buffer =
     (if length buffer < 3 then Inl Incomplete
      else if slice buffer 1 3 \<noteq> CRLF then Inl (InvalidFormat ''Invalid null encoding'')
      else Inr (NilValue, 3))"

definition parse_big_number :: "search_ext \<Rightarrow> bytes \<Rightarrow> parsed" where
  "parse_big_number M buffer =
     (case parse_line M buffer of Inl e \<Rightarrow> Inl e
      | Inr (s, e) \<Rightarrow>
        let body = (case s of [] \<Rightarrow> s | c # cs \<Rightarrow> if c = CHR ''+'' \<or> c = CHR ''-'' then cs else s) in
        if body = [] \<or> \<not> list_all is_ascii_digit body
        then Inl (InvalidFormat (''Invalid big number value: '' @ s))
        else Inr (BigNumber s, e + 2))"

section \<open>Payloads with a length\<close>

definition parse_bulk_string :: "search_ext \<Rightarrow> bytes \<Rightarrow> parsed" where
  "parse_bulk_string M buffer =
     (case parse_number M buffer of Inl e \<Rightarrow> Inl e
      | Inr (len, len_end) \<Rightarrow>
        if len = - 1 then Inr (NilValue, len_end + 2)
        else if len < 0 then Inl (InvalidFormat (''Invalid bulk string length: '' @ int_to_string len))
        else
          let len = nat len in
          if MAX_BULK_LEN < len then Inl BulkLengthExceeded
          else
            (case usize_checked_add len_end 2 of None \<Rightarrow> Inl Overflow
             | Some bulk_start \<Rightarrow>
            (case Option.bind (usize_checked_add bulk_start len) (\<lambda>e. usize_checked_add e 2) of None \<Rightarrow> Inl Overflow
             | Some bulk_end \<Rightarrow>
               if length buffer < bulk_end then Inl Incomplete
               else if slice buffer (bulk_start + len) bulk_end \<noteq> CRLF
               then Inl (InvalidFormat ''Missing trailing CRLF after bulk data'')
               else Inr (BulkString (slice buffer bulk_start (bulk_start + len)), bulk_end))))"

definition parse_length_prefixed :: "search_ext \<Rightarrow> bytes \<Rightarrow> resp_error + bytes \<times> nat" where
  "parse_length_prefixed M buffer =
     (case parse_number M buffer of Inl e \<Rightarrow> Inl e
      | Inr (len, len_end) \<Rightarrow>
        if len < 0 then Inl (InvalidFormat (''Invalid length-prefixed value length: '' @ int_to_string len))
        else
          let len = nat len in
          if MAX_BULK_LEN < len then Inl BulkLengthExceeded
          else
            (case usize_checked_add len_end 2 of None \<Rightarrow> Inl Overflow
             | Some start \<Rightarrow>
            (case Option.bind (usize_checked_add start len) (\<lambda>e. usize_checked_add e 2) of None \<Rightarrow> Inl Overflow
             | Some e \<Rightarrow>
               if length buffer < e then Inl Incomplete
               else if slice buffer (start + len) e \<noteq> CRLF
               then Inl (InvalidFormat ''Missing trailing CRLF after length-prefixed payload'')
               else Inr (slice buffer start (start + len), e))))"

definition parse_blob_error :: "search_ext \<Rightarrow> bytes \<Rightarrow> parsed" where
  "parse_blob_error M buffer =
     (case parse_length_prefixed M buffer of Inl e \<Rightarrow> Inl e
      | Inr (data, consumed) \<Rightarrow> if utf8_valid data then Inr (Error data, consumed) else Inl Utf8)"

definition parse_verbatim :: "search_ext \<Rightarrow> bytes \<Rightarrow> parsed" where
  "parse_verbatim M buffer =
     (case parse_length_prefixed M buffer of Inl e \<Rightarrow> Inl e
      | Inr (data, consumed) \<Rightarrow>
        if length data < 4 \<or> data ! 3 \<noteq> CHR '':'' then Inl (InvalidFormat ''Invalid verbatim string format header'')
        else Inr (VerbatimString (take 3 data) (drop 4 data), consumed))"

section \<open>Aggregates\<close>

text \<open>The loops over the elements and over the entries, for the parser \<open>p\<close> of a nested value.\<close>

fun parse_elements :: "(bytes \<Rightarrow> parsed) \<Rightarrow> bytes \<Rightarrow> nat \<Rightarrow> nat \<Rightarrow> resp_error + resp_value list \<times> nat" where
  "parse_elements p buffer 0 position = Inr ([], position)"
| "parse_elements p buffer (Suc n) position =
     (if length buffer \<le> position then Inl Incomplete
      else case p (drop position buffer) of Inl e \<Rightarrow> Inl e
      | Inr (v, consumed) \<Rightarrow>
        (case parse_elements p buffer n (position + consumed) of Inl e \<Rightarrow> Inl e
         | Inr (elements, position) \<Rightarrow> Inr (v # elements, position)))"

fun parse_entries ::
  "(bytes \<Rightarrow> parsed) \<Rightarrow> bytes \<Rightarrow> nat \<Rightarrow> nat \<Rightarrow> resp_error + (resp_value \<times> resp_value) list \<times> nat" where
  "parse_entries p buffer 0 position = Inr ([], position)"
| "parse_entries p buffer (Suc n) position =
     (if length buffer \<le> position then Inl Incomplete
      else case p (drop position buffer) of Inl e \<Rightarrow> Inl e
      | Inr (key, key_consumed) \<Rightarrow>
        let position = position + key_consumed in
        if length buffer \<le> position then Inl Incomplete
        else case p (drop position buffer) of Inl e \<Rightarrow> Inl e
        | Inr (v, value_consumed) \<Rightarrow>
          (case parse_entries p buffer n (position + value_consumed) of Inl e \<Rightarrow> Inl e
           | Inr (entries, position) \<Rightarrow> Inr ((key, v) # entries, position)))"

text \<open>The element count with its bounds: the first part of map, set, push and attribute.\<close>

definition parse_count :: "search_ext \<Rightarrow> string \<Rightarrow> bytes \<Rightarrow> resp_error + nat \<times> nat" where
  "parse_count M what buffer =
     (case parse_number M buffer of Inl e \<Rightarrow> Inl e
      | Inr (len, len_end) \<Rightarrow>
        if len < 0 then Inl (InvalidFormat (''Invalid '' @ what @ '' length: '' @ int_to_string len))
        else if MAX_MULTIBULK_LEN < len then Inl MultibulkLengthExceeded
        else (case usize_checked_add len_end 2 of None \<Rightarrow> Inl Overflow | Some position \<Rightarrow> Inr (nat len, position)))"

definition parse_array :: "search_ext \<Rightarrow> (bytes \<Rightarrow> parsed) \<Rightarrow> bytes \<Rightarrow> parsed" where
  "parse_array M p buffer =
     (case parse_number M buffer of Inl e \<Rightarrow> Inl e
      | Inr (len, len_end) \<Rightarrow>
        if len = - 1 then Inr (NilArray, len_end + 2)
        else if len < 0 then Inl (InvalidFormat (''Invalid array length: '' @ int_to_string len))
        else if MAX_MULTIBULK_LEN < len then Inl MultibulkLengthExceeded
        else
          (case usize_checked_add len_end 2 of None \<Rightarrow> Inl Overflow
           | Some position \<Rightarrow>
             (case parse_elements p buffer (nat len) position of Inl e \<Rightarrow> Inl e
              | Inr (elements, position) \<Rightarrow> Inr (Array elements, position))))"

definition parse_map :: "search_ext \<Rightarrow> (bytes \<Rightarrow> parsed) \<Rightarrow> bytes \<Rightarrow> parsed" where
  "parse_map M p buffer =
     (case parse_count M ''map'' buffer of Inl e \<Rightarrow> Inl e
      | Inr (len, position) \<Rightarrow>
        (case parse_entries p buffer len position of Inl e \<Rightarrow> Inl e
         | Inr (entries, position) \<Rightarrow> Inr (MapValue entries, position)))"

definition parse_set :: "search_ext \<Rightarrow> (bytes \<Rightarrow> parsed) \<Rightarrow> bytes \<Rightarrow> parsed" where
  "parse_set M p buffer =
     (case parse_count M ''set'' buffer of Inl e \<Rightarrow> Inl e
      | Inr (len, position) \<Rightarrow>
        (case parse_elements p buffer len position of Inl e \<Rightarrow> Inl e
         | Inr (elements, position) \<Rightarrow> Inr (SetValue elements, position)))"

definition parse_push :: "search_ext \<Rightarrow> (bytes \<Rightarrow> parsed) \<Rightarrow> bytes \<Rightarrow> parsed" where
  "parse_push M p buffer =
     (case parse_count M ''push'' buffer of Inl e \<Rightarrow> Inl e
      | Inr (len, position) \<Rightarrow>
        (case parse_elements p buffer len position of Inl e \<Rightarrow> Inl e
         | Inr (elements, position) \<Rightarrow> Inr (Push elements, position)))"

text \<open>The entries of an attribute are dropped; \<open>q\<close> parses the value behind it, at the same depth.\<close>

definition parse_attribute :: "search_ext \<Rightarrow> (bytes \<Rightarrow> parsed) \<Rightarrow> (bytes \<Rightarrow> parsed) \<Rightarrow> bytes \<Rightarrow> parsed" where
  "parse_attribute M p q buffer =
     (case parse_count M ''attribute'' buffer of Inl e \<Rightarrow> Inl e
      | Inr (len, position) \<Rightarrow>
        (case parse_entries p buffer len position of Inl e \<Rightarrow> Inl e
         | Inr (_, position) \<Rightarrow>
           if length buffer \<le> position then Inl Incomplete
           else case q (drop position buffer) of Inl e \<Rightarrow> Inl e
           | Inr (v, consumed) \<Rightarrow> Inr (v, position + consumed)))"

section \<open>Dispatch\<close>

text \<open>A nested parser is called on proper suffixes only.\<close>

lemma parse_elements_cong:
  assumes "\<And>q. position \<le> q \<Longrightarrow> p (drop q buffer) = p' (drop q buffer)"
  shows "parse_elements p buffer n position = parse_elements p' buffer n position"
  using assms
proof (induction n arbitrary: position)
  case (Suc n)
  show ?case
  proof (cases "length buffer \<le> position")
    case False
    have "parse_elements p buffer n (position + k) = parse_elements p' buffer n (position + k)" for k
      using Suc.prems by (intro Suc.IH) simp
    with False Suc.prems [of position] show ?thesis by (auto split: sum.splits)
  qed simp
qed simp

lemma parse_entries_cong:
  assumes "\<And>q. position \<le> q \<Longrightarrow> p (drop q buffer) = p' (drop q buffer)"
  shows "parse_entries p buffer n position = parse_entries p' buffer n position"
  using assms
proof (induction n arbitrary: position)
  case (Suc n)
  have eq: "p (drop (position + k) buffer) = p' (drop (position + k) buffer)" for k
    using Suc.prems by simp
  have "parse_entries p buffer n (position + k) = parse_entries p' buffer n (position + k)" for k
    using Suc.prems by (intro Suc.IH) simp
  then have ih: "parse_entries p buffer n (position + k + l) = parse_entries p' buffer n (position + k + l)" for k l
    by (simp add: add.assoc)
  show ?case using eq [of 0] by (simp add: Let_def eq ih split: sum.split prod.split)
qed simp

lemma parse_count_position: "parse_count M what buffer = Inr (len, position) \<Longrightarrow> 0 < position"
  by (auto simp: parse_count_def usize_checked_add_def split: sum.splits if_splits)

lemma parse_array_cong [fundef_cong]:
  assumes "M = M'" "buffer = buffer'" "\<And>q. 0 < q \<Longrightarrow> p (drop q buffer') = p' (drop q buffer')"
  shows "parse_array M p buffer = parse_array M' p' buffer'"
proof -
  have "parse_elements p buffer' n position = parse_elements p' buffer' n position" if "0 < position" for n position
    using that assms(3) by (intro parse_elements_cong) simp
  then show ?thesis
    unfolding assms(1,2) parse_array_def
    by (auto simp: usize_checked_add_def split: sum.splits option.splits if_splits)
qed

lemma aggregate_cong:
  assumes "\<And>q. 0 < q \<Longrightarrow> p (drop q buffer) = p' (drop q buffer)"
    and "parse_count M what buffer = Inr (len, position)"
  shows "parse_elements p buffer len position = parse_elements p' buffer len position"
    "parse_entries p buffer len position = parse_entries p' buffer len position"
  using assms(1) parse_count_position [OF assms(2)]
  by (auto intro!: parse_elements_cong parse_entries_cong)

lemma count_cong:
  assumes "\<And>len position. parse_count M what buffer = Inr (len, position) \<Longrightarrow> f len position = g len position"
  shows "(case parse_count M what buffer of Inl e \<Rightarrow> Inl e | Inr (len, position) \<Rightarrow> f len position) =
    (case parse_count M what buffer of Inl e \<Rightarrow> Inl e | Inr (len, position) \<Rightarrow> g len position)"
  using assms by (cases "parse_count M what buffer") auto

lemma parse_map_cong [fundef_cong]:
  assumes "M = M'" "buffer = buffer'" "\<And>q. 0 < q \<Longrightarrow> p (drop q buffer') = p' (drop q buffer')"
  shows "parse_map M p buffer = parse_map M' p' buffer'"
  unfolding assms(1,2) parse_map_def
proof (rule count_cong, goal_cases)
  case (1 len position)
  show ?case using aggregate_cong(2) [where p = p and p' = p', OF assms(3) 1] by simp
qed

lemma parse_set_cong [fundef_cong]:
  assumes "M = M'" "buffer = buffer'" "\<And>q. 0 < q \<Longrightarrow> p (drop q buffer') = p' (drop q buffer')"
  shows "parse_set M p buffer = parse_set M' p' buffer'"
  unfolding assms(1,2) parse_set_def
proof (rule count_cong, goal_cases)
  case (1 len position)
  show ?case using aggregate_cong(1) [where p = p and p' = p', OF assms(3) 1] by simp
qed

lemma parse_push_cong [fundef_cong]:
  assumes "M = M'" "buffer = buffer'" "\<And>q. 0 < q \<Longrightarrow> p (drop q buffer') = p' (drop q buffer')"
  shows "parse_push M p buffer = parse_push M' p' buffer'"
  unfolding assms(1,2) parse_push_def
proof (rule count_cong, goal_cases)
  case (1 len position)
  show ?case using aggregate_cong(1) [where p = p and p' = p', OF assms(3) 1] by simp
qed

lemma parse_entries_position:
  "parse_entries p buffer n position = Inr (entries, position') \<Longrightarrow> position \<le> position'"
  by (induction n arbitrary: position entries) (fastforce simp: Let_def split: sum.splits prod.splits if_splits)+

lemma parse_attribute_cong [fundef_cong]:
  assumes "M = M'" "buffer = buffer'" "\<And>k. 0 < k \<Longrightarrow> p (drop k buffer') = p' (drop k buffer')"
    and "\<And>k. 0 < k \<Longrightarrow> q (drop k buffer') = q' (drop k buffer')"
  shows "parse_attribute M p q buffer = parse_attribute M' p' q' buffer'"
  unfolding assms(1,2) parse_attribute_def
proof (rule count_cong)
  fix len position
  assume c: "parse_count M' ''attribute'' buffer' = Inr (len, position)"
  have q: "q (drop k buffer') = q' (drop k buffer')" if "parse_entries p' buffer' len position = Inr (es, k)" for es k
    using assms(4) parse_entries_position [OF that] parse_count_position [OF c] by simp
  have "parse_entries p buffer' len position = parse_entries p' buffer' len position"
    by (rule aggregate_cong(2) [where p = p and p' = p', OF assms(3) c])
  then show "(case parse_entries p buffer' len position of Inl e \<Rightarrow> Inl e
       | Inr (_, position) \<Rightarrow> if length buffer' \<le> position then Inl Incomplete
           else case q (drop position buffer') of Inl e \<Rightarrow> Inl e | Inr (v, consumed) \<Rightarrow> Inr (v, position + consumed)) =
     (case parse_entries p' buffer' len position of Inl e \<Rightarrow> Inl e
       | Inr (_, position) \<Rightarrow> if length buffer' \<le> position then Inl Incomplete
           else case q' (drop position buffer') of Inl e \<Rightarrow> Inl e | Inr (v, consumed) \<Rightarrow> Inr (v, position + consumed))"
    using q by (cases "parse_entries p' buffer' len position") auto
qed

function parse_value_depth :: "search_ext \<Rightarrow> bytes \<Rightarrow> nat \<Rightarrow> bool \<Rightarrow> parsed" where
  "parse_value_depth M buffer depth allow_inline =
     (if buffer = [] then Inl Incomplete
      else if MAX_DEPTH < depth then Inl DepthExceeded
      else
        let c = hd buffer in
        if c = CHR ''+'' then parse_simple_string M buffer
        else if c = CHR ''-'' then parse_error M buffer
        else if c = CHR '':'' then parse_integer M buffer
        else if c = CHR ''$'' then parse_bulk_string M buffer
        else if c = CHR ''*'' then parse_array M (\<lambda>b. parse_value_depth M b (depth + 1) False) buffer
        else if c = CHR ''#'' then parse_boolean buffer
        else if c = CHR '','' then parse_double M buffer
        else if c = CHR ''%'' then parse_map M (\<lambda>b. parse_value_depth M b (depth + 1) False) buffer
        else if c = CHR ''~'' then parse_set M (\<lambda>b. parse_value_depth M b (depth + 1) False) buffer
        else if c = CHR ''_'' then parse_null buffer
        else if c = CHR ''('' then parse_big_number M buffer
        else if c = CHR ''!'' then parse_blob_error M buffer
        else if c = CHR ''='' then parse_verbatim M buffer
        else if c = CHR ''>'' then parse_push M (\<lambda>b. parse_value_depth M b (depth + 1) False) buffer
        else if c = CHR ''|'' then
          parse_attribute M (\<lambda>b. parse_value_depth M b (depth + 1) False) (\<lambda>b. parse_value_depth M b depth False) buffer
        else if allow_inline \<and> depth = 0 then parse_inline M buffer
        else Inl (InvalidFormat (''Unexpected type identifier: '' @ nat_to_string (of_char c))))"
  by pat_completeness auto
termination
  by (relation "measure (\<lambda>(M, buffer, depth, allow_inline). length buffer)") auto

declare parse_value_depth.simps [simp del]

definition parse_value :: "search_ext \<Rightarrow> bytes \<Rightarrow> parsed" where
  "parse_value M buffer = parse_value_depth M buffer 0 True"

definition parse_value_strict :: "search_ext \<Rightarrow> bytes \<Rightarrow> parsed" where
  "parse_value_strict M buffer = parse_value_depth M buffer 0 False"

function parse_multiple_loop :: "search_ext \<Rightarrow> bytes \<Rightarrow> nat \<Rightarrow> resp_value list \<Rightarrow> parsed" where
  "parse_multiple_loop M buffer position responses =
     (if position < length buffer then
        (case parse_value M (drop position buffer) of Inl e \<Rightarrow> Inl e
         | Inr (v, consumed) \<Rightarrow>
           let responses = responses @ [v]; position = position + consumed in
           if consumed = 0 then Inr (Array responses, position)
           else parse_multiple_loop M buffer position responses)
      else Inr (Array responses, position))"
  by pat_completeness auto
termination
  by (relation "measure (\<lambda>(M, buffer, position, responses). length buffer - position)") auto

declare parse_multiple_loop.simps [simp del]

definition parse_multiple :: "search_ext \<Rightarrow> bytes \<Rightarrow> parsed" where
  "parse_multiple M buffer = parse_multiple_loop M buffer 0 []"

end
