(* ===== verification/Resp_Laws.thy ===== *)
theory Resp_Laws
  imports Resp_Parser
begin

text \<open>
  What the protocol parser guarantees to a caller that feeds it a growing buffer.  A verdict other
  than \<open>Incomplete\<close> is final: more bytes do not change it.  A parsed value uses at least one byte and
  no more than there are.  Every value that comes out is within the limits of the protocol.
\<close>

section \<open>Framing\<close>

definition framed :: "(bytes \<Rightarrow> resp_error + 'a \<times> nat) \<Rightarrow> bytes \<Rightarrow> bool" where
  "framed p b \<longleftrightarrow>
     (\<forall>v n. p b = Inr (v, n) \<longrightarrow> 0 < n \<and> n \<le> length b) \<and> (p b \<noteq> Inl Incomplete \<longrightarrow> (\<forall>t. p (b @ t) = p b))"

lemma framedI:
  assumes "\<And>v n. p b = Inr (v, n) \<Longrightarrow> 0 < n \<and> n \<le> length b"
    and "\<And>t. p b \<noteq> Inl Incomplete \<Longrightarrow> p (b @ t) = p b"
  shows "framed p b"
  using assms by (auto simp: framed_def)

lemma framed_stable: "framed p b \<Longrightarrow> p b \<noteq> Inl Incomplete \<Longrightarrow> p (b @ t) = p b"
  by (auto simp: framed_def)

lemma framed_bound: "framed p b \<Longrightarrow> p b = Inr (v, n) \<Longrightarrow> 0 < n \<and> n \<le> length b"
  by (auto simp: framed_def)

lemma slice_stable: "j \<le> length b \<Longrightarrow> slice (b @ t) i j = slice b i j"
  by (cases "i \<le> j") (auto simp: slice_def)

lemma parse_line_bound: "search_ok M \<Longrightarrow> parse_line M b = Inr (s, e) \<Longrightarrow> e + 2 \<le> length b"
  by (auto simp: parse_line_def find_crlf_eq Let_def split: option.splits if_splits dest: line_end_bound)

lemma parse_line_stable:
  assumes "search_ok M" "parse_line M b \<noteq> Inl Incomplete"
  shows "parse_line M (b @ t) = parse_line M b"
proof -
  obtain e where "line_end b = Some e" using assms by (cases "line_end b") (auto simp: parse_line_def find_crlf_eq)
  then show ?thesis
    using line_end_stable [of b e t] line_end_bound [of b e]
    by (simp add: parse_line_def find_crlf_eq [OF assms(1)] slice_stable)
qed

lemma parse_number_bound: "search_ok M \<Longrightarrow> parse_number M b = Inr (n, e) \<Longrightarrow> e + 2 \<le> length b"
  using parse_line_bound by (fastforce simp: parse_number_def split: sum.splits option.splits)

lemma parse_number_stable:
  assumes "search_ok M" "parse_number M b \<noteq> Inl Incomplete"
  shows "parse_number M (b @ t) = parse_number M b"
proof -
  have "parse_line M b \<noteq> Inl Incomplete" using assms(2) by (auto simp: parse_number_def)
  from parse_line_stable [OF assms(1) this] show ?thesis by (simp add: parse_number_def)
qed

subsection \<open>The line types\<close>

lemma framed_line:
  assumes "search_ok M" "\<And>b. p b = (case parse_line M b of Inl e \<Rightarrow> Inl e | Inr (s, e) \<Rightarrow> f s e)"
    and "\<And>s e v n. f s e = Inr (v, n) \<Longrightarrow> n = e + 2"
  shows "framed p b"
proof (rule framedI)
  fix v n
  assume "p b = Inr (v, n)"
  then show "0 < n \<and> n \<le> length b"
    using parse_line_bound [OF assms(1)] assms(3) by (fastforce simp: assms(2) split: sum.splits)
next
  fix t
  assume "p b \<noteq> Inl Incomplete"
  then have "parse_line M b \<noteq> Inl Incomplete" by (auto simp: assms(2))
  from parse_line_stable [OF assms(1) this] show "p (b @ t) = p b" by (simp add: assms(2))
qed

lemma framed_lines:
  assumes "search_ok M"
  shows "framed (parse_simple_string M) b" "framed (parse_error M) b" "framed (parse_integer M) b"
    "framed (parse_double M) b" "framed (parse_big_number M) b"
proof -
  show "framed (parse_simple_string M) b"
    by (rule framed_line [OF assms parse_simple_string_def]) simp
  show "framed (parse_error M) b"
    by (rule framed_line [OF assms parse_error_def]) simp
  have i: "parse_integer M b = (case parse_line M b of Inl e \<Rightarrow> Inl e
      | Inr (s, e) \<Rightarrow> (case parse_i64 s of None \<Rightarrow> Inl ParseInt | Some n \<Rightarrow> Inr (Integer n, e + 2)))" for b
    by (auto simp: parse_integer_def parse_number_def split: sum.splits option.splits)
  show "framed (parse_integer M) b"
    by (rule framed_line [OF assms i]) (auto split: option.splits)
  show "framed (parse_double M) b"
    by (rule framed_line [OF assms parse_double_def]) (auto split: option.splits)
  show "framed (parse_big_number M) b"
    by (rule framed_line [OF assms parse_big_number_def]) (auto simp: Let_def split: if_splits)
qed

lemma framed_boolean: "framed parse_boolean b"
  by (rule framedI) (auto simp: parse_boolean_def slice_stable nth_append split: if_splits)

lemma framed_null: "framed parse_null b"
  by (rule framedI) (auto simp: parse_null_def slice_stable split: if_splits)

lemma memchr_Some_iff:
  "search_ok M \<Longrightarrow> memchr M c b = Some i \<longleftrightarrow> i < length b \<and> b ! i = c \<and> (\<forall>j < i. b ! j \<noteq> c)"
  by (simp add: search_ok_def first_index_Some_iff)

lemma memchr_None_iff: "search_ok M \<Longrightarrow> memchr M c b = None \<longleftrightarrow> c \<notin> set b"
  by (auto simp: search_ok_def first_index_None_iff in_set_conv_nth)

lemma framed_inline: 
  assumes "search_ok M"
  shows "framed (parse_inline M) b"
proof (rule framedI)
  fix v n
  assume "parse_inline M b = Inr (v, n)"
  then show "0 < n \<and> n \<le> length b"
    by (auto simp: parse_inline_def Let_def memchr_Some_iff [OF assms] split: option.splits if_splits)
next
  fix t
  assume n: "parse_inline M b \<noteq> Inl Incomplete"
  show "parse_inline M (b @ t) = parse_inline M b"
  proof (cases "memchr M (CHR 0x0A) b")
    case None
    with n have long: "MAX_INLINE_LEN < length b" by (auto simp: parse_inline_def split: if_splits)
    have "length b \<le> nl" if "memchr M (CHR 0x0A) (b @ t) = Some nl" for nl
    proof (rule ccontr)
      assume "\<not> length b \<le> nl"
      then have "nl < length b" "b ! nl = CHR 0x0A" using that by (auto simp: memchr_Some_iff [OF assms] nth_append)
      then show False using None nth_mem [of nl b] by (simp add: memchr_None_iff [OF assms])
    qed
    with long None show ?thesis
      by (fastforce simp: parse_inline_def split: option.splits)
  next
    case (Some nl)
    then have "memchr M (CHR 0x0A) (b @ t) = Some nl" "nl < length b"
      by (auto simp: memchr_Some_iff [OF assms] nth_append)
    with Some show ?thesis by (simp add: parse_inline_def nth_append)
  qed
qed

subsection \<open>Payloads with a length\<close>

text \<open>The common end of the parsers of payloads: the payload has to be there, with a CRLF behind it.\<close>

definition payload :: "bytes \<Rightarrow> nat \<Rightarrow> nat \<Rightarrow> string \<Rightarrow> resp_error + bytes \<times> nat" where
  "payload buffer len_end len msg =
     (if MAX_BULK_LEN < len then Inl BulkLengthExceeded
      else if 2 ^ 64 \<le> len_end + len + 4 then Inl Overflow
      else if length buffer < len_end + len + 4 then Inl Incomplete
      else if slice buffer (len_end + len + 2) (len_end + len + 4) \<noteq> CRLF then Inl (InvalidFormat msg)
      else Inr (slice buffer (len_end + 2) (len_end + len + 2), len_end + len + 4))"

lemma checked_sums:
  "(case usize_checked_add a 2 of None \<Rightarrow> Inl Overflow
    | Some b \<Rightarrow> (case Option.bind (usize_checked_add b n) (\<lambda>e. usize_checked_add e 2) of None \<Rightarrow> Inl Overflow | Some e \<Rightarrow> f b e)) =
   (if 2 ^ 64 \<le> a + n + 4 then Inl Overflow else f (a + 2) (a + n + 4))"
  by (auto simp: usize_checked_add_def algebra_simps simp del: add_2_eq_Suc add_2_eq_Suc'
      split: option.splits Option.bind_splits if_splits)

lemma bulk_string_payload:
  "parse_bulk_string M b =
     (case parse_number M b of Inl e \<Rightarrow> Inl e
      | Inr (len, len_end) \<Rightarrow>
        if len = - 1 then Inr (NilValue, len_end + 2)
        else if len < 0 then Inl (InvalidFormat (''Invalid bulk string length: '' @ int_to_string len))
        else (case payload b len_end (nat len) ''Missing trailing CRLF after bulk data'' of Inl e \<Rightarrow> Inl e
          | Inr (data, n) \<Rightarrow> Inr (BulkString data, n)))"
  unfolding parse_bulk_string_def checked_sums
  by (auto simp: payload_def Let_def algebra_simps split: sum.split)

lemma length_prefixed_payload:
  "parse_length_prefixed M b =
     (case parse_number M b of Inl e \<Rightarrow> Inl e
      | Inr (len, len_end) \<Rightarrow>
        if len < 0 then Inl (InvalidFormat (''Invalid length-prefixed value length: '' @ int_to_string len))
        else payload b len_end (nat len) ''Missing trailing CRLF after length-prefixed payload'')"
  unfolding parse_length_prefixed_def checked_sums
  by (auto simp: payload_def Let_def algebra_simps split: sum.split)

lemma payload_stable: "payload b k n msg \<noteq> Inl Incomplete \<Longrightarrow> payload (b @ t) k n msg = payload b k n msg"
  by (auto simp: payload_def slice_stable split: if_splits)

lemma payload_bound: "payload b k n msg = Inr (d, m) \<Longrightarrow> 0 < m \<and> m \<le> length b \<and> length d \<le> MAX_BULK_LEN"
  by (auto simp: payload_def slice_def split: if_splits)

lemma framed_number:
  assumes "search_ok M" "\<And>b. p b = (case parse_number M b of Inl e \<Rightarrow> Inl e | Inr (n, e) \<Rightarrow> f b n e)"
    and "\<And>n e. parse_number M b = Inr (n, e) \<Longrightarrow> framed (\<lambda>b. f b n e) b"
  shows "framed p b"
proof (rule framedI)
  fix v n
  assume "p b = Inr (v, n)"
  then show "0 < n \<and> n \<le> length b"
    using framed_bound [OF assms(3)] by (auto simp: assms(2) split: sum.splits)
next
  fix t
  assume n: "p b \<noteq> Inl Incomplete"
  then have "parse_number M b \<noteq> Inl Incomplete" by (auto simp: assms(2))
  from parse_number_stable [OF assms(1) this] n show "p (b @ t) = p b"
    using framed_stable [OF assms(3)] by (auto simp: assms(2) split: sum.splits)
qed

lemma framed_const: "(\<And>v n. r = Inr (v, n) \<Longrightarrow> 0 < n \<and> n \<le> length b) \<Longrightarrow> framed (\<lambda>_. r) b"
  by (simp add: framed_def)

lemma framed_if: "(c \<Longrightarrow> framed p b) \<Longrightarrow> (\<not> c \<Longrightarrow> framed q b) \<Longrightarrow> framed (\<lambda>b. if c then p b else q b) b"
  by (cases c) simp_all

lemma framed_payload: "framed (\<lambda>b. payload b k n msg) b"
  by (rule framedI) (auto simp: payload_stable dest: payload_bound)

lemma framed_map:
  assumes "framed p b" "\<And>b. q b = (case p b of Inl e \<Rightarrow> Inl e | Inr (d, n) \<Rightarrow> f d n)"
    and "\<And>d n v m. f d n = Inr (v, m) \<Longrightarrow> m = n"
  shows "framed q b"
proof (rule framedI)
  fix v n
  assume "q b = Inr (v, n)"
  then show "0 < n \<and> n \<le> length b"
    using framed_bound [OF assms(1)] assms(3) by (fastforce simp: assms(2) split: sum.splits)
next
  fix t
  assume "q b \<noteq> Inl Incomplete"
  then have "p b \<noteq> Inl Incomplete" by (auto simp: assms(2))
  from framed_stable [OF assms(1) this] show "q (b @ t) = q b" by (simp add: assms(2))
qed

lemma framed_bulk_string:
  assumes "search_ok M"
  shows "framed (parse_bulk_string M) b"
proof (rule framed_number [OF assms bulk_string_payload], goal_cases)
  case (1 n e)
  have "framed (\<lambda>b. case payload b e (nat n) ''Missing trailing CRLF after bulk data'' of Inl e \<Rightarrow> Inl e
      | Inr (data, n) \<Rightarrow> Inr (BulkString data, n)) b"
    by (rule framed_map [OF framed_payload [of e "nat n" "''Missing trailing CRLF after bulk data''"] refl]) simp
  then show ?case using parse_number_bound [OF assms 1] by (intro framed_if framed_const) auto
qed

lemma framed_length_prefixed:
  assumes "search_ok M"
  shows "framed (parse_length_prefixed M) b"
  by (rule framed_number [OF assms length_prefixed_payload]) (intro framed_if framed_const framed_payload, simp)

lemma framed_blobs:
  assumes "search_ok M"
  shows "framed (parse_blob_error M) b" "framed (parse_verbatim M) b"
  by (rule framed_map [OF framed_length_prefixed [OF assms]], simp add: parse_blob_error_def, simp split: if_splits)
    (rule framed_map [OF framed_length_prefixed [OF assms]], simp add: parse_verbatim_def, simp split: if_splits)

subsection \<open>Aggregates\<close>

definition framed_behind :: "(bytes \<Rightarrow> resp_error + 'a \<times> nat) \<Rightarrow> bytes \<Rightarrow> bool" where
  "framed_behind p b \<longleftrightarrow> (\<forall>q. 0 < q \<and> q < length b \<longrightarrow> framed p (drop q b))"

lemma behind_stable:
  assumes "framed_behind p b" "0 < q" "q < length b" "p (drop q b) \<noteq> Inl Incomplete"
  shows "p (drop q (b @ t)) = p (drop q b)"
  using assms framed_stable [of p "drop q b" t] by (simp add: framed_behind_def)

lemma behind_bound:
  "framed_behind p b \<Longrightarrow> 0 < q \<Longrightarrow> q < length b \<Longrightarrow> p (drop q b) = Inr (v, n) \<Longrightarrow> q + n \<le> length b"
  using framed_bound [of p "drop q b" v n] by (auto simp: framed_behind_def)

lemma elements_bound:
  assumes "framed_behind p b" "0 < q" "q \<le> length b" "parse_elements p b n q = Inr (vs, q')"
  shows "q \<le> q' \<and> q' \<le> length b \<and> length vs = n"
  using assms(2-4)
proof (induction n arbitrary: q vs)
  case (Suc n)
  then obtain v m vs' where s: "q < length b" "p (drop q b) = Inr (v, m)" "parse_elements p b n (q + m) = Inr (vs', q')" "vs = v # vs'"
    by (auto split: if_splits sum.splits prod.splits)
  then show ?case using Suc.IH [of "q + m" vs'] behind_bound [OF assms(1) Suc.prems(1) s(1,2)] Suc.prems(1) by simp
qed simp

lemma elements_stable:
  assumes "framed_behind p b" "0 < q" "q \<le> length b" "parse_elements p b n q \<noteq> Inl Incomplete"
  shows "parse_elements p (b @ t) n q = parse_elements p b n q"
  using assms(2-4)
proof (induction n arbitrary: q)
  case (Suc n)
  have q: "q < length b" "p (drop q b) \<noteq> Inl Incomplete" using Suc.prems by (auto split: if_splits)
  note eq = behind_stable [OF assms(1) Suc.prems(1) q]
  show ?case
  proof (cases "p (drop q b)")
    case (Inr r)
    then obtain v m where r: "p (drop q b) = Inr (v, m)" by (cases r) auto
    have "parse_elements p b n (q + m) \<noteq> Inl Incomplete" using Suc.prems(3) q(1) r by (auto split: sum.splits)
    then have "parse_elements p (b @ t) n (q + m) = parse_elements p b n (q + m)"
      using behind_bound [OF assms(1) Suc.prems(1) q(1) r] Suc.prems(1) by (intro Suc.IH) auto
    then show ?thesis using q(1) r eq by simp
  qed (use q(1) eq in simp)
qed simp

lemma entries_bound:
  assumes "framed_behind p b" "0 < q" "q \<le> length b" "parse_entries p b n q = Inr (es, q')"
  shows "q \<le> q' \<and> q' \<le> length b \<and> length es = n"
  using assms(2-4)
proof (induction n arbitrary: q es)
  case (Suc n)
  then obtain k m v l es' where s: "q < length b" "p (drop q b) = Inr (k, m)" "q + m < length b"
      "p (drop (q + m) b) = Inr (v, l)" "parse_entries p b n (q + m + l) = Inr (es', q')" "es = (k, v) # es'"
    by (auto simp: Let_def split: if_splits sum.splits prod.splits)
  then show ?case
    using Suc.IH [of "q + m + l" es'] behind_bound [OF assms(1) _ s(3,4)] Suc.prems(1) by simp
qed simp

lemma entries_stable:
  assumes "framed_behind p b" "0 < q" "q \<le> length b" "parse_entries p b n q \<noteq> Inl Incomplete"
  shows "parse_entries p (b @ t) n q = parse_entries p b n q"
  using assms(2-4)
proof (induction n arbitrary: q)
  case (Suc n)
  have q: "q < length b" "p (drop q b) \<noteq> Inl Incomplete" using Suc.prems by (auto split: if_splits)
  note eq = behind_stable [OF assms(1) Suc.prems(1) q]
  show ?case
  proof (cases "p (drop q b)")
    case (Inr r)
    then obtain k m where r: "p (drop q b) = Inr (k, m)" by (cases r) auto
    have m: "q + m < length b" "p (drop (q + m) b) \<noteq> Inl Incomplete"
      using Suc.prems(3) q(1) r by (auto simp: Let_def split: if_splits)
    have pos: "0 < q + m" using Suc.prems(1) by simp
    note eq2 = behind_stable [OF assms(1) pos m]
    show ?thesis
    proof (cases "p (drop (q + m) b)")
      case (Inr r')
      then obtain v l where r': "p (drop (q + m) b) = Inr (v, l)" by (cases r') auto
      have "parse_entries p b n (q + m + l) \<noteq> Inl Incomplete"
        using Suc.prems(3) q(1) m(1) r r' by (auto simp: Let_def split: sum.splits)
      then have "parse_entries p (b @ t) n (q + m + l) = parse_entries p b n (q + m + l)"
        using behind_bound [OF assms(1) pos m(1) r'] Suc.prems(1) by (intro Suc.IH) auto
      then show ?thesis using q(1) m(1) r r' eq eq2 by (simp add: Let_def)
    qed (use q(1) m(1) r eq eq2 in \<open>simp add: Let_def\<close>)
  qed (use q(1) eq in simp)
qed simp

lemma framed_elements:
  assumes "framed_behind p b" "0 < q" "q \<le> length b"
  shows "framed (\<lambda>b. parse_elements p b n q) b"
proof (rule framedI)
  fix vs m
  assume "parse_elements p b n q = Inr (vs, m)"
  then show "0 < m \<and> m \<le> length b" using elements_bound [OF assms] assms(2) by fastforce
qed (rule elements_stable [OF assms])

lemma framed_entries:
  assumes "framed_behind p b" "0 < q" "q \<le> length b"
  shows "framed (\<lambda>b. parse_entries p b n q) b"
proof (rule framedI)
  fix vs m
  assume "parse_entries p b n q = Inr (vs, m)"
  then show "0 < m \<and> m \<le> length b" using entries_bound [OF assms] assms(2) by fastforce
qed (rule entries_stable [OF assms])

lemma framed_array:
  assumes "search_ok M" "framed_behind p b"
  shows "framed (parse_array M p) b"
proof (rule framed_number [OF assms(1) parse_array_def], goal_cases)
  case (1 n e)
  have "framed (\<lambda>b. parse_elements p b (nat n) (e + 2)) b"
    using parse_number_bound [OF assms(1) 1] by (intro framed_elements [OF assms(2)]) auto
  then have "framed (\<lambda>b. case parse_elements p b (nat n) (e + 2) of Inl e \<Rightarrow> Inl e | Inr (vs, q) \<Rightarrow> Inr (Array vs, q)) b"
    by (rule framed_map [OF _ refl]) simp
  then show ?case using parse_number_bound [OF assms(1) 1]
    by (cases "e + 2 < 2 ^ 64") (intro framed_if framed_const; simp add: usize_checked_add_def framed_const)+
qed

text \<open>A count on a line, then a body that starts behind the line.\<close>

lemma framed_count:
  assumes "search_ok M" "\<And>len q. 0 < q \<Longrightarrow> q \<le> length b \<Longrightarrow> framed (\<lambda>b. g b len q) b"
    and "\<And>b. p b = (case parse_count M what b of Inl e \<Rightarrow> Inl e | Inr (len, q) \<Rightarrow> g b len q)"
  shows "framed p b"
proof -
  have p: "p b = (case parse_number M b of Inl e \<Rightarrow> Inl e
      | Inr (len, e) \<Rightarrow>
        if len < 0 then Inl (InvalidFormat (''Invalid '' @ what @ '' length: '' @ int_to_string len))
        else if MAX_MULTIBULK_LEN < len then Inl MultibulkLengthExceeded
        else if 2 ^ 64 \<le> e + 2 then Inl Overflow else g b (nat len) (e + 2))" for b
    unfolding assms(3) parse_count_def by (auto simp: usize_checked_add_def split: sum.split)
  show ?thesis
  proof (rule framed_number [OF assms(1) p], goal_cases)
    case (1 n e)
    have "framed (\<lambda>b. g b (nat n) (e + 2)) b"
      using parse_number_bound [OF assms(1) 1] by (intro assms(2)) auto
    then show ?case by (intro framed_if framed_const) auto
  qed
qed

lemma framed_aggregates:
  assumes "search_ok M" "framed_behind p b"
  shows "framed (parse_map M p) b" "framed (parse_set M p) b" "framed (parse_push M p) b"
proof -
  show "framed (parse_map M p) b"
    by (rule framed_count [OF assms(1) _ parse_map_def], rule framed_map [OF framed_entries [OF assms(2)] refl]) simp_all
  show "framed (parse_set M p) b"
    by (rule framed_count [OF assms(1) _ parse_set_def], rule framed_map [OF framed_elements [OF assms(2)] refl]) simp_all
  show "framed (parse_push M p) b"
    by (rule framed_count [OF assms(1) _ parse_push_def], rule framed_map [OF framed_elements [OF assms(2)] refl]) simp_all
qed

lemma framed_attribute:
  assumes "search_ok M" "framed_behind p b" "framed_behind f b"
  shows "framed (parse_attribute M p f) b"
proof (rule framed_count [OF assms(1) _ parse_attribute_def], rule framedI, goal_cases)
  case (1 len q v n)
  then obtain es q' m where s: "parse_entries p b len q = Inr (es, q')" "q' < length b" "f (drop q' b) = Inr (v, m)" "n = q' + m"
    by (auto split: sum.splits prod.splits if_splits)
  then show ?case using entries_bound [OF assms(2) 1(1,2) s(1)] behind_bound [OF assms(3) _ s(2,3)] 1(1) by auto
next
  case (2 len q t)
  have "parse_entries p b len q \<noteq> Inl Incomplete" using 2(3) by auto
  note eq = entries_stable [OF assms(2) 2(1,2) this]
  show ?case
  proof (cases "parse_entries p b len q")
    case (Inr r)
    then obtain es q' where r: "parse_entries p b len q = Inr (es, q')" by (cases r) auto
    have "q' < length b" "f (drop q' b) \<noteq> Inl Incomplete" "0 < q'"
      using 2(1,3) r entries_bound [OF assms(2) 2(1,2) r] by (auto split: if_splits)
    then show ?thesis using behind_stable [OF assms(3), of q' t] eq r by simp
  qed (use eq in simp)
qed

section \<open>The parser of values\<close>

definition dispatch :: "search_ext \<Rightarrow> nat \<Rightarrow> bool \<Rightarrow> char \<Rightarrow> bytes \<Rightarrow> parsed" where
  "dispatch M depth i c =
     (let p = (\<lambda>b. parse_value_depth M b (depth + 1) False) in
      if c = CHR ''+'' then parse_simple_string M
      else if c = CHR ''-'' then parse_error M
      else if c = CHR '':'' then parse_integer M
      else if c = CHR ''$'' then parse_bulk_string M
      else if c = CHR ''*'' then parse_array M p
      else if c = CHR ''#'' then parse_boolean
      else if c = CHR '','' then parse_double M
      else if c = CHR ''%'' then parse_map M p
      else if c = CHR ''~'' then parse_set M p
      else if c = CHR ''_'' then parse_null
      else if c = CHR ''('' then parse_big_number M
      else if c = CHR ''!'' then parse_blob_error M
      else if c = CHR ''='' then parse_verbatim M
      else if c = CHR ''>'' then parse_push M p
      else if c = CHR ''|'' then parse_attribute M p (\<lambda>b. parse_value_depth M b depth False)
      else if i \<and> depth = 0 then parse_inline M
      else (\<lambda>_. Inl (InvalidFormat (''Unexpected type identifier: '' @ nat_to_string (of_char c)))))"

lemma parse_value_depth_dispatch:
  "parse_value_depth M b depth i =
     (if b = [] then Inl Incomplete else if MAX_DEPTH < depth then Inl DepthExceeded else dispatch M depth i (hd b) b)"
  by (subst parse_value_depth.simps) (simp add: dispatch_def Let_def del: One_nat_def)

lemma framed_choice: "framed p b \<Longrightarrow> framed q b \<Longrightarrow> framed (if c then p else q) b"
  by simp

lemma framed_dispatch:
  assumes "search_ok M" "\<And>depth. framed_behind (\<lambda>b. parse_value_depth M b depth False) b"
  shows "framed (dispatch M depth i c) b"
proof -
  note lines = framed_lines [OF assms(1)] framed_bulk_string [OF assms(1)] framed_boolean framed_null
    framed_blobs [OF assms(1)] framed_inline [OF assms(1)]
  have "framed (\<lambda>_. Inl (InvalidFormat s)) b" for s :: string by (rule framed_const) simp
  then show ?thesis unfolding dispatch_def Let_def
    by (intro framed_choice lines framed_array framed_aggregates framed_attribute assms)
qed

lemma parse_value_depth_framed:
  assumes "search_ok M"
  shows "framed (\<lambda>b. parse_value_depth M b depth i) b"
proof (induction "length b" arbitrary: b depth i rule: less_induct)
  case less
  have "framed_behind (\<lambda>b. parse_value_depth M b depth False) b" for depth
    by (auto simp: framed_behind_def intro!: less)
  note d = framed_dispatch [OF assms this, of depth i "hd b"]
  show ?case
  proof (cases "b = [] \<or> MAX_DEPTH < depth")
    case False
    then show ?thesis
      using framed_bound [OF d] framed_stable [OF d]
      by (intro framedI) (simp_all add: parse_value_depth_dispatch)
  qed (auto simp: framed_def parse_value_depth_dispatch)
qed

section \<open>Values within the limits\<close>

text \<open>\<open>received d v\<close>: a value the parser may return with \<open>d\<close> levels of nesting left.\<close>

definition big_number :: "string \<Rightarrow> bool" where
  "big_number s \<longleftrightarrow>
     (let body = (case s of [] \<Rightarrow> s | c # cs \<Rightarrow> if c = CHR ''+'' \<or> c = CHR ''-'' then cs else s)
      in body \<noteq> [] \<and> list_all is_ascii_digit body)"

fun received :: "nat \<Rightarrow> resp_value \<Rightarrow> bool" where
  "received d (SimpleString s) = (utf8_valid s \<and> line_end s = None)"
| "received d (Error s) = utf8_valid s"
| "received d (Integer i) = in_i64 i"
| "received d (BulkString b) = (length b \<le> MAX_BULK_LEN)"
| "received d (Array vs) = (int (length vs) \<le> MAX_MULTIBULK_LEN \<and> list_all (\<lambda>v. 0 < d \<and> received (d - 1) v) vs)"
| "received d (SetValue vs) = (int (length vs) \<le> MAX_MULTIBULK_LEN \<and> list_all (\<lambda>v. 0 < d \<and> received (d - 1) v) vs)"
| "received d (Push vs) = (int (length vs) \<le> MAX_MULTIBULK_LEN \<and> list_all (\<lambda>v. 0 < d \<and> received (d - 1) v) vs)"
| "received d (MapValue es) =
     (int (length es) \<le> MAX_MULTIBULK_LEN \<and> list_all (\<lambda>(k, v). 0 < d \<and> received (d - 1) k \<and> received (d - 1) v) es)"
| "received d (BigNumber s) = big_number s"
| "received d (VerbatimString f data) = (length f = 3 \<and> 4 + length data \<le> MAX_BULK_LEN)"
| "received d v = True"

lemma elements_all:
  assumes "\<And>q v m. 0 < q \<Longrightarrow> q < length b \<Longrightarrow> p (drop q b) = Inr (v, m) \<Longrightarrow> P v"
    and "0 < q" "parse_elements p b n q = Inr (vs, q')"
  shows "list_all P vs \<and> length vs = n"
  using assms(2,3)
proof (induction n arbitrary: q vs)
  case (Suc n)
  then obtain v m vs' where s: "q < length b" "p (drop q b) = Inr (v, m)" "parse_elements p b n (q + m) = Inr (vs', q')" "vs = v # vs'"
    by (auto split: if_splits sum.splits prod.splits)
  then show ?case using Suc.IH [of "q + m" vs'] assms(1) [OF Suc.prems(1) s(1,2)] Suc.prems(1) by simp
qed simp

lemma entries_all:
  assumes "\<And>q v m. 0 < q \<Longrightarrow> q < length b \<Longrightarrow> p (drop q b) = Inr (v, m) \<Longrightarrow> P v"
    and "0 < q" "parse_entries p b n q = Inr (es, q')"
  shows "list_all (\<lambda>(k, v). P k \<and> P v) es \<and> length es = n"
  using assms(2,3)
proof (induction n arbitrary: q es)
  case (Suc n)
  then obtain k m v l es' where s: "q < length b" "p (drop q b) = Inr (k, m)" "q + m < length b"
      "p (drop (q + m) b) = Inr (v, l)" "parse_entries p b n (q + m + l) = Inr (es', q')" "es = (k, v) # es'"
    by (auto simp: Let_def split: if_splits sum.splits prod.splits)
  then show ?case
    using Suc.IH [of "q + m + l" es'] assms(1) [OF Suc.prems(1) s(1,2)] assms(1) [OF _ s(3,4)] Suc.prems(1) by simp
qed simp

lemma parse_line_text:
  assumes "search_ok M" "parse_line M b = Inr (s, e)"
  shows "utf8_valid s" "line_end s = None"
proof -
  have e: "line_end b = Some e" "s = slice b 1 e" "utf8_valid s"
    using assms by (auto simp: parse_line_def find_crlf_eq Let_def split: option.splits if_splits)
  show "utf8_valid s" by (rule e(3))
  have "crlf_at b (j + 1)" "j + 1 < e" if "crlf_at s j" for j
    using that line_end_bound [OF e(1)] by (auto simp: crlf_at_def e(2) slice_def)
  then show "line_end s = None" using e(1) by (auto simp: line_end_Some_iff line_end_None_iff)
qed

lemma parse_i64_range: "parse_i64 s = Some i \<Longrightarrow> in_i64 i"
  by (auto simp: parse_i64_def parse_i64_radix_def Let_def split: if_splits option.splits)

definition yields :: "(bytes \<Rightarrow> resp_error + 'a \<times> nat) \<Rightarrow> bytes \<Rightarrow> ('a \<Rightarrow> bool) \<Rightarrow> bool" where
  "yields p b P \<longleftrightarrow> (\<forall>v n. p b = Inr (v, n) \<longrightarrow> P v)"

lemma yields_choice: "yields p b P \<Longrightarrow> yields q b P \<Longrightarrow> yields (if c then p else q) b P"
  by simp

lemma yields_lines:
  assumes "search_ok M"
  shows "yields (parse_simple_string M) b (received d)" "yields (parse_error M) b (received d)"
    "yields (parse_integer M) b (received d)" "yields (parse_double M) b (received d)"
    "yields (parse_big_number M) b (received d)" "yields parse_boolean b (received d)" "yields parse_null b (received d)"
  using parse_line_text [OF assms]
  by (auto simp: yields_def parse_simple_string_def parse_error_def parse_integer_def parse_number_def parse_double_def
      parse_big_number_def big_number_def parse_boolean_def parse_null_def Let_def
      split: sum.splits option.splits if_splits list.splits intro: parse_i64_range)

lemma length_prefixed_bound: "parse_length_prefixed M b = Inr (data, n) \<Longrightarrow> length data \<le> MAX_BULK_LEN"
  by (auto simp: length_prefixed_payload split: sum.splits if_splits dest: payload_bound)

lemma yields_payloads:
  "yields (parse_bulk_string M) b (received d)" "yields (parse_blob_error M) b (received d)"
  "yields (parse_verbatim M) b (received d)"
  by (auto simp: yields_def bulk_string_payload parse_blob_error_def parse_verbatim_def
      split: sum.splits if_splits dest!: payload_bound length_prefixed_bound)

lemma split_on_parts: "tok \<in> set (split_on sep s) \<Longrightarrow> length tok \<le> length s"
  by (induction s arbitrary: tok) (fastforce split: if_splits list.splits)+

lemma split_on_count: "length (split_on sep s) \<le> Suc (length s)"
  by (induction s) (auto split: list.split)

lemma yields_inline:
  assumes "search_ok M" "0 < d"
  shows "yields (parse_inline M) b (received d)"
proof -
  have "received d (Array (map BulkString (filter P (split_on sep s))))" if "length s \<le> MAX_INLINE_LEN" for P sep s
  proof -
    have "length (filter P (split_on sep s)) \<le> Suc (length s)"
      by (rule order_trans [OF length_filter_le split_on_count])
    then have "int (length (filter P (split_on sep s))) \<le> MAX_MULTIBULK_LEN"
      using that by (simp add: MAX_INLINE_LEN_def MAX_MULTIBULK_LEN_def)
    moreover have "length tok \<le> MAX_BULK_LEN" if "tok \<in> set (split_on sep s)" for tok
      using split_on_parts [OF that] \<open>length s \<le> MAX_INLINE_LEN\<close> by (simp add: MAX_INLINE_LEN_def MAX_BULK_LEN_def)
    ultimately show ?thesis using assms(2) by (simp add: list_all_iff)
  qed
  then show ?thesis
    by (auto simp: yields_def parse_inline_def Let_def split: option.splits if_splits)
qed

lemma parse_count_bound: "parse_count M what b = Inr (len, q) \<Longrightarrow> int len \<le> MAX_MULTIBULK_LEN"
  by (auto simp: parse_count_def split: sum.splits if_splits option.splits)

lemma yields_aggregates:
  assumes p: "\<And>q v m. 0 < q \<Longrightarrow> q < length b \<Longrightarrow> p (drop q b) = Inr (v, m) \<Longrightarrow> 0 < d \<and> received (d - 1) v"
  shows "yields (parse_array M p) b (received d)" "yields (parse_map M p) b (received d)"
    "yields (parse_set M p) b (received d)" "yields (parse_push M p) b (received d)"
proof -
  have el: "list_all (\<lambda>v. 0 < d \<and> received (d - 1) v) vs \<and> length vs = n"
    if "0 < q" "parse_elements p b n q = Inr (vs, q')" for q n vs q'
    by (rule elements_all [OF _ that]) (rule p)
  have en: "list_all (\<lambda>(k, v). (0 < d \<and> received (d - 1) k) \<and> 0 < d \<and> received (d - 1) v) es \<and> length es = n"
    if "0 < q" "parse_entries p b n q = Inr (es, q')" for q n es q'
    by (rule entries_all [OF _ that]) (rule p)
  show "yields (parse_array M p) b (received d)"
    unfolding yields_def
  proof (intro allI impI)
    fix v n
    assume a: "parse_array M p b = Inr (v, n)"
    then obtain len e where pn: "parse_number M b = Inr (len, e)" by (cases "parse_number M b") (auto simp: parse_array_def)
    show "received d v"
    proof (cases "len = - 1")
      case False
      then have len: "0 \<le> len" "len \<le> MAX_MULTIBULK_LEN" "e + 2 < 2 ^ 64"
        using a pn by (auto simp: parse_array_def usize_checked_add_def split: if_splits)
      then obtain vs where vs: "parse_elements p b (nat len) (e + 2) = Inr (vs, n)" "v = Array vs"
        using a pn False by (cases "parse_elements p b (nat len) (e + 2)") (auto simp: parse_array_def usize_checked_add_def)
      show ?thesis using el [OF _ vs(1)] len vs(2) by simp
    qed (use a pn in \<open>simp add: parse_array_def\<close>)
  qed
  have count: "0 < q \<and> int len \<le> MAX_MULTIBULK_LEN" if "parse_count M what b = Inr (len, q)" for what len q
    using that parse_count_bound [OF that] parse_count_position [OF that] by simp
  show "yields (parse_map M p) b (received d)"
    unfolding yields_def
  proof (intro allI impI)
    fix v n
    assume "parse_map M p b = Inr (v, n)"
    then obtain len q es where s: "parse_count M ''map'' b = Inr (len, q)" "parse_entries p b len q = Inr (es, n)" "v = MapValue es"
      by (auto simp: parse_map_def split: sum.splits prod.splits)
    show "received d v" using en [OF _ s(2)] count [OF s(1)] s(3) by (auto simp: list_all_iff)
  qed
  show "yields (parse_set M p) b (received d)"
    unfolding yields_def
  proof (intro allI impI)
    fix v n
    assume "parse_set M p b = Inr (v, n)"
    then obtain len q vs where s: "parse_count M ''set'' b = Inr (len, q)" "parse_elements p b len q = Inr (vs, n)" "v = SetValue vs"
      by (auto simp: parse_set_def split: sum.splits prod.splits)
    show "received d v" using el [OF _ s(2)] count [OF s(1)] s(3) by simp
  qed
  show "yields (parse_push M p) b (received d)"
    unfolding yields_def
  proof (intro allI impI)
    fix v n
    assume "parse_push M p b = Inr (v, n)"
    then obtain len q vs where s: "parse_count M ''push'' b = Inr (len, q)" "parse_elements p b len q = Inr (vs, n)" "v = Push vs"
      by (auto simp: parse_push_def split: sum.splits prod.splits)
    show "received d v" using el [OF _ s(2)] count [OF s(1)] s(3) by simp
  qed
qed

lemma yields_attribute:
  assumes f: "\<And>q v m. 0 < q \<Longrightarrow> q < length b \<Longrightarrow> f (drop q b) = Inr (v, m) \<Longrightarrow> received d v"
  shows "yields (parse_attribute M p f) b (received d)"
  unfolding yields_def
proof (intro allI impI)
  fix v n
  assume "parse_attribute M p f b = Inr (v, n)"
  then obtain len q es q' m where s: "parse_count M ''attribute'' b = Inr (len, q)" "parse_entries p b len q = Inr (es, q')"
      "q' < length b" "f (drop q' b) = Inr (v, m)"
    by (auto simp: parse_attribute_def split: sum.splits prod.splits if_splits)
  have "0 < q'" using parse_count_position [OF s(1)] parse_entries_position [OF s(2)] by simp
  from f [OF this s(3,4)] show "received d v" .
qed

lemma parse_value_depth_received:
  assumes "search_ok M" "parse_value_depth M b depth i = Inr (v, n)"
  shows "depth \<le> MAX_DEPTH \<and> received (MAX_DEPTH - depth) v"
  using assms(2)
proof (induction "length b" arbitrary: b depth i v n rule: less_induct)
  case less
  let ?d = "MAX_DEPTH - depth"
  have b: "b \<noteq> []" "depth \<le> MAX_DEPTH" "dispatch M depth i (hd b) b = Inr (v, n)"
    using less.prems by (auto simp: parse_value_depth_dispatch split: if_splits)
  have short: "length (drop q b) < length b" if "0 < q" "q < length b" for q using that by simp
  have p: "0 < ?d \<and> received (?d - 1) w"
    if "0 < q" "q < length b" "parse_value_depth M (drop q b) (depth + 1) False = Inr (w, m)" for q w m
    using less.hyps [OF short [OF that(1,2)] that(3)] by simp
  have f: "received ?d w"
    if "0 < q" "q < length b" "parse_value_depth M (drop q b) depth False = Inr (w, m)" for q w m
    using less.hyps [OF short [OF that(1,2)] that(3)] by simp
  have fmt: "yields (\<lambda>_. Inl (InvalidFormat s)) b (received ?d)" for s by (simp add: yields_def)
  have inl: "yields (if i \<and> depth = 0 then parse_inline M else q) b (received ?d)"
    if "yields q b (received ?d)" for q
    using that yields_inline [OF assms(1), of ?d b] by (cases "depth = 0") (simp_all add: MAX_DEPTH_def)
  have "yields (dispatch M depth i (hd b)) b (received ?d)"
    unfolding dispatch_def Let_def
    by (intro yields_choice [where c = "hd b = _"] yields_lines [OF assms(1)] yields_payloads yields_aggregates yields_attribute p f inl fmt)
  then show ?case using b(2,3) by (auto simp: yields_def)
qed

section \<open>Progress\<close>

text \<open>Whatever the searches return, a value uses at least one byte.\<close>

definition advances :: "(bytes \<Rightarrow> resp_error + 'a \<times> nat) \<Rightarrow> bytes \<Rightarrow> bool" where
  "advances p b \<longleftrightarrow> (\<forall>v n. p b = Inr (v, n) \<longrightarrow> 0 < n)"

lemma advances_choice: "advances p b \<Longrightarrow> advances q b \<Longrightarrow> advances (if c then p else q) b"
  by simp

lemma advances_lines:
  "advances (parse_simple_string M) b" "advances (parse_error M) b" "advances (parse_integer M) b"
  "advances (parse_double M) b" "advances (parse_big_number M) b" "advances parse_boolean b" "advances parse_null b"
  "advances (parse_inline M) b"
  by (auto simp: advances_def parse_simple_string_def parse_error_def parse_integer_def parse_double_def parse_big_number_def
      parse_boolean_def parse_null_def parse_inline_def Let_def split: sum.splits option.splits if_splits)

lemma advances_payloads:
  "advances (parse_bulk_string M) b" "advances (parse_blob_error M) b" "advances (parse_verbatim M) b"
  by (auto simp: advances_def bulk_string_payload parse_blob_error_def parse_verbatim_def length_prefixed_payload
      split: sum.splits if_splits dest: payload_bound)

lemma parse_elements_position: "parse_elements p b n q = Inr (vs, q') \<Longrightarrow> q \<le> q'"
  by (induction n arbitrary: q vs) (fastforce split: sum.splits prod.splits if_splits)+

lemma advances_elements:
  "advances (parse_array M p) b" "advances (parse_set M p) b" "advances (parse_push M p) b"
  by (auto simp: advances_def parse_array_def parse_set_def parse_push_def usize_checked_add_def
      split: sum.splits if_splits dest!: parse_elements_position parse_count_position)

lemma advances_entries: "advances (parse_map M p) b" "advances (parse_attribute M p f) b"
  by (auto simp: advances_def parse_map_def parse_attribute_def
      split: sum.splits if_splits dest!: parse_entries_position parse_count_position)

lemma parse_value_advances: "parse_value M b = Inr (v, n) \<Longrightarrow> 0 < n"
proof -
  assume "parse_value M b = Inr (v, n)"
  then have "dispatch M 0 True (hd b) b = Inr (v, n)"
    by (auto simp: parse_value_def parse_value_depth_dispatch split: if_splits)
  moreover have "advances (\<lambda>_. Inl (InvalidFormat s)) b" for s by (simp add: advances_def)
  then have "advances (dispatch M 0 True (hd b)) b"
    unfolding dispatch_def Let_def
    by (intro advances_choice advances_lines advances_payloads advances_elements advances_entries)
  ultimately show "0 < n" by (auto simp: advances_def)
qed

end
