(* ===== verification/Resp_Roundtrip.thy ===== *)
theory Resp_Roundtrip
  imports Resp_Laws
begin

text \<open>
  Encoding and parsing are inverse: the parser reads back what the encoder of either protocol
  version wrote, up to what that version can express (\<open>wire\<close>).
\<close>

section \<open>Numbers and payloads on the wire\<close>

lemma length_radix_digits_le: "length (radix_digits b n) \<le> Suc n"
proof (induction b n rule: radix_digits.induct)
  case (1 b n)
  show ?case
  proof (cases "b \<le> 1 \<or> n < b")
    case False
    then have "length (radix_digits b (n div b)) \<le> Suc (n div b)" using 1 by simp
    moreover have "n div b < n" using False by (intro div_less_dividend) auto
    ultimately have "length (radix_digits b (n div b)) \<le> n" by linarith
    then show ?thesis using False by (subst radix_digits.simps) simp
  qed (subst radix_digits.simps, simp)
qed

lemma length_number: "length (nat_to_string n) \<le> Suc n"
  using length_radix_digits_le by (simp add: nat_to_string_def nat_to_radix_def)

lemma plain_number: "list_all plain (nat_to_string n)"
  using plain_int [of "int n"] by (simp add: int_to_string_def)

lemma parse_line_frame:
  assumes "search_ok M" "c \<noteq> CHR 0x0D" "line_end s = None" "utf8_valid s"
  shows "parse_line M (c # s @ CRLF @ t) = Inr (s, Suc (length s))"
proof -
  have "find_crlf M (c # s @ CRLF @ t) = Some (Suc (length s))"
    using line_end_line [OF assms(3), of t] by (simp add: find_crlf_eq [OF assms(1)] line_end_Cons [OF assms(2)])
  then show ?thesis using assms(4) by (simp add: parse_line_def slice_def)
qed

lemma parse_plain_line:
  assumes "search_ok M" "c \<noteq> CHR 0x0D" "list_all plain s"
  shows "parse_line M (c # s @ CRLF @ t) = Inr (s, Suc (length s))"
  using assms plain_line [OF assms(3)] by (intro parse_line_frame line_end_no_cr) auto

lemma parse_number_frame:
  assumes "search_ok M" "c \<noteq> CHR 0x0D" "in_i64 i"
  shows "parse_number M (c # int_to_string i @ CRLF @ t) = Inr (i, Suc (length (int_to_string i)))"
  using parse_plain_line [OF assms(1,2) plain_int, of i t] assms(3) by (simp add: parse_number_def)

lemma parse_length_frame:
  assumes "search_ok M" "c \<noteq> CHR 0x0D" "int n \<le> i64_max"
  shows "parse_number M (c # nat_to_string n @ CRLF @ t) = Inr (int n, Suc (length (nat_to_string n)))"
  using parse_number_frame [OF assms(1,2), of "int n" t] assms(3) by (simp add: int_to_string_def in_i64_def i64_min_def)

lemma payload_frame:
  assumes "length data \<le> MAX_BULK_LEN"
  shows "payload (c # nat_to_string (length data) @ CRLF @ data @ CRLF @ t) (Suc (length (nat_to_string (length data)))) (length data) msg =
    Inr (data, length (bulk c data))"
proof -
  define k n b where "k = length (nat_to_string (length data))" and "n = length data"
    and "b = c # nat_to_string (length data) @ CRLF @ data @ CRLF @ t"
  have small: "\<not> 2 ^ 64 \<le> k + n + 5"
    using length_number [of "length data"] assms by (simp add: MAX_BULK_LEN_def k_def n_def)
  have h: "length (c # nat_to_string n @ CRLF) = k + 3" "length (c # nat_to_string n @ CRLF @ data) = k + n + 3"
    by (simp_all add: CRLF_def k_def n_def)
  have s: "slice b (k + 3) (k + n + 3) = data" "slice b (k + n + 3) (k + n + 5) = CRLF"
    using slice_append [of "c # nat_to_string n @ CRLF" "data @ CRLF @ t" n]
      slice_append [of "c # nat_to_string n @ CRLF @ data" "CRLF @ t" 2]
    unfolding h by (simp_all add: b_def n_def [symmetric] add.commute add.left_commute) (simp_all add: n_def CRLF_def ac_simps)
  have i: "Suc k + n + 2 = k + n + 3" "Suc k + n + 4 = k + n + 5" "Suc k + 2 = k + 3" by simp_all
  have "\<not> length b < k + n + 5" by (simp add: b_def k_def n_def CRLF_def)
  then have "payload b (Suc k) n msg = Inr (data, k + n + 5)"
    using assms small unfolding payload_def i s n_def [symmetric] by simp
  then show ?thesis by (simp add: b_def k_def n_def bulk_def CRLF_def)
qed

lemma parse_bulk_frame:
  assumes "search_ok M" "length data \<le> MAX_BULK_LEN"
  shows "parse_bulk_string M (bulk (CHR ''$'') data @ t) = Inr (BulkString data, length (bulk (CHR ''$'') data))"
    "parse_length_prefixed M (bulk (CHR ''='') data @ t) = Inr (data, length (bulk (CHR ''='') data))"
proof -
  have "int (length data) \<le> i64_max" using assms(2) by (simp add: MAX_BULK_LEN_def i64_max_def)
  note l = parse_length_frame [OF assms(1) _ this] and p = payload_frame [OF assms(2)]
  show "parse_bulk_string M (bulk (CHR ''$'') data @ t) = Inr (BulkString data, length (bulk (CHR ''$'') data))"
    unfolding bulk_string_payload bulk_def using l [of "CHR ''$''" "data @ CRLF @ t"] p [of "CHR ''$''" t] by (simp add: bulk_def)
  show "parse_length_prefixed M (bulk (CHR ''='') data @ t) = Inr (data, length (bulk (CHR ''='') data))"
    unfolding length_prefixed_payload bulk_def using l [of "CHR ''=''" "data @ CRLF @ t"] p [of "CHR ''=''" t] by (simp add: bulk_def)
qed

section \<open>Elements on the wire\<close>

definition reads :: "(bytes \<Rightarrow> parsed) \<Rightarrow> bytes \<Rightarrow> resp_value \<Rightarrow> bool" where
  "reads p f w \<longleftrightarrow> f \<noteq> [] \<and> (\<forall>t. p (f @ t) = Inr (w, length f))"

lemma elements_frames:
  assumes "list_all (\<lambda>(f, w). reads p f w) fs"
  shows "parse_elements p (h @ concat (map fst fs) @ t) (length fs) (length h) =
    Inr (map snd fs, length h + length (concat (map fst fs)))"
  using assms
proof (induction fs arbitrary: h)
  case (Cons x fs)
  obtain f w where x: "x = (f, w)" by fastforce
  have r: "f \<noteq> []" "p (f @ concat (map fst fs) @ t) = Inr (w, length f)" using Cons.prems by (simp_all add: x reads_def)
  have "parse_elements p ((h @ f) @ concat (map fst fs) @ t) (length fs) (length (h @ f)) =
      Inr (map snd fs, length (h @ f) + length (concat (map fst fs)))"
    using Cons.prems by (intro Cons.IH) simp
  with r show ?case by (simp add: x)
qed simp

lemma entries_frames:
  assumes "list_all (\<lambda>((f, w), (g, u)). reads p f w \<and> reads p g u) fs"
  shows "parse_entries p (h @ concat (map (\<lambda>((f, w), (g, u)). f @ g) fs) @ t) (length fs) (length h) =
    Inr (map (\<lambda>((f, w), (g, u)). (w, u)) fs, length h + length (concat (map (\<lambda>((f, w), (g, u)). f @ g) fs)))"
  using assms
proof (induction fs arbitrary: h)
  case (Cons x fs)
  obtain f w g u where x: "x = ((f, w), (g, u))" by (cases x) auto
  let ?r = "concat (map (\<lambda>((f, w), (g, u)). f @ g) fs)"
  have r: "f \<noteq> []" "p (f @ g @ ?r @ t) = Inr (w, length f)" "g \<noteq> []" "p (g @ ?r @ t) = Inr (u, length g)"
    using Cons.prems by (simp_all add: x reads_def)
  have "parse_entries p ((h @ f @ g) @ ?r @ t) (length fs) (length (h @ f @ g)) =
      Inr (map (\<lambda>((f, w), (g, u)). (w, u)) fs, length (h @ f @ g) + length ?r)"
    using Cons.prems by (intro Cons.IH) simp
  with r show ?case by (simp add: x Let_def add.assoc)
qed simp

lemma parse_count_frame:
  assumes "search_ok M" "c \<noteq> CHR 0x0D" "int n \<le> MAX_MULTIBULK_LEN"
  shows "parse_count M what (c # nat_to_string n @ CRLF @ t) = Inr (n, length (c # nat_to_string n @ CRLF))"
proof -
  have "int n \<le> i64_max" using assms(3) by (simp add: MAX_MULTIBULK_LEN_def i64_max_def)
  note l = parse_length_frame [OF assms(1,2) this, of t]
  have "length (nat_to_string n) + 3 < 2 ^ 64" using length_number [of n] assms(3) by (simp add: MAX_MULTIBULK_LEN_def)
  with l assms(3) show ?thesis by (simp add: parse_count_def usize_checked_add_def CRLF_def)
qed

lemma parse_array_count:
  "parse_number M b = Inr (len, e) \<Longrightarrow> 0 \<le> len \<Longrightarrow>
   parse_array M p b = (case parse_count M ''array'' b of Inl e \<Rightarrow> Inl e
     | Inr (len, q) \<Rightarrow> (case parse_elements p b len q of Inl e \<Rightarrow> Inl e | Inr (vs, q) \<Rightarrow> Inr (Array vs, q)))"
  by (auto simp: parse_array_def parse_count_def split: option.splits)

lemma parse_elements_frame:
  assumes "search_ok M" "c \<noteq> CHR 0x0D" "int (length fs) \<le> MAX_MULTIBULK_LEN" "list_all (\<lambda>(f, w). reads p f w) fs"
  shows "parse_array M p (aggregate c (map fst fs) @ t) = Inr (Array (map snd fs), length (aggregate c (map fst fs)))"
    "parse_set M p (aggregate c (map fst fs) @ t) = Inr (SetValue (map snd fs), length (aggregate c (map fst fs)))"
    "parse_push M p (aggregate c (map fst fs) @ t) = Inr (Push (map snd fs), length (aggregate c (map fst fs)))"
proof -
  let ?h = "c # nat_to_string (length fs) @ CRLF"
  have b: "aggregate c (map fst fs) @ t = ?h @ concat (map fst fs) @ t" by (simp add: aggregate_def)
  have n: "length (aggregate c (map fst fs)) = length ?h + length (concat (map fst fs))" by (simp add: aggregate_def)
  have "int (length fs) \<le> i64_max" using assms(3) by (simp add: MAX_MULTIBULK_LEN_def i64_max_def)
  note l = parse_length_frame [OF assms(1,2) this, of "concat (map fst fs) @ t"]
  note c = parse_count_frame [OF assms(1-3), where t = "concat (map fst fs) @ t"]
  note e = elements_frames [OF assms(4), of ?h t]
  show "parse_array M p (aggregate c (map fst fs) @ t) = Inr (Array (map snd fs), length (aggregate c (map fst fs)))"
    unfolding b n using parse_array_count [of M "?h @ concat (map fst fs) @ t"] l c e by simp
  show "parse_set M p (aggregate c (map fst fs) @ t) = Inr (SetValue (map snd fs), length (aggregate c (map fst fs)))"
    unfolding b n parse_set_def using c e by simp
  show "parse_push M p (aggregate c (map fst fs) @ t) = Inr (Push (map snd fs), length (aggregate c (map fst fs)))"
    unfolding b n parse_push_def using c e by simp
qed

section \<open>Values on the wire\<close>

text \<open>An error is written as a line, so its text may not contain a CRLF.\<close>

fun one_line :: "resp_value \<Rightarrow> bool" where
  "one_line (Error s) = (line_end s = None)"
| "one_line (Array vs) = list_all one_line vs"
| "one_line (SetValue vs) = list_all one_line vs"
| "one_line (Push vs) = list_all one_line vs"
| "one_line (MapValue es) = list_all (\<lambda>(k, v). one_line k \<and> one_line v) es"
| "one_line v = True"

lemma parse_by_dispatch:
  "d \<le> MAX_DEPTH \<Longrightarrow> parse_value_depth M (c # b) (MAX_DEPTH - d) i = dispatch M (MAX_DEPTH - d) i c (c # b)"
  using diff_le_self [of MAX_DEPTH d] by (auto simp: parse_value_depth_dispatch)

abbreviation nested :: "search_ext \<Rightarrow> nat \<Rightarrow> bytes \<Rightarrow> parsed" where
  "nested M d \<equiv> \<lambda>b. parse_value_depth M b (MAX_DEPTH - d + 1) False"

lemma dispatch_simps:
  "dispatch M depth i (CHR ''+'') = parse_simple_string M" "dispatch M depth i (CHR ''-'') = parse_error M"
  "dispatch M depth i (CHR '':'') = parse_integer M" "dispatch M depth i (CHR ''$'') = parse_bulk_string M"
  "dispatch M depth i (CHR ''*'') = parse_array M (\<lambda>b. parse_value_depth M b (depth + 1) False)"
  "dispatch M depth i (CHR ''#'') = parse_boolean" "dispatch M depth i (CHR '','') = parse_double M"
  "dispatch M depth i (CHR ''%'') = parse_map M (\<lambda>b. parse_value_depth M b (depth + 1) False)"
  "dispatch M depth i (CHR ''~'') = parse_set M (\<lambda>b. parse_value_depth M b (depth + 1) False)"
  "dispatch M depth i (CHR ''_'') = parse_null" "dispatch M depth i (CHR ''('') = parse_big_number M"
  "dispatch M depth i (CHR ''='') = parse_verbatim M"
  "dispatch M depth i (CHR ''>'') = parse_push M (\<lambda>b. parse_value_depth M b (depth + 1) False)"
  "dispatch M depth i (CHR ''|'') =
     parse_attribute M (\<lambda>b. parse_value_depth M b (depth + 1) False) (\<lambda>b. parse_value_depth M b depth False)"
  by (simp_all add: dispatch_def Let_def)

definition roundtrips :: "search_ext \<Rightarrow> protocol_version \<Rightarrow> resp_value \<Rightarrow> bool" where
  "roundtrips M p v \<longleftrightarrow>
     (\<forall>d i. d \<le> MAX_DEPTH \<and> received d (wire p v) \<longrightarrow>
        reads (\<lambda>b. parse_value_depth M b (MAX_DEPTH - d) i) (encode_value v p) (wire p v))"

lemma reads_frame:
  assumes "d \<le> MAX_DEPTH" "\<And>t. dispatch M (MAX_DEPTH - d) i c (c # f @ t) = Inr (w, Suc (length f))"
  shows "reads (\<lambda>b. parse_value_depth M b (MAX_DEPTH - d) i) (c # f) w"
  using assms by (simp add: reads_def parse_by_dispatch)

lemma reads_bulk:
  assumes "search_ok M" "d \<le> MAX_DEPTH" "length data \<le> MAX_BULK_LEN"
  shows "reads (\<lambda>b. parse_value_depth M b (MAX_DEPTH - d) i) (bulk (CHR ''$'') data) (BulkString data)"
  using parse_bulk_frame(1) [OF assms(1,3)] unfolding bulk_def
  by (intro reads_frame [OF assms(2)]) (simp add: dispatch_simps)

lemma reads_line:
  assumes "search_ok M" "d \<le> MAX_DEPTH" "c \<noteq> CHR 0x0D" "line_end s = None" "utf8_valid s"
    and "\<And>b. parse_line M b = Inr (s, Suc (length s)) \<Longrightarrow> dispatch M (MAX_DEPTH - d) i c b = Inr (w, length s + 3)"
  shows "reads (\<lambda>b. parse_value_depth M b (MAX_DEPTH - d) i) (c # s @ CRLF) w"
proof (rule reads_frame [OF assms(2)])
  fix t
  have "dispatch M (MAX_DEPTH - d) i c (c # s @ CRLF @ t) = Inr (w, length s + 3)"
    by (rule assms(6)) (rule parse_line_frame [OF assms(1,3-5)])
  then show "dispatch M (MAX_DEPTH - d) i c (c # (s @ CRLF) @ t) = Inr (w, Suc (length (s @ CRLF)))" by (simp add: CRLF_def)
qed

lemma roundtrips_lines:
  assumes "search_ok M"
  shows "roundtrips M p (SimpleString s)" "line_end s = None \<Longrightarrow> roundtrips M p (Error s)" "roundtrips M p (Integer n)"
proof -
  have lines: "line_end (int_to_string n) = None" "utf8_valid (int_to_string n)" for n
    using plain_line [OF plain_int] by (auto intro: line_end_no_cr)
  show "roundtrips M p (SimpleString s)" unfolding roundtrips_def encode_value_simps
    by (auto intro!: reads_line [OF assms] simp: dispatch_simps parse_simple_string_def)
  show "line_end s = None \<Longrightarrow> roundtrips M p (Error s)" unfolding roundtrips_def encode_value_simps
    by (auto intro!: reads_line [OF assms] simp: dispatch_simps parse_error_def)
  show "roundtrips M p (Integer n)" unfolding roundtrips_def encode_value_simps
    using lines by (auto intro!: reads_line [OF assms] simp: dispatch_simps parse_integer_def parse_number_def)
qed

lemma reads_constant:
  assumes "search_ok M" "d \<le> MAX_DEPTH"
  shows "reads (\<lambda>b. parse_value_depth M b (MAX_DEPTH - d) i) (''_'' @ CRLF) NilValue"
    "reads (\<lambda>b. parse_value_depth M b (MAX_DEPTH - d) i) (''$-1'' @ CRLF) NilValue"
    "reads (\<lambda>b. parse_value_depth M b (MAX_DEPTH - d) i) (''*-1'' @ CRLF) NilArray"
    "reads (\<lambda>b. parse_value_depth M b (MAX_DEPTH - d) i) ((if t then ''#t'' else ''#f'') @ CRLF) (Boolean t)"
proof -
  have minus: "int_to_string (- 1) = ''-1''" by (simp add: int_to_string_def nat_to_string_def nat_to_radix_def radix_digits.simps digit_char_def char_of_def bit_0)
  note n = parse_number_frame [OF assms(1), of _ "- 1", unfolded minus]
  show "reads (\<lambda>b. parse_value_depth M b (MAX_DEPTH - d) i) (''_'' @ CRLF) NilValue"
    unfolding append.simps by (rule reads_frame [OF assms(2)]) (simp add: dispatch_simps parse_null_def slice_def CRLF_def)
  show "reads (\<lambda>b. parse_value_depth M b (MAX_DEPTH - d) i) (''$-1'' @ CRLF) NilValue"
    unfolding append.simps using n [of "CHR ''$''"]
    by (intro reads_frame [OF assms(2)]) (simp add: dispatch_simps parse_bulk_string_def in_i64_def i64_min_def i64_max_def CRLF_def)
  show "reads (\<lambda>b. parse_value_depth M b (MAX_DEPTH - d) i) (''*-1'' @ CRLF) NilArray"
    unfolding append.simps using n [of "CHR ''*''"]
    by (intro reads_frame [OF assms(2)]) (simp add: dispatch_simps parse_array_def in_i64_def i64_min_def i64_max_def CRLF_def)
  show "reads (\<lambda>b. parse_value_depth M b (MAX_DEPTH - d) i) ((if t then ''#t'' else ''#f'') @ CRLF) (Boolean t)"
    by (cases t; simp only: if_True if_False append.simps; rule reads_frame [OF assms(2)])
      (simp_all add: dispatch_simps parse_boolean_def slice_def CRLF_def)
qed

lemma roundtrips_scalars:
  assumes "search_ok M"
  shows "roundtrips M p NilValue" "roundtrips M p NilArray" "roundtrips M p (Boolean t)" "roundtrips M p (BulkString b)"
    "roundtrips M p (Double x)" "roundtrips M p (BigNumber s)" "roundtrips M p (VerbatimString f data)"
proof -
  note c = reads_constant [OF assms]
  show "roundtrips M p NilValue" "roundtrips M p NilArray"
    unfolding roundtrips_def encode_value_simps using c(1-3) by (auto simp: is_resp3_def)
  have "int_to_string (if t then 1 else 0) = (if t then ''1'' else ''0'')"
    by (simp add: int_to_string_def nat_to_string_def nat_to_radix_def radix_digits.simps digit_char_def char_of_def bit_0)
  then have "encode_value (Boolean t) Resp2 = encode_value (Integer (if t then 1 else 0)) Resp2"
    by (simp add: encode_value_simps is_resp3_def)
  then show "roundtrips M p (Boolean t)"
    using roundtrips_lines(3) [OF assms, of p "if t then 1 else 0"] c(4) [of _ _ t]
    unfolding roundtrips_def by (cases p) (auto simp: is_resp3_def encode_value_simps)
  show "roundtrips M p (BulkString b)"
    unfolding roundtrips_def encode_value_simps using reads_bulk [OF assms] by simp
  have "line_end (format_double x) = None" "utf8_valid (format_double x)"
    using plain_line [OF plain_format_double] by (auto intro: line_end_no_cr)
  then show "roundtrips M p (Double x)"
    unfolding roundtrips_def encode_value_simps
    by (auto intro!: reads_line [OF assms] reads_bulk [OF assms] simp: dispatch_simps parse_double_def parse_format_double)
  have "list_all plain s" if "big_number s"
    using that plain_digit by (cases s) (auto simp: big_number_def list_all_iff plain_def split: if_splits)
  then have "line_end s = None" "utf8_valid s" if "big_number s"
    using that plain_line [of s] by (auto intro: line_end_no_cr)
  then show "roundtrips M p (BigNumber s)"
    unfolding roundtrips_def encode_value_simps
    by (auto intro!: reads_line [OF assms] reads_bulk [OF assms] simp: dispatch_simps parse_big_number_def big_number_def Let_def)
  show "roundtrips M p (VerbatimString f data)"
  proof (cases p)
    case Resp2
    have "encode_value (VerbatimString f data) Resp2 = bulk (CHR ''$'') data"
      by (simp add: encode_value_def encode_bulk_def bulk_def is_resp3_def)
    then show ?thesis unfolding roundtrips_def Resp2 using reads_bulk [OF assms] by (simp add: is_resp3_def)
  next
    case Resp3
    have "reads (\<lambda>b. parse_value_depth M b (MAX_DEPTH - d) i) (bulk (CHR ''='') (f @ '':'' @ data)) (VerbatimString f data)"
      if "d \<le> MAX_DEPTH" "length f = 3" "4 + length data \<le> MAX_BULK_LEN" for d i
      using parse_bulk_frame(2) [OF assms, of "f @ '':'' @ data"] that unfolding bulk_def
      by (intro reads_frame [OF that(1)]) (simp add: dispatch_simps parse_verbatim_def nth_append)
    then show ?thesis unfolding roundtrips_def Resp3 by (simp add: encode_value_simps is_resp3_def)
  qed
qed

lemma nested_reads:
  assumes "roundtrips M p v" "0 < d" "d \<le> MAX_DEPTH" "received (d - 1) (wire p v)"
  shows "reads (nested M d) (encode_value v p) (wire p v)"
proof -
  have "MAX_DEPTH - (d - 1) = MAX_DEPTH - d + 1" using assms(2,3) by simp
  then show ?thesis using assms(1,3,4) unfolding roundtrips_def by (metis diff_le_self order_trans)
qed

lemma aggregate_nonempty: "aggregate c fs = c # tl (aggregate c fs)"
  by (simp add: aggregate_def)

lemma reads_aggregate:
  assumes "search_ok M" "d \<le> MAX_DEPTH" "int (length fs) \<le> MAX_MULTIBULK_LEN" "list_all (\<lambda>(f, w). reads (nested M d) f w) fs"
  shows "reads (\<lambda>b. parse_value_depth M b (MAX_DEPTH - d) i) (aggregate (CHR ''*'') (map fst fs)) (Array (map snd fs))"
    "reads (\<lambda>b. parse_value_depth M b (MAX_DEPTH - d) i) (aggregate (CHR ''~'') (map fst fs)) (SetValue (map snd fs))"
    "reads (\<lambda>b. parse_value_depth M b (MAX_DEPTH - d) i) (aggregate (CHR ''>'') (map fst fs)) (Push (map snd fs))"
  using parse_elements_frame [OF assms(1) _ assms(3,4)]
  by (subst aggregate_nonempty, intro reads_frame [OF assms(2)], simp add: dispatch_simps aggregate_def)+

lemma wire_elements:
  assumes "\<And>v. v \<in> set vs \<Longrightarrow> roundtrips M p v" "d \<le> MAX_DEPTH"
    and "list_all (\<lambda>v. 0 < d \<and> received (d - 1) v) (map (wire p) vs)"
  shows "list_all (\<lambda>(f, w). reads (nested M d) f w) (map (\<lambda>v. (encode_value v p, wire p v)) vs)"
  using assms nested_reads by (auto simp: list_all_iff)

lemma roundtrips_elements:
  assumes "search_ok M" "\<And>v. v \<in> set vs \<Longrightarrow> roundtrips M p v"
  shows "roundtrips M p (Array vs)" "roundtrips M p (SetValue vs)" "roundtrips M p (Push vs)"
proof -
  let ?fs = "map (\<lambda>v. (encode_value v p, wire p v)) vs"
  have m: "map fst ?fs = map (\<lambda>v. encode_value v p) vs" "map snd ?fs = map (wire p) vs" "length ?fs = length vs" by simp_all
  note r = reads_aggregate [OF assms(1), where fs = ?fs, unfolded m] and w = wire_elements [OF assms(2)]
  show "roundtrips M p (Array vs)" "roundtrips M p (SetValue vs)" "roundtrips M p (Push vs)"
    unfolding roundtrips_def encode_value_simps using r w by (auto simp: is_resp3_def)
qed

lemma roundtrips_map:
  assumes "search_ok M" "\<And>k v. (k, v) \<in> set es \<Longrightarrow> roundtrips M p k \<and> roundtrips M p v"
  shows "roundtrips M p (MapValue es)"
proof (cases p)
  case Resp2
  let ?vs = "concat (map (\<lambda>(k, v). [k, v]) es)"
  have e: "pair_frames Resp2 es = map (\<lambda>v. encode_value v Resp2) ?vs"
    "concat (map (\<lambda>(k, v). [wire Resp2 k, wire Resp2 v]) es) = map (wire Resp2) ?vs"
    by (induction es) (auto simp: pair_frames_def)
  have "roundtrips M Resp2 (Array ?vs)"
    using assms(2) by (intro roundtrips_elements(1) [OF assms(1)]) (auto simp: Resp2)
  then show ?thesis unfolding Resp2 roundtrips_def encode_value_simps wire.simps e by (simp add: is_resp3_def)
next
  case Resp3
  let ?fs = "map (\<lambda>(k, v). ((encode_value k p, wire p k), (encode_value v p, wire p v))) es"
  have f: "concat (map (\<lambda>((f, w), (g, u)). f @ g) ?fs) = concat (pair_frames p es)"
    "map (\<lambda>((f, w), (g, u)). (w, u)) ?fs = map (\<lambda>(k, v). (wire p k, wire p v)) es"
    by (induction es) (auto simp: pair_frames_def)
  have "reads (\<lambda>b. parse_value_depth M b (MAX_DEPTH - d) i)
      (CHR ''%'' # nat_to_string (length es) @ CRLF @ concat (pair_frames p es)) (MapValue (map (\<lambda>(k, v). (wire p k, wire p v)) es))"
    if d: "d \<le> MAX_DEPTH" and "received d (MapValue (map (\<lambda>(k, v). (wire p k, wire p v)) es))" for d i
  proof (rule reads_frame [OF d])
    fix t
    have n: "int (length es) \<le> MAX_MULTIBULK_LEN" using that(2) by simp
    have "list_all (\<lambda>((f, w), (g, u)). reads (nested M d) f w \<and> reads (nested M d) g u) ?fs"
      using that(2) assms(2) nested_reads [OF _ _ d] by (fastforce simp: list_all_iff)
    from entries_frames [OF this, of "CHR ''%'' # nat_to_string (length es) @ CRLF" t] parse_count_frame [OF assms(1) _ n, of "CHR ''%''"]
    show "dispatch M (MAX_DEPTH - d) i (CHR ''%'') (CHR ''%'' # (nat_to_string (length es) @ CRLF @ concat (pair_frames p es)) @ t) =
      Inr (MapValue (map (\<lambda>(k, v). (wire p k, wire p v)) es), Suc (length (nat_to_string (length es) @ CRLF @ concat (pair_frames p es))))"
      unfolding f by (simp add: dispatch_simps parse_map_def)
  qed
  then show ?thesis unfolding roundtrips_def Resp3 encode_value_simps by (simp add: is_resp3_def)
qed

lemma encode_roundtrips: "search_ok M \<Longrightarrow> one_line v \<Longrightarrow> roundtrips M p v"
proof (induction v)
  case (MapValue es)
  then show ?case by (intro roundtrips_map) (fastforce simp: list_all_iff)+
next
  case (Array vs)
  then show ?case by (intro roundtrips_elements) (auto simp: list_all_iff)
next
  case (SetValue vs)
  then show ?case by (intro roundtrips_elements) (auto simp: list_all_iff)
next
  case (Push vs)
  then show ?case by (intro roundtrips_elements) (auto simp: list_all_iff)
qed (simp_all add: roundtrips_lines roundtrips_scalars)

section \<open>The laws of a frame parser\<close>

text \<open>
  What a reader relies on that tries to parse a buffer again and again as it grows.
\<close>

locale frame_parser =
  fixes parse :: "search_ext \<Rightarrow> bytes \<Rightarrow> resp_error + 'a \<times> nat"
  assumes frame_bound: "search_ok M \<Longrightarrow> parse M b = Inr (v, n) \<Longrightarrow> 0 < n \<and> n \<le> length b"
    and frame_final: "search_ok M \<Longrightarrow> parse M b \<noteq> Inl Incomplete \<Longrightarrow> parse M (b @ t) = parse M b"
begin

lemma prefix_incomplete:
  assumes "search_ok M" "parse M f = Inr (v, length f)" "k < length f"
  shows "parse M (take k f) = Inl Incomplete"
proof (rule ccontr)
  assume "parse M (take k f) \<noteq> Inl Incomplete"
  from frame_final [OF assms(1) this, of "drop k f"] have "parse M (take k f) = Inr (v, length f)"
    using assms(2) by simp
  from frame_bound [OF assms(1) this] assms(3) show False by simp
qed

lemma error_final:
  "search_ok M \<Longrightarrow> parse M b = Inl e \<Longrightarrow> e \<noteq> Incomplete \<Longrightarrow> parse M (b @ t) = Inl e"
  using frame_final [of M b t] by simp

lemma value_final: "search_ok M \<Longrightarrow> parse M b = Inr r \<Longrightarrow> parse M (b @ t) = Inr r"
  using frame_final [of M b t] by simp

end

interpretation live: frame_parser parse_value
  using parse_value_depth_framed
  by unfold_locales (auto simp: parse_value_def framed_def)

interpretation strict: frame_parser parse_value_strict
  using parse_value_depth_framed
  by unfold_locales (auto simp: parse_value_strict_def framed_def)

section \<open>Properties\<close>

text \<open>
  C33: The parser inverts the encoder.  A value is encoded in either protocol version, any bytes may
  follow: both parsers return what a client of that version sees of the value, using exactly the bytes
  of the encoding.  Every proper prefix of the encoding is incomplete, never an error or another value.
  The value has to be within the limits of the parser and its errors without a line break.
\<close>

theorem resp_roundtrip:
  assumes "search_ok M" "one_line v" "received MAX_DEPTH (wire p v)"
  shows "parse_value M (encode_value v p @ t) = Inr (wire p v, length (encode_value v p)) \<and>
    parse_value_strict M (encode_value v p @ t) = Inr (wire p v, length (encode_value v p)) \<and>
    (\<forall>k < length (encode_value v p). parse_value M (take k (encode_value v p)) = Inl Incomplete)"
proof -
  have r: "reads (\<lambda>b. parse_value_depth M b 0 i) (encode_value v p) (wire p v)" for i
    using encode_roundtrips [OF assms(1,2), of p] assms(3) unfolding roundtrips_def by (metis diff_self_eq_0 order_refl)
  then have live: "parse_value M (encode_value v p @ t) = Inr (wire p v, length (encode_value v p))" for t
    by (simp add: reads_def parse_value_def)
  from live.prefix_incomplete [OF assms(1) live [of "[]", simplified]] live r [of False] show ?thesis
    by (simp add: reads_def parse_value_strict_def)
qed

definition demo_reply :: resp_value where
  "demo_reply = MapValue [(SimpleString ''a'', Array [Integer 7, NilArray]), (BulkString ''b'', Boolean True)]"

lemma demo_reply_ok: "one_line demo_reply" "received MAX_DEPTH (wire p demo_reply)"
proof -
  have "utf8_valid ''a''" "line_end ''a'' = None" by (rule plain_line line_end_no_cr, simp add: plain_def)+
  then show "one_line demo_reply" "received MAX_DEPTH (wire p demo_reply)"
    by (simp_all add: demo_reply_def is_resp3_def MAX_DEPTH_def MAX_MULTIBULK_LEN_def MAX_BULK_LEN_def in_i64_def i64_min_def i64_max_def)
qed

lemma demo_reply_wire: "wire Resp2 demo_reply = Array [SimpleString ''a'', Array [Integer 7, NilArray], BulkString ''b'', Integer 1]"
  by (simp add: demo_reply_def is_resp3_def)

theorem resp_roundtrip_witness:
  "search_ok demo_search \<and> one_line demo_reply \<and> received MAX_DEPTH (wire Resp2 demo_reply) \<and>
   parse_value demo_search (encode_value demo_reply Resp2 @ ''+'') =
     Inr (Array [SimpleString ''a'', Array [Integer 7, NilArray], BulkString ''b'', Integer 1], length (encode_value demo_reply Resp2))"
  using resp_roundtrip [OF demo_search_ok demo_reply_ok(1) demo_reply_ok(2) [of Resp2], of "''+''"] demo_search_ok demo_reply_ok(1) demo_reply_ok(2) [of Resp2]
  unfolding demo_reply_wire by blast

text \<open>
  C34: What the parser accepts is well typed.  It uses at least one byte and none beyond the buffer.
  The nesting is at most 128 levels deep, aggregates and payloads are within their limits, integers fit
  64 bits, line texts are UTF-8 without a line break, big numbers are decimal and the format of a
  verbatim string has three bytes.
\<close>

theorem parse_value_typed:
  assumes "search_ok M" "parse_value M b = Inr (v, n)"
  shows "received MAX_DEPTH v \<and> 0 < n \<and> n \<le> length b"
  using parse_value_depth_received [OF assms(1), of b 0 True v n] live.frame_bound [OF assms] assms(2)
  by (simp add: parse_value_def)

lemma demo_reply_read: "parse_value demo_search (encode_value demo_reply Resp3) = Inr (wire Resp3 demo_reply, length (encode_value demo_reply Resp3))"
  using encode_roundtrips [OF demo_search_ok demo_reply_ok(1), of Resp3] demo_reply_ok(2) [of Resp3]
  unfolding roundtrips_def reads_def parse_value_def by (metis append_Nil2 diff_self_eq_0 order_refl)

theorem parse_value_typed_witness: "received MAX_DEPTH (wire Resp3 demo_reply)"
  using parse_value_typed [OF demo_search_ok demo_reply_read] by blast

text \<open>
  C35: A verdict of the parser is final.  When it returns a value or an error other than \<open>Incomplete\<close>,
  it returns the same with any further bytes behind the buffer, so the point at which a reader tries
  to parse does not matter.
\<close>

theorem parse_verdict_final:
  assumes "search_ok M" "parse_value M b \<noteq> Inl Incomplete"
  shows "parse_value M (b @ t) = parse_value M b"
  by (rule live.frame_final [OF assms])

theorem parse_verdict_final_witness:
  "parse_value demo_search (encode_value demo_reply Resp3 @ ''x'') = Inr (wire Resp3 demo_reply, length (encode_value demo_reply Resp3))"
  using parse_verdict_final [OF demo_search_ok, of "encode_value demo_reply Resp3" "''x''"] demo_reply_read by simp

section \<open>The recursion bound\<close>

lemma short_count: "nat_to_string 0 = ''0''" "nat_to_string 1 = ''1''"
  by (simp_all add: nat_to_string_def nat_to_radix_def radix_digits.simps digit_char_def char_of_def bit_0)

lemma count_frames:
  assumes "search_ok M" "c \<noteq> CHR 0x0D"
  shows "parse_count M what (c # ''0'' @ CRLF @ t) = Inr (0, 4)" "parse_number M (c # ''1'' @ CRLF @ t) = Inr (1, 2)"
    "parse_count M what (c # ''1'' @ CRLF @ t) = Inr (Suc 0, 4)"
  using parse_count_frame [OF assms, of 0 what t] parse_length_frame [OF assms, of 1 t] parse_count_frame [OF assms, of 1 what t]
  by (simp_all add: short_count [simplified] CRLF_def MAX_MULTIBULK_LEN_def i64_max_def)

lemma empty_attribute:
  assumes "search_ok M" "depth \<le> MAX_DEPTH" "parse_value_depth M b depth False = Inr (v, n)"
  shows "parse_value_depth M (''|0'' @ CRLF @ b) depth i = Inr (v, 4 + n)"
proof -
  have "b \<noteq> []" using assms(3) by (auto simp: parse_value_depth_dispatch)
  then show ?thesis using assms(2,3) count_frames(1) [OF assms(1), of "CHR ''|''" "''attribute''" b]
    by (simp add: parse_value_depth_dispatch [of M "CHR ''|'' # c" for c] dispatch_simps parse_attribute_def CRLF_def)
qed

lemma attribute_chain:
  assumes "search_ok M" "depth \<le> MAX_DEPTH" "\<And>i. parse_value_depth M b depth i = Inr (v, n)"
  shows "parse_value_depth M (concat (replicate k (''|0'' @ CRLF)) @ b) depth i = Inr (v, 4 * k + n)"
proof (induction k arbitrary: i)
  case (Suc k)
  show ?case using empty_attribute [OF assms(1,2) Suc, of i] by simp
qed (simp add: assms(3))

lemma failing_element:
  assumes "search_ok M" "depth \<le> MAX_DEPTH" "b \<noteq> []" "parse_value_depth M b (depth + 1) False = Inl e"
  shows "parse_value_depth M (''*1'' @ CRLF @ b) depth i = Inl e"
  using assms(2-4) count_frames(2) [OF assms(1), of "CHR ''*''" b] count_frames(3) [OF assms(1), of "CHR ''*''" "''array''" b]
  by (simp add: parse_value_depth_dispatch [of M "CHR ''*'' # c" for c] dispatch_simps parse_array_count CRLF_def)

lemma nested_arrays:
  assumes "search_ok M" "t \<noteq> []"
  shows "k \<le> MAX_DEPTH \<Longrightarrow> parse_value_depth M (concat (replicate (Suc k) (''*1'' @ CRLF)) @ t) (MAX_DEPTH - k) i = Inl DepthExceeded"
proof (induction k arbitrary: i)
  case 0
  have "parse_value_depth M t (MAX_DEPTH - 0 + 1) False = Inl DepthExceeded" using assms(2) by (simp add: parse_value_depth_dispatch)
  then show ?case using failing_element [OF assms(1) _ assms(2), of "MAX_DEPTH - 0"] by simp
next
  case (Suc k)
  then have "MAX_DEPTH - Suc k + 1 = MAX_DEPTH - k" by simp
  then show ?case
    using failing_element [OF assms(1), of "MAX_DEPTH - Suc k" "concat (replicate (Suc k) (''*1'' @ CRLF)) @ t" DepthExceeded i] Suc by simp
qed



end
