(* ===== verification/Resp_Auth.thy ===== *)
theory Resp_Auth
  imports Rust_Text
begin

text \<open>
  Password authentication of the key-value server (\<open>cld_srv/auth.rs\<close> of \<open>calod-resp\<close>).  Argon2, the
  XxHash64 of the \<open>twox_hash\<close> crate and the random salt are parameters; instants and durations are
  milliseconds.

  The cache of verified passwords is a \<open>DashMap\<close>.  Its documentation says that \<open>remove\<close> may deadlock when
  called while holding any sort of reference into the map; with a reference to the very entry the shard
  is the same one and the call never returns.  \<open>authenticate\<close> therefore has a third outcome.
\<close>

record auth_ext =
  hash_password :: "bytes \<Rightarrow> bytes \<Rightarrow> string option"
  verify_password :: "bytes \<Rightarrow> string \<Rightarrow> bool"
  xxhash64 :: "bytes \<Rightarrow> 64 word"

record auth_manager =
  am_auth_required :: bool
  am_credentials :: "(string, string) dashmap"
  am_auth_cache :: "(string, nat) dashmap"
  am_cache_ttl :: nat

datatype auth_outcome = Accepted | Rejected | Blocked

definition new_auth_manager :: "bool \<Rightarrow> auth_manager" where
  "new_auth_manager required =
     \<lparr>am_auth_required = required, am_credentials = [], am_auth_cache = [], am_cache_ttl = 300000\<rparr>"

definition add_password :: "auth_ext \<Rightarrow> bytes \<Rightarrow> string \<Rightarrow> auth_manager \<Rightarrow> auth_manager" where
  "add_password A salt password am =
     (if \<not> am_auth_required am then am
      else case hash_password A password salt of None \<Rightarrow> am
      | Some h \<Rightarrow> am\<lparr>am_credentials := dm_insert ''default'' h (am_credentials am)\<rparr>)"

definition cache_key :: "auth_ext \<Rightarrow> string \<Rightarrow> string" where
  "cache_key A password = nat_to_radix 16 (unat (xxhash64 A password))"

text \<open>\<open>now1\<close> is read to judge a cached entry, \<open>now2\<close> to date a new one.\<close>

definition authenticate ::
  "auth_ext \<Rightarrow> nat \<Rightarrow> nat \<Rightarrow> string \<Rightarrow> auth_manager \<Rightarrow> auth_outcome \<times> auth_manager" where
  "authenticate A now1 now2 password am =
     (if \<not> am_auth_required am then (Accepted, am)
      else
        let key = cache_key A password;
            slow = (if list_ex (verify_password A password) (dm_values (am_credentials am))
              then (Accepted, am\<lparr>am_auth_cache := dm_insert key (now2 + am_cache_ttl am) (am_auth_cache am)\<rparr>)
              else (Rejected, am))
        in case dm_get (am_auth_cache am) key of
             Some expires_at \<Rightarrow> if now1 \<le> expires_at then (Accepted, am) else (Blocked, am)
           | None \<Rightarrow> slow)"

definition rotate_credentials :: "nat \<Rightarrow> auth_manager \<Rightarrow> auth_manager" where
  "rotate_credentials now am =
     (if \<not> am_auth_required am then am
      else am\<lparr>am_auth_cache := filter (\<lambda>(k, expires_at). now \<le> expires_at) (am_auth_cache am)\<rparr>)"

definition create_auth_manager :: "auth_ext \<Rightarrow> bytes \<Rightarrow> string option \<Rightarrow> auth_manager" where
  "create_auth_manager A salt password =
     (let am = new_auth_manager (password \<noteq> None)
      in case password of None \<Rightarrow> am | Some pass \<Rightarrow> add_password A salt pass am)"

section \<open>The cache holds verified passwords\<close>

definition verifies :: "auth_ext \<Rightarrow> auth_manager \<Rightarrow> string \<Rightarrow> bool" where
  "verifies A am password \<longleftrightarrow> list_ex (verify_password A password) (dm_values (am_credentials am))"

definition cache_sound :: "auth_ext \<Rightarrow> auth_manager \<Rightarrow> bool" where
  "cache_sound A am \<longleftrightarrow> (\<forall>key e. dm_get (am_auth_cache am) key = Some e \<longrightarrow> (\<exists>pw. verifies A am pw \<and> cache_key A pw = key))"

lemma authenticate_frame:
  assumes "authenticate A n1 n2 pw am = (r, am')"
  shows "am_auth_required am' = am_auth_required am" "am_credentials am' = am_credentials am"
  using assms by (auto simp: authenticate_def Let_def split: if_splits option.splits)

lemma authenticate_sound:
  assumes "cache_sound A am" "authenticate A n1 n2 pw am = (r, am')"
  shows "cache_sound A am'"
proof -
  have v: "verifies A am' = verifies A am" using authenticate_frame [OF assms(2)] by (simp add: verifies_def [abs_def])
  show ?thesis
    using assms unfolding cache_sound_def v
    by (auto simp: authenticate_def Let_def dm_get_insert verifies_def split: if_splits option.splits)
qed

lemma authenticate_accepts:
  assumes "cache_sound A am" "am_auth_required am" "authenticate A n1 n2 pw am = (Accepted, am')"
  shows "\<exists>pw'. verifies A am pw' \<and> cache_key A pw' = cache_key A pw"
  using assms by (auto simp: authenticate_def cache_sound_def verifies_def Let_def split: if_splits option.splits)

lemma create_sound: "cache_sound A (create_auth_manager A salt password)"
  by (auto simp: cache_sound_def create_auth_manager_def new_auth_manager_def add_password_def Let_def split: option.splits)

text \<open>
  C37: Two logins with the right password block the server.  A password that the credentials verify is
  accepted and cached for five minutes.  The next login with the same password after that time finds
  the expired entry and never returns: the entry is removed while it is still borrowed from the map.
  Until then, every password with the same 64-bit hash is accepted, verified or not.
\<close>

theorem cached_login:
  assumes "am_auth_required am" "dm_get (am_auth_cache am) (cache_key A pw) = None" "verifies A am pw"
    and "cache_key A pw' = cache_key A pw"
  shows "\<exists>am'. authenticate A n1 n2 pw am = (Accepted, am') \<and>
    (t \<le> n2 + am_cache_ttl am \<longrightarrow> authenticate A t t' pw' am' = (Accepted, am')) \<and>
    (n2 + am_cache_ttl am < t \<longrightarrow> authenticate A t t' pw am' = (Blocked, am'))"
  using assms by (auto simp: authenticate_def verifies_def dm_get_insert Let_def)

definition demo_auth :: auth_ext where
  "demo_auth = \<lparr>hash_password = \<lambda>pw salt. Some (salt @ pw), verify_password = \<lambda>pw h. drop 2 h = pw,
     xxhash64 = \<lambda>pw. of_nat (length pw)\<rparr>"

theorem cached_login_witness:
  "let am = create_auth_manager demo_auth ''na'' (Some ''secret'') in
   verifies demo_auth am ''secret'' \<and> \<not> verifies demo_auth am ''public'' \<and>
   (\<exists>am'. authenticate demo_auth 0 0 ''secret'' am = (Accepted, am') \<and>
      authenticate demo_auth 1000 1000 ''public'' am' = (Accepted, am') \<and>
      authenticate demo_auth 300001 300001 ''secret'' am' = (Blocked, am'))"
proof -
  let ?am = "create_auth_manager demo_auth ''na'' (Some ''secret'')"
  have am: "am_auth_required ?am" "dm_get (am_auth_cache ?am) key = None" "verifies demo_auth ?am ''secret''"
    "\<not> verifies demo_auth ?am ''public''" "am_cache_ttl ?am = 300000" for key
    by (simp_all add: create_auth_manager_def new_auth_manager_def add_password_def demo_auth_def verifies_def dm_insert_def dm_values_def)
  have key: "cache_key demo_auth ''public'' = cache_key demo_auth ''secret''" by (simp add: cache_key_def demo_auth_def)
  obtain am' where "authenticate demo_auth 0 0 ''secret'' ?am = (Accepted, am')"
    "authenticate demo_auth 1000 1000 ''public'' am' = (Accepted, am')"
    using cached_login [OF am(1,2,3) key, of 0 0 1000 1000] am(5) by auto
  moreover from this(1) have "authenticate demo_auth 300001 300001 ''secret'' am' = (Blocked, am')"
    using cached_login [OF am(1,2,3) key, of 0 0 300001 300001] am(5) by auto
  ultimately show ?thesis using am(3,4) by (auto simp: Let_def)
qed

end
