(* ===== verification/Resp_Connection.thy ===== *)
theory Resp_Connection
  imports Resp_Roundtrip Resp_Auth
begin

text \<open>
  The reader of a client connection (\<open>reader_task\<close>, \<open>parse_command_at_position\<close> and \<open>is_auth_command\<close> of
  \<open>cld_srv/connection.rs\<close> in \<open>calod-resp\<close>).  It appends what the socket delivers to its buffer, takes
  commands off the front and sends them to the writer, or an error reply in their place while the client
  is not authenticated.

  The command table \<open>Command::try_from\<close> is an argument \<open>tf\<close>, and the commands the reader does not look
  into are one constructor; the properties hold for every table.  The list of reads is the input; the
  channel to the writer stays open, and \<open>clock\<close> gives the instants read while the command at a position
  of the stream is served.  A login that never returns ends the model of the reader.
\<close>

section \<open>Commands\<close>

datatype 'c command =
    Auth string
  | Hello "nat option" "(string \<times> string) option" "string option"
  | Ping
  | Quit
  | Unknown string
  | OtherCommand 'c

type_synonym 'c command_table = "resp_value list \<Rightarrow> string + 'c command"

datatype connection_state = New | Authenticated | Closing

fun is_auth_command :: "'c command \<Rightarrow> bool" where
  "is_auth_command (Auth _) = True"
| "is_auth_command Ping = True"
| "is_auth_command (Hello _ _ _) = True"
| "is_auth_command Quit = True"
| "is_auth_command _ = False"

definition command_values :: "resp_value \<Rightarrow> resp_value list" where
  "command_values resp = (case resp of Array array_values \<Rightarrow> array_values | _ \<Rightarrow> [resp])"

definition parse_command_at_position ::
  "search_ext \<Rightarrow> 'c command_table \<Rightarrow> bytes \<Rightarrow> nat \<Rightarrow> ('c command \<times> nat) option" where
  "parse_command_at_position M tf buffer start_pos =
     (if length buffer \<le> start_pos then None
      else case parse_value M (drop start_pos buffer) of
        Inr (resp, consumed) \<Rightarrow>
          (case tf (command_values resp) of
             Inr cmd \<Rightarrow> Some (cmd, consumed)
           | Inl e \<Rightarrow> Some (Unknown (''ERR '' @ e), consumed))
      | Inl _ \<Rightarrow> None)"

section \<open>Admission\<close>

definition no_password_set :: "'c command" where
  "no_password_set = Unknown ''ERR Client sent AUTH, but no password is set. Did you mean AUTH <username> <password>?''"

definition wrong_password :: "'c command" where
  "wrong_password = Unknown ''WRONGPASS invalid username-password pair''"

definition hello_needs_auth :: "'c command" where
  "hello_needs_auth = Unknown (''NOAUTH HELLO must be called with the client already authenticated, otherwise '' @
     ''the HELLO <proto> AUTH <user> <pass> option can be used to authenticate the client and select the RESP '' @
     ''protocol version at the same time'')"

definition needs_auth :: "'c command" where
  "needs_auth = Unknown ''NOAUTH Authentication required.''"

text \<open>\<open>Refuse\<close> sends an error instead of the command; \<open>Admit\<close> goes on; \<open>Hang\<close> never returns.\<close>

datatype 'c admission = Refuse "'c command" | Admit | Hang

definition check_password ::
  "auth_ext \<Rightarrow> nat \<times> nat \<Rightarrow> string \<Rightarrow> connection_state \<times> auth_manager \<Rightarrow> 'c admission \<times> connection_state \<times> auth_manager" where
  "check_password A now password st =
     (let (state, am) = st in
      if \<not> am_auth_required am then (Refuse no_password_set, state, am)
      else case authenticate A (fst now) (snd now) password am of
          (Accepted, am) \<Rightarrow> (Admit, Authenticated, am)
        | (Rejected, am) \<Rightarrow> (Refuse wrong_password, state, am)
        | (Blocked, am) \<Rightarrow> (Hang, state, am))"

definition admit ::
  "auth_ext \<Rightarrow> nat \<times> nat \<Rightarrow> 'c command \<Rightarrow> connection_state \<times> auth_manager \<Rightarrow> 'c admission \<times> connection_state \<times> auth_manager" where
  "admit A now cmd st =
     (let (state, am) = st;
          (verdict, state, am) =
            (case cmd of
               Auth password \<Rightarrow> check_password A now password st
             | Hello _ (Some (_, password)) _ \<Rightarrow> check_password A now password st
             | Hello _ None _ \<Rightarrow>
                 if state = New \<and> am_auth_required am then (Refuse hello_needs_auth, state, am) else (Admit, state, am)
             | _ \<Rightarrow> (Admit, state, am))
      in if verdict = Admit \<and> state = New \<and> \<not> is_auth_command cmd \<and> am_auth_required am
         then (Refuse needs_auth, state, am)
         else (verdict, state, am))"

section \<open>The reader\<close>

record 'c reader =
  rd_buffer :: bytes
  rd_state :: connection_state
  rd_auth :: auth_manager
  rd_sent :: "'c command list"

lemma command_advances: "parse_command_at_position M tf buffer position = Some (cmd, consumed) \<Longrightarrow> 0 < consumed"
  by (auto simp: parse_command_at_position_def split: if_splits sum.splits dest: parse_value_advances)

text \<open>
  The inner loop from \<open>position\<close> on; the flag says whether a login hangs.  Exactly one command is sent
  per command read, so \<open>clock\<close> is indexed by their number.
\<close>

function reader_commands ::
  "search_ext \<Rightarrow> 'c command_table \<Rightarrow> auth_ext \<Rightarrow> (nat \<Rightarrow> nat \<times> nat) \<Rightarrow> nat \<Rightarrow> 'c reader \<Rightarrow> bool \<times> nat \<times> 'c reader" where
  "reader_commands M tf A clock position rd =
     (if position < length (rd_buffer rd) then
        (case parse_command_at_position M tf (rd_buffer rd) position of
           Some (cmd, consumed) \<Rightarrow>
             (case admit A (clock (length (rd_sent rd))) cmd (rd_state rd, rd_auth rd) of
                (Hang, state, am) \<Rightarrow> (True, position + consumed, rd\<lparr>rd_state := state, rd_auth := am\<rparr>)
              | (Refuse err_cmd, state, am) \<Rightarrow>
                  reader_commands M tf A clock (position + consumed)
                    (rd\<lparr>rd_state := state, rd_auth := am, rd_sent := rd_sent rd @ [err_cmd]\<rparr>)
              | (Admit, state, am) \<Rightarrow>
                  reader_commands M tf A clock (position + consumed)
                    (rd\<lparr>rd_state := state, rd_auth := am, rd_sent := rd_sent rd @ [cmd]\<rparr>))
         | None \<Rightarrow> (False, position, rd))
      else (False, position, rd))"
  by pat_completeness auto
termination
  by (relation "measure (\<lambda>(M, tf, A, clock, position, rd). length (rd_buffer rd) - position)")
    (auto dest: command_advances)

declare reader_commands.simps [simp del]

datatype socket_read = Bytes bytes | ReadError string

datatype reader_end = Running | Disconnected | Failed string | Hung

fun reader_task ::
  "search_ext \<Rightarrow> 'c command_table \<Rightarrow> auth_ext \<Rightarrow> (nat \<Rightarrow> nat \<times> nat) \<Rightarrow> nat \<Rightarrow> socket_read list \<Rightarrow> 'c reader \<Rightarrow>
   reader_end \<times> 'c reader" where
  "reader_task M tf A clock max_size [] rd = (Running, rd)"
| "reader_task M tf A clock max_size (r # rs) rd =
     (if rd_state rd = Closing then (Disconnected, rd)
      else if max_size \<le> length (rd_buffer rd) then (Failed ''Maximum request size exceeded'', rd)
      else case r of
        ReadError e \<Rightarrow> (Failed e, rd)
      | Bytes bs \<Rightarrow>
          if bs = [] then (Disconnected, rd)
          else case reader_commands M tf A clock 0 (rd\<lparr>rd_buffer := rd_buffer rd @ bs\<rparr>) of
              (True, _, rd) \<Rightarrow> (Hung, rd)
            | (False, position, rd) \<Rightarrow>
                reader_task M tf A clock max_size rs (rd\<lparr>rd_buffer := drop position (rd_buffer rd)\<rparr>))"

section \<open>The reader as a function of the stream\<close>

text \<open>The state of the reader without its buffer, and the commands of a stream of bytes on it.\<close>

type_synonym 'c served = "connection_state \<times> auth_manager \<times> 'c command list"

definition served :: "'c reader \<Rightarrow> 'c served" where
  "served rd = (rd_state rd, rd_auth rd, rd_sent rd)"

definition command_of :: "'c command_table \<Rightarrow> resp_value \<Rightarrow> 'c command" where
  "command_of tf v = (case tf (command_values v) of Inr cmd \<Rightarrow> cmd | Inl e \<Rightarrow> Unknown (''ERR '' @ e))"

function serve ::
  "search_ext \<Rightarrow> 'c command_table \<Rightarrow> auth_ext \<Rightarrow> (nat \<Rightarrow> nat \<times> nat) \<Rightarrow> bytes \<Rightarrow> 'c served \<Rightarrow> bool \<times> bytes \<times> 'c served" where
  "serve M tf A clock b (state, am, sent) =
     (case parse_value M b of Inl _ \<Rightarrow> (False, b, (state, am, sent))
      | Inr (v, n) \<Rightarrow>
        (case admit A (clock (length sent)) (command_of tf v) (state, am) of
           (Hang, state, am) \<Rightarrow> (True, drop n b, (state, am, sent))
         | (Refuse e, state, am) \<Rightarrow> serve M tf A clock (drop n b) (state, am, sent @ [e])
         | (Admit, state, am) \<Rightarrow> serve M tf A clock (drop n b) (state, am, sent @ [command_of tf v])))"
  by pat_completeness auto
termination
proof (relation "measure (\<lambda>(M, tf, A, clock, b, s). length b)", goal_cases)
  case (2 M tf A clock b state am sent r v n)
  then show ?case using parse_value_advances [of M b v n] by (cases b) (auto simp: parse_value_def parse_value_depth_dispatch)
next
  case (3 M tf A clock b state am sent r v n)
  then show ?case using parse_value_advances [of M b v n] by (cases b) (auto simp: parse_value_def parse_value_depth_dispatch)
qed simp

declare serve.simps [simp del]

definition reader_of :: "bytes \<Rightarrow> 'c served \<Rightarrow> 'c reader" where
  "reader_of b s = (case s of (state, am, sent) \<Rightarrow> \<lparr>rd_buffer = b, rd_state = state, rd_auth = am, rd_sent = sent\<rparr>)"

lemma reader_of_sel [simp]:
  "rd_buffer (reader_of b s) = b" "served (reader_of b s) = s" "rd_buffer_update f (reader_of b s) = reader_of (f b) s"
  "reader_of (rd_buffer rd) (served rd) = rd"
  by (cases s; simp add: reader_of_def served_def; cases rd; simp add: reader_of_def served_def)+

lemma reader_commands_serve:
  "reader_commands M tf A clock position rd = (h, position', rd') \<Longrightarrow>
   serve M tf A clock (drop position (rd_buffer rd)) (served rd) = (h, drop position' (rd_buffer rd), served rd') \<and>
   rd_buffer rd' = rd_buffer rd"
proof (induction M tf A clock position rd rule: reader_commands.induct)
  case (1 M tf A clock position rd)
  show ?case
  proof (cases "position < length (rd_buffer rd)")
    case False
    then have "rd' = rd" "\<not> h" "drop position (rd_buffer rd) = []" "drop position' (rd_buffer rd) = []"
      using 1(3) by (auto simp: reader_commands.simps [of M tf A clock position])
    then show ?thesis by (simp add: served_def serve.simps parse_value_def parse_value_depth_dispatch)
  next
    case True
    show ?thesis
    proof (cases "parse_value M (drop position (rd_buffer rd))")
      case (Inl e)
      then show ?thesis using 1(3) True
        by (simp add: reader_commands.simps [of M tf A clock position] parse_command_at_position_def served_def serve.simps)
    next
      case (Inr r)
      obtain v n where r: "r = (v, n)" by fastforce
      obtain verdict state am where adm:
        "admit A (clock (length (rd_sent rd))) (command_of tf v) (rd_state rd, rd_auth rd) = (verdict, state, am)"
        by (metis prod_cases3)
      have p: "parse_command_at_position M tf (rd_buffer rd) position = Some (command_of tf v, n)"
        using True Inr r by (simp add: parse_command_at_position_def command_of_def split: sum.split)
      have d: "drop n (drop position (rd_buffer rd)) = drop (position + n) (rd_buffer rd)" by (simp add: add.commute)
      show ?thesis
      proof (cases verdict)
        case (Refuse e)
        then show ?thesis
          using 1(3) 1(1) [OF True p refl adm [unfolded Refuse, symmetric] refl refl] adm Inr r True p d
          by (simp add: reader_commands.simps [of M tf A clock position] serve.simps [of M tf A clock "drop position (rd_buffer rd)"] served_def)
      next
        case Admit
        then show ?thesis
          using 1(3) 1(2) [OF True p refl adm [unfolded Admit, symmetric] refl refl] adm Inr r True p d
          by (simp add: reader_commands.simps [of M tf A clock position] serve.simps [of M tf A clock "drop position (rd_buffer rd)"] served_def)
      next
        case Hang
        then show ?thesis
          using 1(3) adm Inr r True p d
          by (auto simp: reader_commands.simps [of M tf A clock position] serve.simps [of M tf A clock "drop position (rd_buffer rd)"] served_def)
      qed
    qed
  qed
qed

lemma reader_task_chunk:
  assumes "fst s \<noteq> Closing" "length b < max_size" "bs \<noteq> []" "serve M tf A clock (b @ bs) s = (h, rest, s')"
  shows "reader_task M tf A clock max_size (Bytes bs # rs) (reader_of b s) =
    (if h then (Hung, reader_of (b @ bs) s') else reader_task M tf A clock max_size rs (reader_of rest s'))"
proof -
  obtain h' position rd' where rc: "reader_commands M tf A clock 0 (reader_of (b @ bs) s) = (h', position, rd')" by (metis prod_cases3)
  from reader_commands_serve [OF this] assms(4)
  have "h' = h" "drop position (b @ bs) = rest" "served rd' = s'" "rd_buffer rd' = b @ bs" by auto
  then have "rd' = reader_of (b @ bs) s'" "reader_of rest s' = rd'\<lparr>rd_buffer := drop position (rd_buffer rd')\<rparr>"
    using reader_of_sel(4) [of rd'] by (metis, metis reader_of_sel(3))
  moreover have "rd_state (reader_of b s) \<noteq> Closing" using assms(1) by (cases s) (simp add: reader_of_def)
  ultimately show ?thesis using rc \<open>h' = h\<close> assms(2,3) by (cases h) simp_all
qed

subsection \<open>More bytes\<close>

lemma serve_stuck: "parse_value M b = Inl e \<Longrightarrow> serve M tf A clock b s = (False, b, s)"
  by (cases s) (simp add: serve.simps)

lemma serve_step:
  assumes "parse_value M b = Inr (v, n)" "admit A (clock (length sent)) (command_of tf v) (state, am) = (verdict, state', am')"
  shows "serve M tf A clock b (state, am, sent) =
    (case verdict of Hang \<Rightarrow> (True, drop n b, (state', am', sent))
     | Refuse e \<Rightarrow> serve M tf A clock (drop n b) (state', am', sent @ [e])
     | Admit \<Rightarrow> serve M tf A clock (drop n b) (state', am', sent @ [command_of tf v]))"
  using assms by (subst serve.simps) (simp split: admission.split)

lemma serve_induct [case_names stuck step]:
  assumes "\<And>b s e. parse_value M b = Inl e \<Longrightarrow> P b s"
    and "\<And>b state am sent v n verdict state' am'. parse_value M b = Inr (v, n) \<Longrightarrow>
      admit A (clock (length sent)) (command_of tf v) (state, am) = (verdict, state', am') \<Longrightarrow>
      (\<And>e. verdict \<noteq> Hang \<Longrightarrow> P (drop n b) (state', am', sent @ [e])) \<Longrightarrow> P b (state, am, sent)"
  shows "P b s"
proof (induction "length b" arbitrary: b s rule: less_induct)
  case (less b s)
  obtain state am sent where s: "s = (state, am, sent)" by (metis prod_cases3)
  show ?case
  proof (cases "parse_value M b")
    case (Inr r)
    then obtain v n where v: "parse_value M b = Inr (v, n)" by (cases r) auto
    obtain verdict state' am' where adm: "admit A (clock (length sent)) (command_of tf v) (state, am) = (verdict, state', am')"
      by (metis prod_cases3)
    have "length (drop n b) < length b"
      using parse_value_advances [OF v] v by (cases b) (auto simp: parse_value_def parse_value_depth_dispatch)
    then show ?thesis unfolding s by (intro assms(2) [OF v adm] less)
  qed (rule assms(1))
qed

lemma serve_extend:
  assumes "search_ok M"
  shows "serve M tf A clock b s = (h, r, s') \<Longrightarrow>
    serve M tf A clock (b @ t) s = (if h then (True, r @ t, s') else serve M tf A clock (r @ t) s')"
proof (induction b s rule: serve_induct [where M = M and A = A and clock = clock and tf = tf])
  case (stuck b s e)
  then show ?case by (simp add: serve_stuck)
next
  case (step b state am sent v n verdict state' am')
  have bt: "parse_value M (b @ t) = Inr (v, n)" "drop n (b @ t) = drop n b @ t"
    using live.value_final [OF assms step(1)] live.frame_bound [OF assms step(1)] by simp_all
  show ?case using step(3,4) unfolding serve_step [where clock = clock and sent = sent, OF step(1,2)] serve_step [where clock = clock and sent = sent, OF bt(1) step(2)] bt(2)
    by (cases verdict) auto
qed

lemma serve_drained: "serve M tf A clock b s = (False, r, s') \<Longrightarrow> \<exists>e. parse_value M r = Inl e"
proof (induction b s rule: serve_induct [where M = M and A = A and clock = clock and tf = tf])
  case (step b state am sent v n verdict state' am')
  then show ?case unfolding serve_step [where clock = clock and sent = sent, OF step(1,2)] by (cases verdict) auto
qed (simp add: serve_stuck)

lemma serve_length: "serve M tf A clock b s = (h, r, s') \<Longrightarrow> length r \<le> length b"
proof (induction b s rule: serve_induct [where M = M and A = A and clock = clock and tf = tf])
  case (step b state am sent v n verdict state' am')
  then show ?case unfolding serve_step [where clock = clock and sent = sent, OF step(1,2)] by (cases verdict) fastforce+
qed (simp add: serve_stuck)

lemma admit_not_closing:
  "admit A now cmd (state, am) = (verdict, state', am') \<Longrightarrow> state \<noteq> Closing \<Longrightarrow> state' \<noteq> Closing"
  by (auto simp: admit_def check_password_def Let_def split: command.splits option.splits if_splits prod.splits auth_outcome.splits)

lemma serve_not_closing: "serve M tf A clock b s = (h, r, s') \<Longrightarrow> fst s \<noteq> Closing \<Longrightarrow> fst s' \<noteq> Closing"
proof (induction b s rule: serve_induct [where M = M and A = A and clock = clock and tf = tf])
  case (step b state am sent v n verdict state' am')
  then show ?case using admit_not_closing [OF step(2)] unfolding serve_step [where clock = clock and sent = sent, OF step(1,2)] by (cases verdict) auto
qed (simp add: serve_stuck)

lemma reader_task_stream:
  assumes "search_ok M"
  shows "fst s \<noteq> Closing \<Longrightarrow> [] \<notin> set cs \<Longrightarrow> length b + length (concat cs) \<le> max_size \<Longrightarrow> parse_value M b = Inl e \<Longrightarrow>
    serve M tf A clock (b @ concat cs) s = (h, r, s') \<Longrightarrow>
    \<exists>b'. reader_task M tf A clock max_size (map Bytes cs) (reader_of b s) = (if h then Hung else Running, reader_of b' s')"
proof (induction cs arbitrary: b s e)
  case Nil
  then show ?case by (auto simp: serve_stuck)
next
  case (Cons c cs)
  obtain h1 r1 s1 where s1: "serve M tf A clock (b @ c) s = (h1, r1, s1)" by (metis prod_cases3)
  have c: "c \<noteq> []" using Cons.prems(2) by auto
  then have "length b < max_size" using Cons.prems(3) by (cases c) auto
  note t = reader_task_chunk [OF Cons.prems(1) this c s1]
  note x = serve_extend [OF assms s1, of "concat cs"]
  show ?case
  proof (cases h1)
    case False
    then obtain e1 where e1: "parse_value M r1 = Inl e1" using serve_drained s1 by metis
    have "\<exists>b'. reader_task M tf A clock max_size (map Bytes cs) (reader_of r1 s1) = (if h then Hung else Running, reader_of b' s')"
      using False Cons.prems serve_not_closing [OF s1 Cons.prems(1)] serve_length [OF s1] x
      by (intro Cons.IH [OF _ _ _ e1]) auto
    then show ?thesis using t False by simp
  qed (use t x Cons.prems(5) in auto)
qed

section \<open>Properties\<close>

text \<open>
  C32: How the network cuts the stream into packets does not matter.  A client that is not closing
  sends the same bytes in two different series of packets: the reader forwards the same commands and
  error replies in the same order, ends in the same way, and leaves the same authentication state.
\<close>

theorem chunking_irrelevant:
  assumes "search_ok M" "rd_state rd \<noteq> Closing" "rd_buffer rd = []"
    and "concat cs = concat cs'" "[] \<notin> set cs" "[] \<notin> set cs'" "length (concat cs) \<le> max_size"
    and "reader_task M tf A clock max_size (map Bytes cs) rd = (e, rd1)"
    and "reader_task M tf A clock max_size (map Bytes cs') rd = (e', rd2)"
  shows "e = e' \<and> rd_sent rd1 = rd_sent rd2 \<and> rd_state rd1 = rd_state rd2 \<and> rd_auth rd1 = rd_auth rd2"
proof -
  have rd: "rd = reader_of [] (served rd)" using reader_of_sel(4) [of rd] assms(3) by simp
  have s: "fst (served rd) \<noteq> Closing" using assms(2) by (simp add: served_def)
  have nil: "parse_value M [] = Inl Incomplete" by (simp add: parse_value_def parse_value_depth_dispatch)
  obtain h r s' where sv: "serve M tf A clock (concat cs) (served rd) = (h, r, s')" by (metis prod_cases3)
  obtain b1 b2 where "(e, rd1) = (if h then Hung else Running, reader_of b1 s')" "(e', rd2) = (if h then Hung else Running, reader_of b2 s')"
    using reader_task_stream [OF assms(1) s assms(5) _ nil, of max_size tf A clock h r s']
      reader_task_stream [OF assms(1) s assms(6) _ nil, of max_size tf A clock h r s'] sv assms(4,7-9) rd by (metis append_Nil list.size(3) plus_nat.add_0)
  then have "e = e'" "served rd1 = served rd2" by simp_all
  then show ?thesis by (simp add: served_def)
qed

definition demo_table :: "string command_table" where
  "demo_table values =
     (case values of [BulkString c] \<Rightarrow> if c = ''PING'' then Inr Ping else Inr (OtherCommand c)
      | [BulkString c, BulkString pw] \<Rightarrow> if c = ''AUTH'' then Inr (Auth pw) else Inr (OtherCommand c)
      | _ \<Rightarrow> Inl ''syntax error'')"

definition demo_reader :: "bytes \<Rightarrow> string reader" where
  "demo_reader b = \<lparr>rd_buffer = b, rd_state = New, rd_auth = create_auth_manager demo_auth ''na'' (Some ''secret''), rd_sent = []\<rparr>"

theorem chunking_irrelevant_witness:
  "\<exists>e rd1 rd2. reader_task demo_search demo_table demo_auth (\<lambda>n. (n, n)) 100 [Bytes ''PI'', Bytes ''NG'', Bytes CRLF] (demo_reader []) = (e, rd1) \<and>
     reader_task demo_search demo_table demo_auth (\<lambda>n. (n, n)) 100 [Bytes (''PING'' @ CRLF)] (demo_reader []) = (e, rd2) \<and>
     rd_sent rd1 = rd_sent rd2"
proof -
  obtain e rd1 where 1: "reader_task demo_search demo_table demo_auth (\<lambda>n. (n, n)) 100 (map Bytes [''PI'', ''NG'', CRLF]) (demo_reader []) = (e, rd1)"
    by fastforce
  obtain e' rd2 where 2: "reader_task demo_search demo_table demo_auth (\<lambda>n. (n, n)) 100 (map Bytes [''PING'' @ CRLF]) (demo_reader []) = (e', rd2)"
    by fastforce
  have "e = e' \<and> rd_sent rd1 = rd_sent rd2"
    using chunking_irrelevant [OF demo_search_ok _ _ _ _ _ _ 1 2] by (simp add: demo_reader_def CRLF_def)
  with 1 2 show ?thesis by (simp only: list.map) blast
qed

text \<open>
  C38: A malformed frame silences the connection.  When the bytes at the front of the buffer are a
  protocol error, the reader treats them like an incomplete command.  Whatever the client sends from
  then on, no command is forwarded and no error is replied; the connection stays open until the
  buffer has grown to the maximal request size.
\<close>

theorem malformed_frame_silences:
  assumes "search_ok M" "rd_state rd \<noteq> Closing" "parse_value M (rd_buffer rd) = Inl err" "err \<noteq> Incomplete" "[] \<notin> set cs"
  shows "\<exists>b. reader_task M tf A clock max_size (map Bytes cs) rd \<in>
    {(Running, rd\<lparr>rd_buffer := rd_buffer rd @ concat cs\<rparr>), (Failed ''Maximum request size exceeded'', rd\<lparr>rd_buffer := rd_buffer rd @ b\<rparr>)}"
  using assms(2,3,5)
proof (induction cs arbitrary: rd)
  case (Cons c cs)
  let ?rd = "rd\<lparr>rd_buffer := rd_buffer rd @ c\<rparr>"
  have stuck: "parse_value M (rd_buffer rd @ c) = Inl err" by (rule live.error_final [OF assms(1) Cons.prems(2) assms(4)])
  have "reader_commands M tf A clock 0 ?rd = (False, 0, ?rd)"
    using stuck by (simp add: reader_commands.simps parse_command_at_position_def)
  then have step: "reader_task M tf A clock max_size (map Bytes (c # cs)) rd =
      (if max_size \<le> length (rd_buffer rd) then (Failed ''Maximum request size exceeded'', rd)
       else reader_task M tf A clock max_size (map Bytes cs) ?rd)"
    using Cons.prems by auto
  obtain b where "reader_task M tf A clock max_size (map Bytes cs) ?rd \<in>
      {(Running, ?rd\<lparr>rd_buffer := rd_buffer ?rd @ concat cs\<rparr>), (Failed ''Maximum request size exceeded'', ?rd\<lparr>rd_buffer := rd_buffer ?rd @ b\<rparr>)}"
    using Cons.IH [of ?rd] Cons.prems stuck by auto
  then show ?case unfolding step by (cases "max_size \<le> length (rd_buffer rd)") (auto intro: exI [of _ "[]"] exI [of _ "c @ b"])
qed simp

lemma demo_malformed: "parse_value demo_search (''$x'' @ CRLF) = Inl ParseInt"
proof -
  have "parse_line demo_search (CHR ''$'' # ''x'' @ CRLF @ []) = Inr (''x'', Suc (length ''x''))"
    by (rule parse_plain_line [OF demo_search_ok]) (simp_all add: plain_def)
  then show ?thesis
    by (simp add: parse_value_def parse_value_depth_dispatch dispatch_simps parse_bulk_string_def parse_number_def
        parse_i64_def parse_i64_radix_def to_digit_def MAX_DEPTH_def)
qed

theorem malformed_frame_silences_witness:
  "\<exists>b. reader_task demo_search demo_table demo_auth (\<lambda>n. (n, n)) 100 [Bytes (''PING'' @ CRLF)] (demo_reader (''$x'' @ CRLF)) \<in>
    {(Running, demo_reader (''$x'' @ CRLF @ ''PING'' @ CRLF)), (Failed ''Maximum request size exceeded'', demo_reader (''$x'' @ CRLF @ b))}"
  using malformed_frame_silences [OF demo_search_ok, of "demo_reader (''$x'' @ CRLF)" ParseInt "[''PING'' @ CRLF]" demo_table demo_auth
      "\<lambda>n. (n, n)" 100] demo_malformed
  by (simp add: demo_reader_def)

section \<open>The authentication gate\<close>

definition accepted_password :: "auth_ext \<Rightarrow> auth_manager \<Rightarrow> string \<Rightarrow> bool" where
  "accepted_password A am pw \<longleftrightarrow> (\<exists>pw'. verifies A am pw' \<and> cache_key A pw' = cache_key A pw)"

fun password_of :: "'c command \<Rightarrow> string option" where
  "password_of (Auth pw) = Some pw"
| "password_of (Hello _ (Some (_, pw)) _) = Some pw"
| "password_of _ = None"

definition logs_in :: "auth_ext \<Rightarrow> auth_manager \<Rightarrow> 'c command \<Rightarrow> bool" where
  "logs_in A am cmd = is_some_and (password_of cmd) (accepted_password A am)"

lemma logs_in_other [simp]: "\<not> logs_in A am (OtherCommand c)"
  by (simp add: logs_in_def)

definition gated :: "auth_ext \<Rightarrow> auth_manager \<Rightarrow> 'c served \<Rightarrow> bool" where
  "gated A am0 s \<longleftrightarrow> (case s of (state, am, sent) \<Rightarrow>
     cache_sound A am \<and> am_auth_required am \<and> am_credentials am = am_credentials am0 \<and>
     (state \<noteq> New \<longrightarrow> (\<exists>cmd \<in> set sent. logs_in A am0 cmd)) \<and>
     (\<forall>xs c ys. sent = xs @ OtherCommand c # ys \<longrightarrow> (\<exists>cmd \<in> set xs. logs_in A am0 cmd)))"

lemma verifies_same: "am_credentials am = am_credentials am' \<Longrightarrow> verifies A am = verifies A am'"
  by (simp add: verifies_def fun_eq_iff)

lemma snoc_other:
  "sent @ [x] = xs @ OtherCommand c # ys \<longleftrightarrow>
   sent = xs \<and> x = OtherCommand c \<and> ys = [] \<or> (\<exists>ys'. ys = ys' @ [x] \<and> sent = xs @ OtherCommand c # ys')"
  by (cases ys rule: rev_cases) auto

lemma check_password_cases:
  assumes "check_password A now pw (state, am) = (verdict, state', am')" "cache_sound A am" "am_auth_required am"
  shows "cache_sound A am'" "am_auth_required am'" "am_credentials am' = am_credentials am"
    "verdict = Admit \<Longrightarrow> accepted_password A am pw" "verdict \<noteq> Admit \<Longrightarrow> state' = state" "\<And>c. verdict \<noteq> Refuse (OtherCommand c)"
proof -
  obtain r am1 where a: "authenticate A (fst now) (snd now) pw am = (r, am1)" by fastforce
  then have am1: "am' = am1" using assms(1,3) by (auto simp: check_password_def split: auth_outcome.splits)
  show "cache_sound A am'" "am_auth_required am'" "am_credentials am' = am_credentials am"
    using authenticate_sound [OF assms(2) a] authenticate_frame [OF a] assms(3) am1 by simp_all
  show "verdict = Admit \<Longrightarrow> accepted_password A am pw"
    using assms authenticate_accepts [OF assms(2,3), of "fst now" "snd now" pw am1] a
    by (auto simp: check_password_def accepted_password_def split: auth_outcome.splits)
  show "verdict \<noteq> Admit \<Longrightarrow> state' = state" "\<And>c. verdict \<noteq> Refuse (OtherCommand c)"
    using assms(1,3) a by (auto simp: check_password_def no_password_set_def wrong_password_def split: auth_outcome.splits)
qed

lemma accepted_same: "am_credentials am = am_credentials am' \<Longrightarrow> accepted_password A am = accepted_password A am'"
  using verifies_same [of am am' A] by (simp add: accepted_password_def fun_eq_iff)

lemma admit_password: "password_of cmd = Some pw \<Longrightarrow> admit A now cmd st = check_password A now pw st"
  by (cases cmd rule: password_of.cases) (auto simp: admit_def split: prod.splits)

lemma admit_other:
  "password_of cmd = None \<Longrightarrow> admit A now cmd (state, am) = (verdict, state', am') \<Longrightarrow>
   state' = state \<and> am' = am \<and> verdict \<noteq> Refuse (OtherCommand c)"
  by (cases cmd rule: password_of.cases) (auto simp: admit_def hello_needs_auth_def needs_auth_def split: if_splits)

lemma admit_cases:
  assumes "admit A now cmd (state, am) = (verdict, state', am')" "cache_sound A am" "am_auth_required am"
  shows "cache_sound A am' \<and> am_auth_required am' \<and> am_credentials am' = am_credentials am"
    "state' = state \<or> verdict = Admit \<and> logs_in A am cmd"
    "verdict = Admit \<Longrightarrow> cmd = OtherCommand c \<Longrightarrow> state' \<noteq> New"
    "verdict \<noteq> Refuse (OtherCommand c)"
proof -
  show "verdict = Admit \<Longrightarrow> cmd = OtherCommand c \<Longrightarrow> state' \<noteq> New"
    using assms(1,3) by (auto simp: admit_def split: if_splits)
  have "(cache_sound A am' \<and> am_auth_required am' \<and> am_credentials am' = am_credentials am) \<and>
      (state' = state \<or> verdict = Admit \<and> logs_in A am cmd) \<and> verdict \<noteq> Refuse (OtherCommand c)"
  proof (cases "password_of cmd")
    case None
    from admit_other [OF None assms(1)] assms(2,3) show ?thesis by simp
  next
    case (Some pw)
    then have "check_password A now pw (state, am) = (verdict, state', am')" using assms(1) by (simp add: admit_password)
    from check_password_cases [OF this assms(2,3)] Some show ?thesis by (auto simp: logs_in_def)
  qed
  then show "cache_sound A am' \<and> am_auth_required am' \<and> am_credentials am' = am_credentials am"
    "state' = state \<or> verdict = Admit \<and> logs_in A am cmd" "verdict \<noteq> Refuse (OtherCommand c)" by simp_all
qed

lemma serve_gated:
  "serve M tf A clock b s = (h, r, s') \<Longrightarrow> gated A am0 s \<Longrightarrow> gated A am0 s'"
proof (induction b s rule: serve_induct [where M = M and A = A and clock = clock and tf = tf])
  case (step b state am sent v n verdict state' am')
  have s: "cache_sound A am" "am_auth_required am" "am_credentials am = am_credentials am0"
    "state \<noteq> New \<Longrightarrow> \<exists>cmd \<in> set sent. logs_in A am0 cmd"
    "\<And>xs c ys. sent = xs @ OtherCommand c # ys \<Longrightarrow> \<exists>cmd \<in> set xs. logs_in A am0 cmd"
    using step.prems(2) by (auto simp: gated_def)
  note a = admit_cases [OF step(2) s(1,2)]
  have l: "logs_in A am (command_of tf v) = logs_in A am0 (command_of tf v)"
    using accepted_same [OF s(3), of A] by (simp add: logs_in_def)
  have "gated A am0 (state', am', sent @ [e])" if "verdict = Refuse e" for e
    using a(1,2) a(4) s that by (auto simp: gated_def snoc_other)
  moreover have "gated A am0 (state', am', sent @ [command_of tf v])" if "verdict = Admit"
    using a(1,2,3) s that l by (auto simp: gated_def snoc_other)
  moreover have "gated A am0 (state', am', sent)" if "verdict = Hang"
    using a(1,2) s that by (auto simp: gated_def)
  ultimately show ?case
    using step.prems(1) step.IH unfolding serve_step [where clock = clock and sent = sent, OF step(1,2)] by (cases verdict) auto
qed (simp add: serve_stuck)

lemma reader_task_gated:
  "reader_task M tf A clock max_size rs rd = (e, rd') \<Longrightarrow> gated A am0 (served rd) \<Longrightarrow> gated A am0 (served rd')"
proof (induction rs arbitrary: rd)
  case (Cons r rs)
  have same: "served (rd\<lparr>rd_buffer := b\<rparr>) = served rd" for rd :: "'a reader" and b by (simp add: served_def)
  show ?case
  proof (cases "rd_state rd = Closing \<or> max_size \<le> length (rd_buffer rd) \<or> (\<exists>e. r = ReadError e) \<or> r = Bytes []")
    case False
    then obtain bs where r: "r = Bytes bs" "bs \<noteq> []" by (cases r) auto
    obtain h position rd1 where rc: "reader_commands M tf A clock 0 (rd\<lparr>rd_buffer := rd_buffer rd @ bs\<rparr>) = (h, position, rd1)"
      by (metis prod_cases3)
    have "gated A am0 (served rd1)"
      using reader_commands_serve [OF rc] serve_gated Cons.prems(2) same by (metis drop0)
    then show ?thesis using Cons.prems(1) Cons.IH False r rc same by (cases h) auto
  qed (use Cons.prems in \<open>auto split: if_splits\<close>)
qed simp

text \<open>
  C31: No command before a login.  On a server that requires a password, every command a new client
  gets through to the store, other than the connection commands, is preceded by a login with the right
  password, or with a password of the same 64-bit hash as the right one (the cache compares hashes).
  This holds for any bytes in any packets and for every command table.
\<close>

theorem no_command_before_login:
  assumes "am_auth_required (rd_auth rd)" "cache_sound A (rd_auth rd)" "rd_state rd = New" "rd_sent rd = []"
    and "reader_task M tf A clock max_size rs rd = (e, rd')" "rd_sent rd' = xs @ OtherCommand c # ys"
  shows "\<exists>cmd \<in> set xs. logs_in A (rd_auth rd) cmd"
proof -
  have "gated A (rd_auth rd) (served rd)" using assms(1-4) by (simp add: gated_def served_def)
  from reader_task_gated [OF assms(5) this] assms(6) show ?thesis by (simp add: gated_def served_def)
qed

definition bulk_command :: "string list \<Rightarrow> bytes" where
  "bulk_command args = serialize (Array (map BulkString args))"

lemma parse_bulk_command:
  assumes "search_ok M" "int (length args) \<le> MAX_MULTIBULK_LEN" "\<forall>a \<in> set args. length a \<le> MAX_BULK_LEN"
  shows "parse_value M (bulk_command args @ t) = Inr (Array (map BulkString args), length (bulk_command args))"
proof -
  have "received MAX_DEPTH (wire Resp2 (Array (map BulkString args)))"
    using assms(2,3) by (simp add: list_all_iff MAX_DEPTH_def)
  moreover have "one_line (Array (map BulkString args))" by (simp add: list_all_iff)
  moreover have "wire Resp2 (Array (map BulkString args)) = Array (map BulkString args)" by (simp add: comp_def)
  ultimately show ?thesis
    using encode_roundtrips [OF assms(1), of "Array (map BulkString args)" Resp2]
    unfolding roundtrips_def reads_def parse_value_def bulk_command_def serialize_def by (metis diff_self_eq_0 order_refl)
qed

lemma demo_login:
  "serve demo_search demo_table demo_auth (\<lambda>n. (n, n)) (bulk_command [''AUTH'', ''secret''] @ bulk_command [''GET'']) (served (demo_reader [])) =
     (False, [], Authenticated, snd (authenticate demo_auth 0 0 ''secret'' (rd_auth (demo_reader []))), [Auth ''secret'', OtherCommand ''GET''])"
proof -
  let ?am = "rd_auth (demo_reader [])"
  define am' where "am' = snd (authenticate demo_auth 0 0 ''secret'' ?am)"
  have a: "authenticate demo_auth 0 0 ''secret'' ?am = (Accepted, am')" "am_auth_required ?am" "am_auth_required am'"
    by (simp_all add: demo_reader_def create_auth_manager_def new_auth_manager_def add_password_def demo_auth_def authenticate_def
        dm_insert_def dm_values_def Let_def am'_def)
  have p: "parse_value demo_search (bulk_command [''AUTH'', ''secret''] @ bulk_command [''GET'']) =
      Inr (Array (map BulkString [''AUTH'', ''secret'']), length (bulk_command [''AUTH'', ''secret'']))"
    "parse_value demo_search (bulk_command [''GET'']) = Inr (Array (map BulkString [''GET'']), length (bulk_command [''GET'']))"
    using parse_bulk_command [OF demo_search_ok, of "[''AUTH'', ''secret'']" "bulk_command [''GET'']"]
      parse_bulk_command [OF demo_search_ok, of "[''GET'']" "[]"]
    by (simp_all add: MAX_MULTIBULK_LEN_def MAX_BULK_LEN_def)
  have c: "command_of demo_table (Array (map BulkString [''AUTH'', ''secret''])) = Auth ''secret''"
    "command_of demo_table (Array (map BulkString [''GET''])) = OtherCommand ''GET''"
    by (simp_all add: command_of_def command_values_def demo_table_def)
  have s: "served (demo_reader []) = (New, ?am, [])" by (simp add: served_def demo_reader_def)
  have "admit demo_auth (length ([] :: string command list), length ([] :: string command list))
      (command_of demo_table (Array (map BulkString [''AUTH'', ''secret'']))) (New, ?am) = (Admit, Authenticated, am')"
    unfolding c by (simp add: admit_def check_password_def a)
  note 1 = serve_step [where clock = "\<lambda>n. (n, n)" and sent = "[]", OF p(1) this, unfolded c(1)]
  have "admit demo_auth (length [Auth ''secret'' :: string command], length [Auth ''secret'' :: string command])
      (command_of demo_table (Array (map BulkString [''GET'']))) (Authenticated, am') = (Admit, Authenticated, am')"
    unfolding c by (simp add: admit_def)
  note 2 = serve_step [where clock = "\<lambda>n. (n, n)" and sent = "[Auth ''secret'']", OF p(2) this, unfolded c(2)]
  have "parse_value demo_search [] = Inl Incomplete" by (simp add: parse_value_def parse_value_depth_dispatch)
  note 3 = serve_stuck [OF this, of demo_table demo_auth "\<lambda>n. (n, n)"]
  show ?thesis unfolding s 1 am'_def [symmetric] by (simp add: 2 3)
qed

theorem no_command_before_login_witness:
  "\<exists>e rd'. reader_task demo_search demo_table demo_auth (\<lambda>n. (n, n)) 1000
      [Bytes (bulk_command [''AUTH'', ''secret''] @ bulk_command [''GET''])] (demo_reader []) = (e, rd') \<and>
    rd_sent rd' = [Auth ''secret'', OtherCommand ''GET''] \<and>
    (\<exists>cmd \<in> set [Auth ''secret'' :: string command]. logs_in demo_auth (rd_auth (demo_reader [])) cmd)"
proof -
  let ?rd = "demo_reader []"
  let ?s = "(Authenticated, snd (authenticate demo_auth 0 0 ''secret'' (rd_auth ?rd)), [Auth ''secret'', OtherCommand ''GET''])"
  have rd: "reader_of [] (served ?rd) = ?rd" "fst (served ?rd) \<noteq> Closing"
    using reader_of_sel(4) [of ?rd] by (simp_all add: demo_reader_def served_def)
  have ne: "bulk_command [''AUTH'', ''secret''] @ bulk_command [''GET''] \<noteq> []"
    by (simp add: bulk_command_def serialize_def encode_value_simps aggregate_def)
  have small: "length ([] :: bytes) < 1000" by simp
  have run: "reader_task demo_search demo_table demo_auth (\<lambda>n. (n, n)) 1000
      [Bytes (bulk_command [''AUTH'', ''secret''] @ bulk_command [''GET''])] ?rd = (Running, reader_of [] ?s)"
    using reader_task_chunk [OF rd(2) small ne, of demo_search demo_table demo_auth "\<lambda>n. (n, n)" False "[]" ?s "[]"]
    unfolding rd(1) append_Nil if_False reader_task.simps(1) using demo_login by blast
  have sent: "rd_sent (reader_of [] ?s) = [Auth ''secret''] @ OtherCommand ''GET'' # []" by (simp add: reader_of_def)
  have am: "am_auth_required (rd_auth ?rd)" "cache_sound demo_auth (rd_auth ?rd)" "rd_state ?rd = New" "rd_sent ?rd = []"
    by (simp_all add: demo_reader_def create_sound) (simp add: create_auth_manager_def new_auth_manager_def add_password_def demo_auth_def)
  show ?thesis
    by (intro exI conjI, rule run, simp only: sent append_Cons append_Nil, rule no_command_before_login [OF am run sent])
qed

end
