(* ===== verification/Stream_Data.thy ===== *)
theory Stream_Data
  imports Rust_Collections
begin

text \<open>
  Streams and consumer groups (\<open>store/stream.rs\<close> of \<open>calod-core\<close>): an append-only log of entries under
  strictly increasing ids and, per group, the entries delivered to a consumer and not yet acknowledged.

  The group keeps its pending entries twice, in the ordered list \<open>pending\<close> and in the set of the owning
  consumer.  A \<open>u64\<close> is a natural number with the wrap-around written out; the clock is an argument
  \<open>now_ms\<close>.  \<open>Panicked\<close> is the panic of the source.
\<close>

section \<open>Identifiers\<close>

datatype stream_id = StreamId (id_ms: nat) (id_seq: nat)

instantiation stream_id :: linorder
begin

definition less_eq_stream_id :: "stream_id \<Rightarrow> stream_id \<Rightarrow> bool" where
  "less_eq_stream_id a b \<longleftrightarrow> id_ms a < id_ms b \<or> id_ms a = id_ms b \<and> id_seq a \<le> id_seq b"

definition less_stream_id :: "stream_id \<Rightarrow> stream_id \<Rightarrow> bool" where
  "less_stream_id a b \<longleftrightarrow> id_ms a < id_ms b \<or> id_ms a = id_ms b \<and> id_seq a < id_seq b"

instance
  by standard (auto simp: less_eq_stream_id_def less_stream_id_def intro: stream_id.expand)

end

definition MIN_ID :: stream_id where "MIN_ID = StreamId 0 0"
definition MAX_ID :: stream_id where "MAX_ID = StreamId u64_max u64_max"

definition to_redis_string :: "stream_id \<Rightarrow> string" where
  "to_redis_string i = nat_to_string (id_ms i) @ ''-'' @ nat_to_string (id_seq i)"

definition parse_id :: "string \<Rightarrow> nat \<Rightarrow> stream_id option" where
  "parse_id s default_seq =
     (case split_once (CHR ''-'') s of
        Some (ms, seq) \<Rightarrow>
          (case parse_u64 ms of None \<Rightarrow> None
           | Some ms \<Rightarrow> (case parse_u64 seq of None \<Rightarrow> None | Some seq \<Rightarrow> Some (StreamId ms seq)))
      | None \<Rightarrow> (case parse_u64 s of None \<Rightarrow> None | Some ms \<Rightarrow> Some (StreamId ms default_seq)))"

definition parse_range_start :: "string \<Rightarrow> stream_id option" where
  "parse_range_start s = (if s = ''-'' then Some MIN_ID else parse_id s 0)"

definition parse_range_end :: "string \<Rightarrow> stream_id option" where
  "parse_range_end s = (if s = ''+'' then Some MAX_ID else parse_id s u64_max)"

section \<open>The stream\<close>

type_synonym stream_field = "bytes \<times> bytes"
type_synonym stream_entry = "stream_id \<times> stream_field list"

record pending_entry =
  pe_consumer :: string
  pe_delivery_time_ms :: nat
  pe_delivery_count :: nat

record stream_consumer =
  co_pending :: "stream_id set"
  co_seen_time_ms :: nat
  co_active_time_ms :: nat

record consumer_group =
  cg_last_delivered_id :: stream_id
  cg_pending :: "(stream_id, pending_entry) btree"
  cg_consumers :: "(string, stream_consumer) dashmap"
  cg_entries_read :: nat

record stream_data =
  sd_entries :: "(stream_id, stream_field list) btree"
  sd_last_id :: stream_id
  sd_max_deleted_id :: stream_id
  sd_entries_added :: nat
  sd_groups :: "(string, consumer_group) dashmap"

datatype stream_error = IdTooSmall | ZeroId

definition default_consumer :: stream_consumer where
  "default_consumer = \<lparr>co_pending = {}, co_seen_time_ms = 0, co_active_time_ms = 0\<rparr>"

definition new_stream :: stream_data where
  "new_stream = \<lparr>sd_entries = [], sd_last_id = MIN_ID, sd_max_deleted_id = MIN_ID, sd_entries_added = 0, sd_groups = []\<rparr>"

definition stream_len :: "stream_data \<Rightarrow> nat" where
  "stream_len s = length (sd_entries s)"

definition next_auto_id :: "stream_data \<Rightarrow> nat \<Rightarrow> stream_id" where
  "next_auto_id s now_ms =
     (if id_ms (sd_last_id s) < now_ms then StreamId now_ms 0
      else StreamId (id_ms (sd_last_id s)) (u64_saturating_add (id_seq (sd_last_id s)) 1))"

definition stream_add :: "stream_id \<Rightarrow> stream_field list \<Rightarrow> stream_data \<Rightarrow> (stream_error + stream_id) \<times> stream_data" where
  "stream_add i fvs s =
     (if i = MIN_ID then (Inl ZeroId, s)
      else if i \<le> sd_last_id s then (Inl IdTooSmall, s)
      else (Inr i, s\<lparr>sd_entries := bt_insert i fvs (sd_entries s), sd_last_id := i,
              sd_entries_added := u64_add (sd_entries_added s) 1\<rparr>))"

definition collect_limited :: "'a list \<Rightarrow> nat option \<Rightarrow> 'a list" where
  "collect_limited iter count = (case count of Some n \<Rightarrow> take n iter | None \<Rightarrow> iter)"

definition stream_range :: "stream_id \<Rightarrow> stream_id \<Rightarrow> bool \<Rightarrow> nat option \<Rightarrow> stream_data \<Rightarrow> stream_entry list" where
  "stream_range start stop reverse count s =
     (if stop < start then []
      else let iter = bt_range start stop (sd_entries s)
           in if reverse then collect_limited (rev iter) count else collect_limited iter count)"

definition read_after :: "stream_id \<Rightarrow> nat option \<Rightarrow> stream_data \<Rightarrow> stream_entry list" where
  "read_after after count s = collect_limited (bt_after after (sd_entries s)) count"

fun stream_delete :: "stream_id list \<Rightarrow> stream_data \<Rightarrow> nat \<times> stream_data" where
  "stream_delete [] s = (0, s)"
| "stream_delete (i # ids) s =
     (if bt_get (sd_entries s) i \<noteq> None then
        let s = s\<lparr>sd_entries := bt_remove i (sd_entries s), sd_max_deleted_id := max (sd_max_deleted_id s) i\<rparr>;
            (removed, s) = stream_delete ids s
        in (removed + 1, s)
      else stream_delete ids s)"

definition trim_maxlen :: "nat \<Rightarrow> stream_data \<Rightarrow> nat \<times> stream_data" where
  "trim_maxlen maxlen s =
     (let len = length (sd_entries s) in
      if len \<le> maxlen then (0, s)
      else
        let victims = take (len - maxlen) (bt_keys (sd_entries s));
            s = s\<lparr>sd_entries := fold bt_remove victims (sd_entries s)\<rparr>;
            s = (if victims \<noteq> [] \<and> sd_max_deleted_id s < last victims then s\<lparr>sd_max_deleted_id := last victims\<rparr> else s)
        in (length victims, s))"

definition max_entry_id :: "stream_data \<Rightarrow> stream_id option" where
  "max_entry_id s = (if sd_entries s = [] then None else Some (fst (last (sd_entries s))))"

definition first_entry :: "stream_data \<Rightarrow> stream_entry option" where
  "first_entry s = (case sd_entries s of [] \<Rightarrow> None | e # _ \<Rightarrow> Some e)"

definition last_entry :: "stream_data \<Rightarrow> stream_entry option" where
  "last_entry s = (if sd_entries s = [] then None else Some (last (sd_entries s)))"

definition set_last_id :: "stream_id \<Rightarrow> nat option \<Rightarrow> stream_id option \<Rightarrow> stream_data \<Rightarrow> stream_data" where
  "set_last_id i entries_added max_deleted s =
     s\<lparr>sd_last_id := i, sd_entries_added := unwrap_or entries_added (sd_entries_added s),
       sd_max_deleted_id := unwrap_or max_deleted (sd_max_deleted_id s)\<rparr>"

section \<open>Groups and consumers\<close>

definition group_exists :: "string \<Rightarrow> stream_data \<Rightarrow> bool" where
  "group_exists name s = (dm_get (sd_groups s) name \<noteq> None)"

definition create_group :: "string \<Rightarrow> stream_id \<Rightarrow> stream_data \<Rightarrow> bool \<times> stream_data" where
  "create_group name start s =
     (if dm_get (sd_groups s) name \<noteq> None then (False, s)
      else (True, s\<lparr>sd_groups := dm_insert name
             \<lparr>cg_last_delivered_id = start, cg_pending = [], cg_consumers = [], cg_entries_read = 0\<rparr> (sd_groups s)\<rparr>))"

definition set_group_id :: "string \<Rightarrow> stream_id \<Rightarrow> stream_data \<Rightarrow> bool \<times> stream_data" where
  "set_group_id name i s =
     (case dm_get (sd_groups s) name of
        Some g \<Rightarrow> (True, s\<lparr>sd_groups := dm_insert name (g\<lparr>cg_last_delivered_id := i\<rparr>) (sd_groups s)\<rparr>)
      | None \<Rightarrow> (False, s))"

definition destroy_group :: "string \<Rightarrow> stream_data \<Rightarrow> bool \<times> stream_data" where
  "destroy_group name s = (dm_get (sd_groups s) name \<noteq> None, s\<lparr>sd_groups := dm_remove name (sd_groups s)\<rparr>)"

definition create_consumer :: "string \<Rightarrow> string \<Rightarrow> nat \<Rightarrow> stream_data \<Rightarrow> bool option \<times> stream_data" where
  "create_consumer grp consumer now_ms s =
     (case dm_get (sd_groups s) grp of
        None \<Rightarrow> (None, s)
      | Some g \<Rightarrow>
          if dm_get (cg_consumers g) consumer \<noteq> None then (Some False, s)
          else (Some True, s\<lparr>sd_groups := dm_insert grp
                 (g\<lparr>cg_consumers := dm_insert consumer
                    (default_consumer\<lparr>co_seen_time_ms := now_ms, co_active_time_ms := now_ms\<rparr>) (cg_consumers g)\<rparr>) (sd_groups s)\<rparr>))"

text \<open>\<open>for id in &c.pending\<close>: the order of the removals does not matter.\<close>

definition del_consumer :: "string \<Rightarrow> string \<Rightarrow> stream_data \<Rightarrow> nat option \<times> stream_data" where
  "del_consumer grp consumer s =
     (case dm_get (sd_groups s) grp of
        None \<Rightarrow> (None, s)
      | Some g \<Rightarrow>
          (case dm_get (cg_consumers g) consumer of
             None \<Rightarrow> (Some 0, s)
           | Some c \<Rightarrow>
               (Some (card (co_pending c)), s\<lparr>sd_groups := dm_insert grp
                  (g\<lparr>cg_consumers := dm_remove consumer (cg_consumers g),
                     cg_pending := filter (\<lambda>(i, _). i \<notin> co_pending c) (cg_pending g)\<rparr>) (sd_groups s)\<rparr>)))"

section \<open>Delivery\<close>

text \<open>One turn of the delivery loop of \<open>group_read_new\<close>.\<close>

definition deliver :: "string \<Rightarrow> nat \<Rightarrow> bool \<Rightarrow> stream_id \<Rightarrow> consumer_group \<Rightarrow> consumer_group" where
  "deliver consumer now_ms noack i g =
     (let g = g\<lparr>cg_last_delivered_id := i, cg_entries_read := u64_add (cg_entries_read g) 1\<rparr>
      in if noack then g
         else g\<lparr>cg_pending := bt_insert i \<lparr>pe_consumer = consumer, pe_delivery_time_ms = now_ms, pe_delivery_count = 1\<rparr> (cg_pending g),
                cg_consumers := dm_modify consumer (co_pending_update (insert i)) (cg_consumers g)\<rparr>)"

definition group_read_new ::
  "string \<Rightarrow> string \<Rightarrow> nat option \<Rightarrow> nat \<Rightarrow> bool \<Rightarrow> stream_data \<Rightarrow> stream_entry list option \<times> stream_data" where
  "group_read_new grp consumer count now_ms noack s =
     (case dm_get (sd_groups s) grp of
        None \<Rightarrow> (None, s)
      | Some g \<Rightarrow>
          let entries = collect_limited (bt_after (cg_last_delivered_id g) (sd_entries s)) count;
              g = g\<lparr>cg_consumers := dm_or_insert consumer default_consumer (cg_consumers g)\<rparr>;
              g = fold (deliver consumer now_ms noack) (map fst entries) g;
              g = g\<lparr>cg_consumers := dm_modify consumer
                     (\<lambda>c. c\<lparr>co_seen_time_ms := now_ms,
                            co_active_time_ms := (if entries \<noteq> [] then now_ms else co_active_time_ms c)\<rparr>) (cg_consumers g)\<rparr>
          in (Some entries, s\<lparr>sd_groups := dm_insert grp g (sd_groups s)\<rparr>))"

definition group_read_history ::
  "string \<Rightarrow> string \<Rightarrow> stream_id \<Rightarrow> nat option \<Rightarrow> nat \<Rightarrow> stream_data \<Rightarrow> stream_entry list option \<times> stream_data" where
  "group_read_history grp consumer from count now_ms s =
     (case dm_get (sd_groups s) grp of
        None \<Rightarrow> (None, s)
      | Some g \<Rightarrow>
          let ids = collect_limited (map fst (filter (\<lambda>(_, p). pe_consumer p = consumer) (bt_from from (cg_pending g)))) count;
              result = map (\<lambda>i. (i, unwrap_or (bt_get (sd_entries s) i) [])) ids;
              g = g\<lparr>cg_consumers := dm_modify consumer (\<lambda>c. c\<lparr>co_seen_time_ms := now_ms\<rparr>) (cg_consumers g)\<rparr>
          in (Some result, s\<lparr>sd_groups := dm_insert grp g (sd_groups s)\<rparr>))"

text \<open>Taking an entry off the pending list and off its owner, as \<open>ack\<close>, \<open>claim\<close> and \<open>autoclaim\<close> do.\<close>

definition drop_pending :: "stream_id \<Rightarrow> consumer_group \<Rightarrow> consumer_group" where
  "drop_pending i g =
     (case bt_get (cg_pending g) i of
        None \<Rightarrow> g
      | Some p \<Rightarrow>
          g\<lparr>cg_pending := bt_remove i (cg_pending g),
            cg_consumers := dm_modify (pe_consumer p) (co_pending_update (\<lambda>q. q - {i})) (cg_consumers g)\<rparr>)"

fun ack_ids :: "stream_id list \<Rightarrow> consumer_group \<Rightarrow> nat \<times> consumer_group" where
  "ack_ids [] g = (0, g)"
| "ack_ids (i # ids) g =
     (if bt_get (cg_pending g) i \<noteq> None then let (n, g) = ack_ids ids (drop_pending i g) in (n + 1, g)
      else ack_ids ids g)"

definition stream_ack :: "string \<Rightarrow> stream_id list \<Rightarrow> stream_data \<Rightarrow> nat option \<times> stream_data" where
  "stream_ack grp ids s =
     (case dm_get (sd_groups s) grp of
        None \<Rightarrow> (None, s)
      | Some g \<Rightarrow> let (n, g) = ack_ids ids g in (Some n, s\<lparr>sd_groups := dm_insert grp g (sd_groups s)\<rparr>))"

section \<open>Reading the pending list\<close>

record pending_summary =
  ps_count :: nat
  ps_min_id :: "stream_id option"
  ps_max_id :: "stream_id option"
  ps_consumers :: "(string \<times> nat) list"

record pending_detail =
  pd_id :: stream_id
  pd_consumer :: string
  pd_idle_ms :: nat
  pd_delivery_count :: nat

datatype 'a outcome = Panicked | Returned 'a

definition pending_summary_of :: "string \<Rightarrow> stream_data \<Rightarrow> pending_summary option" where
  "pending_summary_of grp s =
     (case dm_get (sd_groups s) grp of
        None \<Rightarrow> None
      | Some g \<Rightarrow>
          let per = fold (\<lambda>(_, p) m. dm_insert (pe_consumer p) (unwrap_or (dm_get m (pe_consumer p)) 0 + 1) m) (cg_pending g) []
          in Some \<lparr>ps_count = length (cg_pending g),
               ps_min_id = (if cg_pending g = [] then None else Some (fst (hd (cg_pending g)))),
               ps_max_id = (if cg_pending g = [] then None else Some (fst (last (cg_pending g)))),
               ps_consumers = sort per\<rparr>)"

text \<open>The loop of \<open>pending_extended\<close>; the count is compared after a row is pushed.\<close>

fun pending_rows ::
  "nat \<Rightarrow> string option \<Rightarrow> nat option \<Rightarrow> nat \<Rightarrow> (stream_id, pending_entry) btree \<Rightarrow> pending_detail list \<Rightarrow> pending_detail list" where
  "pending_rows count consumer min_idle_ms now_ms [] out = out"
| "pending_rows count consumer min_idle_ms now_ms ((i, p) # ps) out =
     (if \<not> is_none_or consumer (\<lambda>cn. pe_consumer p = cn) then pending_rows count consumer min_idle_ms now_ms ps out
      else
        let idle = now_ms - pe_delivery_time_ms p in
        if \<not> is_none_or min_idle_ms (\<lambda>mi. mi \<le> idle) then pending_rows count consumer min_idle_ms now_ms ps out
        else
          let out = out @ [\<lparr>pd_id = i, pd_consumer = pe_consumer p, pd_idle_ms = idle, pd_delivery_count = pe_delivery_count p\<rparr>]
          in if count \<le> length out then out else pending_rows count consumer min_idle_ms now_ms ps out)"

text \<open>\<open>BTreeMap::range\<close> panics when the start lies behind the end.\<close>

definition pending_extended ::
  "string \<Rightarrow> stream_id \<Rightarrow> stream_id \<Rightarrow> nat \<Rightarrow> string option \<Rightarrow> nat option \<Rightarrow> nat \<Rightarrow> stream_data \<Rightarrow> pending_detail list option outcome" where
  "pending_extended grp start stop count consumer min_idle_ms now_ms s =
     (case dm_get (sd_groups s) grp of
        None \<Rightarrow> Returned None
      | Some g \<Rightarrow>
          if stop < start then Panicked
          else Returned (Some (pending_rows count consumer min_idle_ms now_ms (bt_range start stop (cg_pending g)) [])))"

section \<open>Claiming\<close>

record claim_options =
  cl_min_idle_ms :: nat
  cl_set_idle_ms :: "nat option"
  cl_set_time_ms :: "nat option"
  cl_set_retry :: "nat option"
  cl_force :: bool
  cl_justid :: bool

text \<open>Making \<open>consumer\<close> the owner of an entry, as \<open>claim\<close> and \<open>autoclaim\<close> do.\<close>

definition transfer :: "string \<Rightarrow> nat \<Rightarrow> nat \<Rightarrow> nat \<Rightarrow> stream_id \<Rightarrow> consumer_group \<Rightarrow> consumer_group" where
  "transfer consumer now_ms delivery_time delivery_count i g =
     (let consumers =
            (case bt_get (cg_pending g) i of
               Some p \<Rightarrow>
                 if pe_consumer p \<noteq> consumer
                 then dm_modify (pe_consumer p) (co_pending_update (\<lambda>q. q - {i})) (cg_consumers g) else cg_consumers g
             | None \<Rightarrow> cg_consumers g)
      in g\<lparr>cg_pending := bt_insert i \<lparr>pe_consumer = consumer, pe_delivery_time_ms = delivery_time, pe_delivery_count = delivery_count\<rparr> (cg_pending g),
           cg_consumers := dm_modify consumer
             (\<lambda>c. c\<lparr>co_pending := insert i (co_pending c), co_seen_time_ms := now_ms, co_active_time_ms := now_ms\<rparr>) consumers\<rparr>)"

fun claim_ids ::
  "(stream_id, stream_field list) btree \<Rightarrow> string \<Rightarrow> claim_options \<Rightarrow> nat \<Rightarrow> stream_id list \<Rightarrow> consumer_group \<Rightarrow>
   stream_entry list \<times> consumer_group" where
  "claim_ids entries consumer opt now_ms [] g = ([], g)"
| "claim_ids entries consumer opt now_ms (i # ids) g =
     (let in_pel = (bt_get (cg_pending g) i \<noteq> None) in
      if \<not> in_pel \<and> \<not> cl_force opt then claim_ids entries consumer opt now_ms ids g
      else case bt_get entries i of
        None \<Rightarrow> claim_ids entries consumer opt now_ms ids (drop_pending i g)
      | Some field_values \<Rightarrow>
          if is_some_and (bt_get (cg_pending g) i) (\<lambda>p. now_ms - pe_delivery_time_ms p < cl_min_idle_ms opt)
          then claim_ids entries consumer opt now_ms ids g
          else
            let prev_count = (case bt_get (cg_pending g) i of Some p \<Rightarrow> pe_delivery_count p | None \<Rightarrow> 0);
                delivery_time = unwrap_or (cl_set_time_ms opt) (now_ms - unwrap_or (cl_set_idle_ms opt) 0);
                delivery_count =
                  (case cl_set_retry opt of Some rc \<Rightarrow> rc
                   | None \<Rightarrow> if cl_justid opt then prev_count else u64_add prev_count 1);
                (claimed, g) = claim_ids entries consumer opt now_ms ids (transfer consumer now_ms delivery_time delivery_count i g)
            in ((i, field_values) # claimed, g))"

definition stream_claim ::
  "string \<Rightarrow> string \<Rightarrow> stream_id list \<Rightarrow> claim_options \<Rightarrow> nat \<Rightarrow> stream_data \<Rightarrow> stream_entry list option \<times> stream_data" where
  "stream_claim grp consumer ids opt now_ms s =
     (case dm_get (sd_groups s) grp of
        None \<Rightarrow> (None, s)
      | Some g \<Rightarrow>
          let g = g\<lparr>cg_consumers := dm_or_insert consumer default_consumer (cg_consumers g)\<rparr>;
              (claimed, g) = claim_ids (sd_entries s) consumer opt now_ms ids g
          in (Some claimed, s\<lparr>sd_groups := dm_insert grp g (sd_groups s)\<rparr>))"

record autoclaim_result =
  ar_cursor :: stream_id
  ar_claimed :: "stream_entry list"
  ar_deleted :: "stream_id list"

text \<open>The scan of \<open>autoclaim\<close> over the candidates; \<open>attempts\<close> is what is left to claim.\<close>

fun autoclaim_ids ::
  "(stream_id, stream_field list) btree \<Rightarrow> string \<Rightarrow> nat \<Rightarrow> nat \<Rightarrow> bool \<Rightarrow> nat \<Rightarrow> stream_id list \<Rightarrow> consumer_group \<Rightarrow>
   autoclaim_result outcome \<times> consumer_group" where
  "autoclaim_ids entries consumer min_idle_ms now_ms justid attempts [] g =
     (Returned \<lparr>ar_cursor = MIN_ID, ar_claimed = [], ar_deleted = []\<rparr>, g)"
| "autoclaim_ids entries consumer min_idle_ms now_ms justid attempts (i # ids) g =
     (if attempts = 0 then (Returned \<lparr>ar_cursor = i, ar_claimed = [], ar_deleted = []\<rparr>, g)
      else case bt_get (cg_pending g) i of
        None \<Rightarrow> (Panicked, g)
      | Some p \<Rightarrow>
          if now_ms - pe_delivery_time_ms p < min_idle_ms then autoclaim_ids entries consumer min_idle_ms now_ms justid attempts ids g
          else case bt_get entries i of
            None \<Rightarrow>
              (case autoclaim_ids entries consumer min_idle_ms now_ms justid attempts ids (drop_pending i g) of
                 (Returned r, g) \<Rightarrow> (Returned (r\<lparr>ar_deleted := i # ar_deleted r\<rparr>), g)
               | (Panicked, g) \<Rightarrow> (Panicked, g))
          | Some field_values \<Rightarrow>
              let delivery_count = (if justid then pe_delivery_count p else u64_add (pe_delivery_count p) 1)
              in (case autoclaim_ids entries consumer min_idle_ms now_ms justid (attempts - 1) ids
                         (transfer consumer now_ms now_ms delivery_count i g) of
                    (Returned r, g) \<Rightarrow> (Returned (r\<lparr>ar_claimed := (i, field_values) # ar_claimed r\<rparr>), g)
                  | (Panicked, g) \<Rightarrow> (Panicked, g)))"

definition autoclaim ::
  "string \<Rightarrow> string \<Rightarrow> nat \<Rightarrow> stream_id \<Rightarrow> nat \<Rightarrow> nat \<Rightarrow> bool \<Rightarrow> stream_data \<Rightarrow> autoclaim_result option outcome \<times> stream_data" where
  "autoclaim grp consumer min_idle_ms start count now_ms justid s =
     (case dm_get (sd_groups s) grp of
        None \<Rightarrow> (Returned None, s)
      | Some g \<Rightarrow>
          let g = g\<lparr>cg_consumers := dm_or_insert consumer default_consumer (cg_consumers g)\<rparr>;
              candidates = map fst (bt_from start (cg_pending g));
              (r, g) = autoclaim_ids (sd_entries s) consumer min_idle_ms now_ms justid (max count 1) candidates g
          in (case r of Panicked \<Rightarrow> Panicked | Returned r \<Rightarrow> Returned (Some r), s\<lparr>sd_groups := dm_insert grp g (sd_groups s)\<rparr>))"

section \<open>Introspection\<close>

record group_info =
  gi_name :: string
  gi_consumers :: nat
  gi_pending :: nat
  gi_last_delivered_id :: stream_id
  gi_entries_read :: nat
  gi_lag :: nat

record consumer_info =
  ci_name :: string
  ci_pending :: nat
  ci_idle_ms :: nat
  ci_inactive_ms :: nat

definition group_infos :: "stream_data \<Rightarrow> group_info list" where
  "group_infos s =
     map (\<lambda>(name, g). \<lparr>gi_name = name, gi_consumers = length (cg_consumers g), gi_pending = length (cg_pending g),
        gi_last_delivered_id = cg_last_delivered_id g, gi_entries_read = cg_entries_read g,
        gi_lag = length (bt_after (cg_last_delivered_id g) (sd_entries s))\<rparr>) (sd_groups s)"

definition consumer_infos :: "string \<Rightarrow> nat \<Rightarrow> stream_data \<Rightarrow> consumer_info list option" where
  "consumer_infos grp now_ms s =
     (case dm_get (sd_groups s) grp of
        None \<Rightarrow> None
      | Some g \<Rightarrow> Some (map (\<lambda>(name, c). \<lparr>ci_name = name, ci_pending = card (co_pending c),
          ci_idle_ms = now_ms - co_seen_time_ms c, ci_inactive_ms = now_ms - co_active_time_ms c\<rparr>) (cg_consumers g)))"

end
