(* ===== verification/Stream_Groups.thy ===== *)
theory Stream_Groups
  imports Stream_Data
begin

text \<open>
  The operations of a stream as steps and their invariant: the entries lie below the last id, and the
  two records of who holds a pending entry agree as long as a group is not set back.
\<close>

section \<open>Operations as steps\<close>

datatype stream_op =
    Add stream_id "stream_field list"
  | Delete "stream_id list"
  | Trim nat
  | SetLastId stream_id "nat option" "stream_id option"
  | CreateGroup string stream_id
  | SetGroupId string stream_id
  | DestroyGroup string
  | CreateConsumer string string nat
  | DelConsumer string string
  | ReadNew string string "nat option" nat bool
  | ReadHistory string string stream_id "nat option" nat
  | Ack string "stream_id list"
  | Claim string string "stream_id list" claim_options nat
  | AutoClaim string string nat stream_id nat nat bool

fun stream_step :: "stream_op \<Rightarrow> stream_data \<Rightarrow> stream_data" where
  "stream_step (Add i fvs) s = snd (stream_add i fvs s)"
| "stream_step (Delete ids) s = snd (stream_delete ids s)"
| "stream_step (Trim n) s = snd (trim_maxlen n s)"
| "stream_step (SetLastId i n d) s = set_last_id i n d s"
| "stream_step (CreateGroup grp i) s = snd (create_group grp i s)"
| "stream_step (SetGroupId grp i) s = snd (set_group_id grp i s)"
| "stream_step (DestroyGroup grp) s = snd (destroy_group grp s)"
| "stream_step (CreateConsumer grp c now_ms) s = snd (create_consumer grp c now_ms s)"
| "stream_step (DelConsumer grp c) s = snd (del_consumer grp c s)"
| "stream_step (ReadNew grp c count now_ms noack) s = snd (group_read_new grp c count now_ms noack s)"
| "stream_step (ReadHistory grp c from count now_ms) s = snd (group_read_history grp c from count now_ms s)"
| "stream_step (Ack grp ids) s = snd (stream_ack grp ids s)"
| "stream_step (Claim grp c ids opt now_ms) s = snd (stream_claim grp c ids opt now_ms s)"
| "stream_step (AutoClaim grp c idle start count now_ms justid) s = snd (autoclaim grp c idle start count now_ms justid s)"

section \<open>Ownership of pending entries\<close>

definition owner :: "consumer_group \<Rightarrow> stream_id \<Rightarrow> string option" where
  "owner g i = map_option pe_consumer (bt_get (cg_pending g) i)"

definition held :: "consumer_group \<Rightarrow> string \<Rightarrow> stream_id set" where
  "held g c = (case dm_get (cg_consumers g) c of None \<Rightarrow> {} | Some co \<Rightarrow> co_pending co)"

definition group_ok :: "consumer_group \<Rightarrow> bool" where
  "group_ok g \<longleftrightarrow> bt_ok (cg_pending g) \<and> dm_ok (cg_consumers g) \<and>
     (\<forall>i c. owner g i = Some c \<longleftrightarrow> i \<in> held g c) \<and> (\<forall>i. owner g i \<noteq> None \<longrightarrow> i \<le> cg_last_delivered_id g)"

definition stream_ok :: "stream_data \<Rightarrow> bool" where
  "stream_ok s \<longleftrightarrow> bt_ok (sd_entries s) \<and> (\<forall>i. bt_get (sd_entries s) i \<noteq> None \<longrightarrow> MIN_ID < i \<and> i \<le> sd_last_id s) \<and>
     dm_ok (sd_groups s) \<and> (\<forall>grp g. dm_get (sd_groups s) grp = Some g \<longrightarrow> group_ok g)"

text \<open>
  A group is set back by \<open>XGROUP SETID\<close> with a smaller id, and a forced claim may take an entry that was
  never delivered; the shard accepts \<open>XSETID\<close> only with an id that is not below an entry.
\<close>

fun forward :: "stream_op \<Rightarrow> stream_data \<Rightarrow> bool" where
  "forward (SetGroupId grp i) s = is_none_or (dm_get (sd_groups s) grp) (\<lambda>g. cg_last_delivered_id g \<le> i)"
| "forward (Claim grp c ids opt now_ms) s =
     (\<not> cl_force opt \<or> is_none_or (dm_get (sd_groups s) grp) (\<lambda>g. \<forall>i \<in> set ids. i \<le> cg_last_delivered_id g))"
| "forward (SetLastId i n d) s = is_none_or (max_entry_id s) (\<lambda>top. top \<le> i)"
| "forward _ s = True"

lemmas owner_simps = owner_def held_def dm_simps bt_get_insert bt_get_remove

lemma drop_pending_owner:
  "owner (drop_pending i g) j = (if j = i then None else owner g j)"
  "held (drop_pending i g) c = (if owner g i = Some c then held g c - {i} else held g c)"
  "cg_last_delivered_id (drop_pending i g) = cg_last_delivered_id g"
  by (auto simp: drop_pending_def owner_simps split: option.splits)

lemma transfer_owner:
  assumes "dm_get (cg_consumers g) consumer \<noteq> None"
  shows "owner (transfer consumer now_ms t n i g) j = (if j = i then Some consumer else owner g j)"
    "held (transfer consumer now_ms t n i g) c =
       (if c = consumer then insert i (held g c) else if owner g i = Some c then held g c - {i} else held g c)"
    "cg_last_delivered_id (transfer consumer now_ms t n i g) = cg_last_delivered_id g"
    "dm_get (cg_consumers (transfer consumer now_ms t n i g)) consumer \<noteq> None"
  using assms by (auto simp: transfer_def owner_simps Let_def split: option.splits)

lemma deliver_owner:
  assumes "dm_get (cg_consumers g) consumer \<noteq> None"
  shows "owner (deliver consumer now_ms noack i g) j = (if j = i \<and> \<not> noack then Some consumer else owner g j)"
    "held (deliver consumer now_ms noack i g) c = (if c = consumer \<and> \<not> noack then insert i (held g c) else held g c)"
    "cg_last_delivered_id (deliver consumer now_ms noack i g) = i"
    "dm_get (cg_consumers (deliver consumer now_ms noack i g)) consumer \<noteq> None"
  using assms by (auto simp: deliver_def owner_simps Let_def split: option.splits)

lemma group_maps_ok:
  assumes "bt_ok (cg_pending g)" "dm_ok (cg_consumers g)"
  shows "bt_ok (cg_pending (drop_pending i g))" "dm_ok (cg_consumers (drop_pending i g))"
    "bt_ok (cg_pending (transfer consumer now_ms t n i g))" "dm_ok (cg_consumers (transfer consumer now_ms t n i g))"
    "bt_ok (cg_pending (deliver consumer now_ms noack i g))" "dm_ok (cg_consumers (deliver consumer now_ms noack i g))"
  using assms by (auto simp: drop_pending_def transfer_def deliver_def Let_def bt_ok_insert bt_ok_remove split: option.splits)

lemma drop_pending_ok: "group_ok g \<Longrightarrow> group_ok (drop_pending i g)"
  by (auto simp: group_ok_def drop_pending_owner group_maps_ok split: if_splits)

lemma drop_pending_consumers: "dm_get (cg_consumers g) c \<noteq> None \<Longrightarrow> dm_get (cg_consumers (drop_pending i g)) c \<noteq> None"
  by (auto simp: drop_pending_def dm_simps split: option.splits)

lemma transfer_ok:
  assumes "group_ok g" "dm_get (cg_consumers g) consumer \<noteq> None" "i \<le> cg_last_delivered_id g"
  shows "group_ok (transfer consumer now_ms t n i g)"
  using assms unfolding group_ok_def transfer_owner [OF assms(2)]
  by (intro conjI group_maps_ok) (auto split: if_splits)

lemma group_ok_delivered: "group_ok g \<Longrightarrow> owner g i \<noteq> None \<Longrightarrow> i \<le> cg_last_delivered_id g"
  unfolding group_ok_def by blast

lemma deliver_ok:
  assumes "group_ok g" "dm_get (cg_consumers g) consumer \<noteq> None" "cg_last_delivered_id g < i"
  shows "group_ok (deliver consumer now_ms noack i g)"
proof -
  have "owner g i = None" using group_ok_delivered [OF assms(1), of i] assms(3) by fastforce
  moreover have "owner g j \<noteq> None \<Longrightarrow> j \<le> i" for j using group_ok_delivered [OF assms(1), of j] assms(3) by simp
  moreover from calculation(1) assms(1) have "i \<notin> held g c" for c unfolding group_ok_def by (metis option.distinct(1))
  ultimately show ?thesis using assms(1) unfolding group_ok_def deliver_owner [OF assms(2)]
    by (intro conjI group_maps_ok) (auto split: if_splits)
qed
section \<open>The loops\<close>

text \<open>
  Acknowledging, claiming and autoclaiming change a group by a sequence of two kinds of moves: an entry
  that \<open>D\<close> allows to drop leaves the pending list, and an entry that is pending or that \<open>F\<close> admits
  goes to \<open>consumer\<close>.
\<close>

inductive moves :: "string \<Rightarrow> (stream_id \<Rightarrow> bool) \<Rightarrow> (stream_id \<Rightarrow> bool) \<Rightarrow> consumer_group \<Rightarrow> consumer_group \<Rightarrow> bool"
  for consumer D F where
  stay: "moves consumer D F g g"
| dropped: "D i \<Longrightarrow> moves consumer D F (drop_pending i g) g' \<Longrightarrow> moves consumer D F g g'"
| taken: "owner g i \<noteq> None \<or> F i \<Longrightarrow> moves consumer D F (transfer consumer now_ms t n i g) g' \<Longrightarrow> moves consumer D F g g'"

lemma ack_ids_moves: "(\<And>i. i \<in> set ids \<Longrightarrow> D i) \<Longrightarrow> moves consumer D F g (snd (ack_ids ids g))"
  by (induction ids arbitrary: g) (auto simp: case_prod_unfold Let_def intro: stay dropped)

lemma pending_owner: "bt_get (cg_pending g) i \<noteq> None \<longleftrightarrow> owner g i \<noteq> None"
  by (simp add: owner_def)

lemma claim_ids_moves:
  assumes "\<And>i. cl_force opt \<Longrightarrow> i \<in> set ids \<Longrightarrow> F i"
  shows "moves consumer (\<lambda>i. bt_get entries i = None) F g (snd (claim_ids entries consumer opt now_ms ids g))"
  using assms
proof (induction ids arbitrary: g)
  case (Cons i ids)
  then have IH: "moves consumer (\<lambda>i. bt_get entries i = None) F g (snd (claim_ids entries consumer opt now_ms ids g))" for g by simp
  have F: "owner g i \<noteq> None \<or> F i" if "\<not> (bt_get (cg_pending g) i = None \<and> \<not> cl_force opt)"
    using that Cons.prems by (auto simp: owner_def)
  show ?case
    by (simp add: Let_def case_prod_unfold split: option.split) (auto intro: IH dropped [OF _ IH] taken [OF F IH])
qed (simp add: stay)

lemma snd_outcome [simp]:
  "snd (case x of (Returned r, g) \<Rightarrow> (Returned (f r), g) | (Panicked, g) \<Rightarrow> (Panicked, g)) = snd x"
  by (simp split: prod.split outcome.split)

lemma autoclaim_ids_moves:
  "moves consumer (\<lambda>i. bt_get entries i = None) F g (snd (autoclaim_ids entries consumer min_idle_ms now_ms justid attempts ids g))"
proof (induction ids arbitrary: g attempts justid)
  case (Cons i ids)
  show ?case
    by (auto simp: Let_def owner_def split: option.split intro!: stay Cons.IH dropped [OF _ Cons.IH] taken [OF _ Cons.IH])
qed (simp add: stay)

lemma moves_ok:
  assumes "moves consumer D F g g'" "group_ok g" "dm_get (cg_consumers g) consumer \<noteq> None" "\<And>i. F i \<Longrightarrow> i \<le> cg_last_delivered_id g"
  shows "group_ok g'"
  using assms
proof induction
  case (dropped i g g')
  then show ?case by (simp add: drop_pending_ok drop_pending_owner drop_pending_consumers)
next
  case (taken g i now_ms t n g')
  then have "i \<le> cg_last_delivered_id g" using group_ok_delivered [of g i] by blast
  with taken transfer_ok [of g consumer i now_ms t n] transfer_owner(3,4) [of g consumer now_ms t n i] show ?case by simp
qed

lemma deliver_all:
  assumes "dm_get (cg_consumers g) consumer \<noteq> None"
  shows "owner (fold (deliver consumer now_ms noack) ids g) j = (if j \<in> set ids \<and> \<not> noack then Some consumer else owner g j) \<and>
    held (fold (deliver consumer now_ms noack) ids g) c = (if c = consumer \<and> \<not> noack then set ids \<union> held g c else held g c) \<and>
    cg_last_delivered_id (fold (deliver consumer now_ms noack) ids g) = (if ids = [] then cg_last_delivered_id g else last ids)"
  using assms
proof (induction ids arbitrary: g)
  case (Cons i ids)
  show ?case using Cons.IH [of "deliver consumer now_ms noack i g"] deliver_owner [OF Cons.prems, of now_ms noack i] by auto
qed simp

lemma deliver_all_ok:
  assumes "group_ok g" "dm_get (cg_consumers g) consumer \<noteq> None" "sorted_wrt (<) ids" "\<forall>i \<in> set ids. cg_last_delivered_id g < i"
  shows "group_ok (fold (deliver consumer now_ms noack) ids g)"
  using assms
proof (induction ids arbitrary: g)
  case (Cons i ids)
  note d = deliver_ok [OF Cons.prems(1,2), of i now_ms noack] deliver_owner [OF Cons.prems(2), of now_ms noack i]
  show ?case using Cons.IH [of "deliver consumer now_ms noack i g"] d Cons.prems(3,4) by simp
qed simp

text \<open>Registering a consumer and noting when it was seen leave the ownership as it is.\<close>

lemma group_ok_consumers:
  assumes "group_ok g" "\<And>c. held (g\<lparr>cg_consumers := m\<rparr>) c = held g c" "dm_ok m"
  shows "group_ok (g\<lparr>cg_consumers := m\<rparr>)"
  using assms by (simp add: group_ok_def owner_def)

lemma held_registered: "held (g\<lparr>cg_consumers := dm_or_insert consumer default_consumer (cg_consumers g)\<rparr>) c = held g c"
  by (auto simp: held_def dm_simps default_consumer_def unwrap_or_def split: option.split)

lemma held_seen:
  "(\<And>co. co_pending (f co) = co_pending co) \<Longrightarrow> held (g\<lparr>cg_consumers := dm_modify consumer f (cg_consumers g)\<rparr>) c = held g c"
  by (auto simp: held_def dm_simps split: option.split)

lemma owner_consumers [simp]: "owner (g\<lparr>cg_consumers := m\<rparr>) i = owner g i"
  by (simp add: owner_def)

lemma registered:
  assumes "group_ok g"
  shows "group_ok (g\<lparr>cg_consumers := dm_or_insert consumer default_consumer (cg_consumers g)\<rparr>)"
    "dm_get (dm_or_insert consumer default_consumer (cg_consumers g)) consumer \<noteq> None"
  using assms by (auto intro!: group_ok_consumers simp: held_registered group_ok_def [of g] dm_simps)

lemma seen_ok:
  assumes "group_ok g" "\<And>co. co_pending (f co) = co_pending co"
  shows "group_ok (g\<lparr>cg_consumers := dm_modify consumer f (cg_consumers g)\<rparr>)"
  using assms by (intro group_ok_consumers) (simp_all add: held_seen group_ok_def [of g])

lemma limited_after:
  assumes "bt_ok t"
  shows "sorted_wrt (<) (map fst (collect_limited (bt_after i t) count))" "\<forall>j \<in> set (map fst (collect_limited (bt_after i t) count)). i < j"
proof -
  have "sorted_wrt (<) (map fst (bt_after i t))" using bt_ok_filter [OF assms] by (simp add: bt_after_def bt_ok_def bt_keys_def)
  then show "sorted_wrt (<) (map fst (collect_limited (bt_after i t) count))"
    by (cases count) (simp_all add: collect_limited_def take_map [symmetric] sorted_wrt_take)
  show "\<forall>j \<in> set (map fst (collect_limited (bt_after i t) count)). i < j"
    by (cases count) (auto simp: collect_limited_def bt_after_def dest: in_set_takeD)
qed

section \<open>One step of a group\<close>

text \<open>The group after an operation, and the entries of the stream: both are read off the definitions once.\<close>

definition read_new :: "string \<Rightarrow> nat option \<Rightarrow> nat \<Rightarrow> bool \<Rightarrow> (stream_id, stream_field list) btree \<Rightarrow> consumer_group \<Rightarrow> consumer_group" where
  "read_new c count now_ms noack es g =
     (let entries = collect_limited (bt_after (cg_last_delivered_id g) es) count;
          g = fold (deliver c now_ms noack) (map fst entries) (g\<lparr>cg_consumers := dm_or_insert c default_consumer (cg_consumers g)\<rparr>)
      in g\<lparr>cg_consumers := dm_modify c
             (\<lambda>co. co\<lparr>co_seen_time_ms := now_ms, co_active_time_ms := (if entries \<noteq> [] then now_ms else co_active_time_ms co)\<rparr>) (cg_consumers g)\<rparr>)"

lemma group_read_new_group: "dm_get (sd_groups s) grp = Some g \<Longrightarrow>
    group_read_new grp c count now_ms noack s =
      (Some (collect_limited (bt_after (cg_last_delivered_id g) (sd_entries s)) count),
       s\<lparr>sd_groups := dm_insert grp (read_new c count now_ms noack (sd_entries s) g) (sd_groups s)\<rparr>)"
  by (simp add: group_read_new_def read_new_def Let_def)

abbreviation next_ids :: "consumer_group \<Rightarrow> (stream_id, stream_field list) btree \<Rightarrow> nat option \<Rightarrow> stream_id list" where
  "next_ids g es count \<equiv> map fst (collect_limited (bt_after (cg_last_delivered_id g) es) count)"

lemma read_new_group:
  "owner (read_new c count now_ms noack es g) j = (if j \<in> set (next_ids g es count) \<and> \<not> noack then Some c else owner g j)"
  "held (read_new c count now_ms noack es g) c' =
     (if c' = c \<and> \<not> noack then set (next_ids g es count) \<union> held g c' else held g c')"
  "cg_last_delivered_id (read_new c count now_ms noack es g) =
     (if next_ids g es count = [] then cg_last_delivered_id g else last (next_ids g es count))"
proof -
  let ?g = "g\<lparr>cg_consumers := dm_or_insert c default_consumer (cg_consumers g)\<rparr>"
  have "dm_get (cg_consumers ?g) c \<noteq> None" by (simp add: dm_simps)
  note d = deliver_all [OF this, of now_ms noack "next_ids g es count"]
  show "owner (read_new c count now_ms noack es g) j = (if j \<in> set (next_ids g es count) \<and> \<not> noack then Some c else owner g j)"
    unfolding read_new_def Let_def owner_consumers using d by simp
  show "held (read_new c count now_ms noack es g) c' =
     (if c' = c \<and> \<not> noack then set (next_ids g es count) \<union> held g c' else held g c')"
    unfolding read_new_def Let_def by (subst held_seen) (simp_all add: d held_registered)
  show "cg_last_delivered_id (read_new c count now_ms noack es g) =
     (if next_ids g es count = [] then cg_last_delivered_id g else last (next_ids g es count))"
    unfolding read_new_def Let_def using d by simp
qed

lemma read_new_ok:
  assumes "group_ok g" "bt_ok es"
  shows "group_ok (read_new c count now_ms noack es g)"
  unfolding read_new_def Let_def
  using deliver_all_ok [OF registered(1) [OF assms(1), of c]] registered(2) [OF assms(1), of c] limited_after [OF assms(2), of "cg_last_delivered_id g" count]
  by (intro seen_ok) simp_all

section \<open>The invariant\<close>

lemma stream_ok_group:
  "stream_ok s \<Longrightarrow> group_ok g \<Longrightarrow> stream_ok (s\<lparr>sd_groups := dm_insert grp g (sd_groups s)\<rparr>)"
  by (auto simp: stream_ok_def dm_simps)

lemma stream_ok_get: "stream_ok s \<Longrightarrow> dm_get (sd_groups s) grp = Some g \<Longrightarrow> group_ok g"
  by (auto simp: stream_ok_def)

lemma bt_get_filter: "bt_get (filter (\<lambda>(k, _). P k) t) k = (if P k then bt_get t k else None)"
  by (induction t) (auto simp: bt_get_def)

lemma del_consumer_group:
  assumes "group_ok g" "dm_get (cg_consumers g) consumer = Some c"
  shows "group_ok (g\<lparr>cg_consumers := dm_remove consumer (cg_consumers g),
    cg_pending := filter (\<lambda>(i, _). i \<notin> co_pending c) (cg_pending g)\<rparr>)" (is "group_ok ?g")
proof -
  have h: "held g consumer = co_pending c" using assms(2) by (simp add: held_def)
  have "owner ?g i = (if i \<in> held g consumer then None else owner g i)" for i by (simp add: owner_def bt_get_filter h)
  moreover have "held ?g c' = (if c' = consumer then {} else held g c')" for c' by (simp add: held_def dm_simps)
  ultimately show ?thesis using assms(1) unfolding group_ok_def
    by (simp add: bt_ok_filter) (metis option.inject)
qed

definition shrinks :: "stream_data \<Rightarrow> stream_data \<Rightarrow> bool" where
  "shrinks s s' \<longleftrightarrow> sd_groups s' = sd_groups s \<and> sd_last_id s' = sd_last_id s \<and> (bt_ok (sd_entries s) \<longrightarrow> bt_ok (sd_entries s')) \<and>
     (\<forall>i. bt_get (sd_entries s') i = bt_get (sd_entries s) i \<or> bt_get (sd_entries s') i = None)"

lemma shrinks_trans:
  assumes "shrinks s s'" "shrinks s' s''"
  shows "shrinks s s''"
proof -
  have "bt_get (sd_entries s'') i = bt_get (sd_entries s) i \<or> bt_get (sd_entries s'') i = None" for i
    using assms unfolding shrinks_def by metis
  then show ?thesis using assms unfolding shrinks_def by simp
qed

lemma shrinks_delete: "shrinks s (snd (stream_delete ids s))"
proof (induction ids arbitrary: s)
  case (Cons i ids)
  let ?s = "s\<lparr>sd_entries := bt_remove i (sd_entries s), sd_max_deleted_id := max (sd_max_deleted_id s) i\<rparr>"
  have "shrinks s ?s" by (simp add: shrinks_def bt_ok_remove bt_get_remove)
  from shrinks_trans [OF this Cons] Cons show ?case by (simp add: Let_def case_prod_unfold)
qed (simp add: shrinks_def)

lemma shrinks_trim: "shrinks s (snd (trim_maxlen n s))"
  by (auto simp: shrinks_def trim_maxlen_def Let_def bt.get_remove_all bt.ok_remove_all)

lemma stream_ok_shrinks:
  assumes "stream_ok s" "shrinks s s'"
  shows "stream_ok s'"
proof -
  have "MIN_ID < i \<and> i \<le> sd_last_id s'" if "bt_get (sd_entries s') i \<noteq> None" for i
    using assms that unfolding shrinks_def stream_ok_def by metis
  then show ?thesis using assms unfolding shrinks_def stream_ok_def by simp
qed

lemma empty_group_ok: "group_ok \<lparr>cg_last_delivered_id = i, cg_pending = [], cg_consumers = [], cg_entries_read = n\<rparr>"
  by (simp add: group_ok_def owner_def held_def)

lemma add_ok:
  assumes "stream_ok s"
  shows "stream_ok (snd (stream_add i fvs s))"
proof (cases "i = MIN_ID \<or> i \<le> sd_last_id s")
  case False
  have "MIN_ID \<le> i" by (cases i) (auto simp: MIN_ID_def less_eq_stream_id_def)
  then have "MIN_ID < j \<and> j \<le> i" if "j = i \<or> bt_get (sd_entries s) j \<noteq> None" for j
    using that False assms unfolding stream_ok_def by (metis less_le order_trans linear)
  then show ?thesis using False assms by (simp add: stream_add_def stream_ok_def bt_ok_insert bt_get_insert)
qed (use assms in \<open>auto simp: stream_add_def\<close>)

lemma sorted_last: "sorted xs \<Longrightarrow> x \<in> set xs \<Longrightarrow> x \<le> last xs"
  by (induction xs rule: rev_induct) (auto simp: sorted_append)

lemma set_last_id_ok:
  assumes "stream_ok s" "is_none_or (max_entry_id s) (\<lambda>top. top \<le> i)"
  shows "stream_ok (set_last_id i n d s)"
proof -
  have "j \<le> i" if "bt_get (sd_entries s) j \<noteq> None" for j
  proof -
    from that have j: "j \<in> set (map fst (sd_entries s))" using bt_keys_get [of j "sd_entries s"] by (simp add: bt_keys_def)
    then have ne: "sd_entries s \<noteq> []" by auto
    have "sorted (map fst (sd_entries s))" using assms(1) by (simp add: stream_ok_def bt_ok_def bt_keys_def strict_sorted_iff)
    then have "j \<le> last (map fst (sd_entries s))" using j by (rule sorted_last)
    with assms(2) ne show ?thesis by (simp add: max_entry_id_def last_map)
  qed
  with assms(1) show ?thesis by (auto simp: stream_ok_def set_last_id_def)
qed

lemma claimed_ok:
  assumes "stream_ok s" "dm_get (sd_groups s) grp = Some g" "forward (Claim grp c ids opt now_ms) s"
  shows "group_ok (snd (claim_ids (sd_entries s) c opt now_ms ids (g\<lparr>cg_consumers := dm_or_insert c default_consumer (cg_consumers g)\<rparr>)))"
proof -
  note ok = stream_ok_get [OF assms(1,2)]
  have "moves c (\<lambda>i. bt_get (sd_entries s) i = None) (\<lambda>i. i \<le> cg_last_delivered_id g) g' (snd (claim_ids (sd_entries s) c opt now_ms ids g'))" for g'
    using assms(2,3) by (intro claim_ids_moves) auto
  from moves_ok [OF this registered(1) [OF ok]] registered(2) [OF ok] show ?thesis by simp
qed

lemma autoclaimed_ok:
  assumes "group_ok g"
  shows "group_ok (snd (autoclaim_ids es c idle now_ms justid n ids (g\<lparr>cg_consumers := dm_or_insert c default_consumer (cg_consumers g)\<rparr>)))"
  using moves_ok [OF autoclaim_ids_moves [where F = "\<lambda>_. False"] registered(1) [OF assms]] registered(2) [OF assms] by simp

lemma acked_ok: "group_ok g \<Longrightarrow> group_ok (snd (ack_ids ids g))"
  by (induction ids arbitrary: g) (auto simp: drop_pending_ok case_prod_unfold Let_def)

lemma created_consumer_ok:
  "group_ok g \<Longrightarrow> dm_get (cg_consumers g) c = None \<Longrightarrow>
   group_ok (g\<lparr>cg_consumers := dm_insert c (default_consumer\<lparr>co_seen_time_ms := a, co_active_time_ms := b\<rparr>) (cg_consumers g)\<rparr>)"
  by (intro group_ok_consumers) (auto simp: held_def dm_simps default_consumer_def group_ok_def [of g] split: option.split)

lemma set_group_id_ok: "group_ok g \<Longrightarrow> cg_last_delivered_id g \<le> i \<Longrightarrow> group_ok (g\<lparr>cg_last_delivered_id := i\<rparr>)"
  by (auto simp: group_ok_def owner_def held_def intro: order_trans)

lemma stream_step_ok:
  assumes ok: "stream_ok s" and fwd: "forward op s"
  shows "stream_ok (stream_step op s)"
proof -
  note get = stream_ok_get [OF ok] and upd = stream_ok_group [OF ok]
  have es: "bt_ok (sd_entries s)" using ok by (simp add: stream_ok_def)
  show ?thesis
  proof (cases op)
    case (CreateGroup grp i)
    with ok show ?thesis by (auto simp: create_group_def intro!: upd empty_group_ok)
  next
    case (SetGroupId grp i)
    with ok fwd show ?thesis by (auto simp: set_group_id_def split: option.split intro!: upd set_group_id_ok dest: get)
  next
    case (DestroyGroup grp)
    with ok show ?thesis by (auto simp: destroy_group_def stream_ok_def dm_simps split: if_splits)
  next
    case (CreateConsumer grp c now_ms)
    with ok show ?thesis by (auto simp: create_consumer_def split: option.split intro!: upd created_consumer_ok dest: get)
  next
    case (DelConsumer grp c)
    with ok show ?thesis by (auto simp: del_consumer_def split: option.split intro!: upd del_consumer_group dest: get)
  next
    case (ReadNew grp c count now_ms noack)
    show ?thesis
    proof (cases "dm_get (sd_groups s) grp")
      case (Some g)
      then show ?thesis using ReadNew read_new_ok [OF get [OF Some] es] by (simp add: group_read_new_group upd)
    qed (use ReadNew ok in \<open>simp add: group_read_new_def\<close>)
  next
    case (ReadHistory grp c first count now_ms)
    with ok show ?thesis by (auto simp: group_read_history_def Let_def split: option.split intro!: upd seen_ok dest: get)
  next
    case (Ack grp ids)
    with ok show ?thesis by (auto simp: stream_ack_def case_prod_unfold Let_def split: option.split intro!: upd acked_ok dest: get)
  next
    case (Claim grp c ids opt now_ms)
    with ok fwd show ?thesis by (auto simp: stream_claim_def case_prod_unfold Let_def split: option.split intro!: upd claimed_ok)
  next
    case (AutoClaim grp c idle start count now_ms justid)
    with ok show ?thesis by (auto simp: autoclaim_def case_prod_unfold Let_def split: option.split intro!: upd autoclaimed_ok dest: get)
  qed (use ok fwd stream_ok_shrinks shrinks_delete shrinks_trim in \<open>auto intro: add_ok set_last_id_ok\<close>)
qed

inductive reachable :: "stream_data \<Rightarrow> bool" where
  created: "reachable new_stream"
| operated: "reachable s \<Longrightarrow> forward op s \<Longrightarrow> reachable (stream_step op s)"

lemma new_stream_ok: "stream_ok new_stream"
  by (simp add: stream_ok_def new_stream_def)


definition demo_ops :: "stream_op list" where
  "demo_ops = [Add (StreamId 1 1) [(''k'', ''v'')], CreateGroup ''g'' MIN_ID, ReadNew ''g'' ''alice'' None 5 False]"

definition demo_group :: consumer_group where
  "demo_group = \<lparr>cg_last_delivered_id = StreamId 1 1,
     cg_pending = [(StreamId 1 1, \<lparr>pe_consumer = ''alice'', pe_delivery_time_ms = 5, pe_delivery_count = 1\<rparr>)],
     cg_consumers = [(''alice'', \<lparr>co_pending = {StreamId 1 1}, co_seen_time_ms = 5, co_active_time_ms = 5\<rparr>)], cg_entries_read = 1\<rparr>"

definition demo_stream :: stream_data where
  "demo_stream = \<lparr>sd_entries = [(StreamId 1 1, [(''k'', ''v'')])], sd_last_id = StreamId 1 1, sd_max_deleted_id = MIN_ID,
     sd_entries_added = 1, sd_groups = [(''g'', demo_group)]\<rparr>"

lemma demo_run: "fold stream_step demo_ops new_stream = demo_stream"
  by (simp add: demo_ops_def new_stream_def demo_stream_def demo_group_def stream_add_def create_group_def group_read_new_def
      deliver_def collect_limited_def bt_after_def default_consumer_def dm_or_insert_def dm_modify_def dm_insert_def dm_get_def
      MIN_ID_def less_stream_id_def less_eq_stream_id_def u64_add_def Let_def)

lemma demo_reachable: "reachable demo_stream"
proof -
  have "reachable (fold stream_step demo_ops new_stream)"
    unfolding demo_ops_def fold.simps comp_def id_apply by (intro operated created) simp_all
  then show ?thesis by (simp only: demo_run)
qed


text \<open>
  C30: Setting a group back loses pending entries.  When \<open>XGROUP SETID\<close> puts a group before an entry that
  \<open>a\<close> holds and \<open>b\<close> then reads it, \<open>b\<close> is recorded as the owner but the set of \<open>a\<close> keeps the entry;
  deleting the idle consumer \<open>a\<close> takes it off the pending list.  Nobody acknowledged it, it is still in
  the stream, and neither a read of new entries nor a claim finds it again.
\<close>

theorem setid_loses_pending:
  assumes "reachable s" "dm_get (sd_groups s) grp = Some g" "owner g i = Some a" "a \<noteq> b" "bt_get (sd_entries s) i \<noteq> None" "j < i"
    "s' = fold stream_step [SetGroupId grp j, ReadNew grp b None now_ms False] s"
  shows "(\<exists>g'. dm_get (sd_groups s') grp = Some g' \<and> owner g' i = Some b) \<and>
    (\<exists>g'. dm_get (sd_groups (stream_step (DelConsumer grp a) s')) grp = Some g' \<and> owner g' i = None \<and> i \<le> cg_last_delivered_id g') \<and>
    bt_get (sd_entries (stream_step (DelConsumer grp a) s')) i \<noteq> None"
proof -
  have ok: "stream_ok s" using assms(1) by induction (auto intro: new_stream_ok stream_step_ok)
  then have es: "bt_ok (sd_entries s)" by (simp add: stream_ok_def)
  from stream_ok_get [OF ok assms(2)] assms(3) have ha: "i \<in> held g a" unfolding group_ok_def by blast
  let ?g1 = "g\<lparr>cg_last_delivered_id := j\<rparr>"
  let ?g2 = "read_new b None now_ms False (sd_entries s) ?g1"
  let ?s1 = "s\<lparr>sd_groups := dm_insert grp ?g1 (sd_groups s)\<rparr>"
  have s1: "stream_step (SetGroupId grp j) s = ?s1" using assms(2) by (simp add: set_group_id_def)
  have "dm_get (sd_groups ?s1) grp = Some ?g1" by (simp add: dm_simps)
  from group_read_new_group [OF this, of b None now_ms False]
  have "stream_step (ReadNew grp b None now_ms False) ?s1 = ?s1\<lparr>sd_groups := dm_insert grp ?g2 (sd_groups ?s1)\<rparr>" by simp
  with s1 have read: "s' = ?s1\<lparr>sd_groups := dm_insert grp ?g2 (sd_groups ?s1)\<rparr>"
    unfolding assms(7) fold.simps comp_def id_apply by (simp only:)
  obtain fvs where "(i, fvs) \<in> set (sd_entries s)" using assms(5) bt_get_in_set [OF es, of i] by blast
  with assms(6) have "(i, fvs) \<in> set (bt_after j (sd_entries s))" by (simp add: bt_after_def)
  from imageI [OF this, of fst] have in_next: "i \<in> set (next_ids ?g1 (sd_entries s) None)" by (simp add: collect_limited_def)
  then have own: "owner ?g2 i = Some b" by (simp add: read_new_group)
  have "held ?g1 a = held g a" by (simp add: held_def)
  with ha assms(4) have "i \<in> held ?g2 a" by (simp add: read_new_group)
  then obtain c where c: "dm_get (cg_consumers ?g2) a = Some c" "i \<in> co_pending c" by (auto simp: held_def split: option.splits)
  have "i \<le> last (next_ids ?g1 (sd_entries s) None)"
    using limited_after(1) [OF es, of "cg_last_delivered_id ?g1" None] in_next by (intro sorted_last) (simp_all add: strict_sorted_iff)
  moreover have "next_ids ?g1 (sd_entries s) None \<noteq> []" using in_next by auto
  ultimately have le: "i \<le> cg_last_delivered_id ?g2" by (simp only: read_new_group if_False)
  have get: "dm_get (sd_groups s') grp = Some ?g2" unfolding read by (simp add: dm_simps)
  have "stream_step (DelConsumer grp a) s' = s'\<lparr>sd_groups := dm_insert grp (?g2\<lparr>cg_consumers := dm_remove a (cg_consumers ?g2),
      cg_pending := filter (\<lambda>(i, _). i \<notin> co_pending c) (cg_pending ?g2)\<rparr>) (sd_groups s')\<rparr>"
    using c(1) get by (simp add: del_consumer_def)
  moreover have "bt_get (sd_entries s') i \<noteq> None" unfolding read using assms(5) by simp
  ultimately show ?thesis using own le c(2) get by (simp add: dm_simps owner_def bt_get_filter)
qed

theorem setid_loses_pending_witness:
  "\<exists>s' g'. s' = fold stream_step [SetGroupId ''g'' MIN_ID, ReadNew ''g'' ''bob'' None 9 False] demo_stream \<and>
    dm_get (sd_groups (stream_step (DelConsumer ''g'' ''alice'') s')) ''g'' = Some g' \<and> owner g' (StreamId 1 1) = None \<and>
    StreamId 1 1 \<le> cg_last_delivered_id g'"
proof -
  have "dm_get (sd_groups demo_stream) ''g'' = Some demo_group" "owner demo_group (StreamId 1 1) = Some ''alice''"
    "bt_get (sd_entries demo_stream) (StreamId 1 1) \<noteq> None" "MIN_ID < StreamId 1 1" "''alice'' \<noteq> ''bob''"
    by (simp_all add: demo_stream_def demo_group_def dm_get_def owner_def bt_get_def MIN_ID_def less_stream_id_def)
  from setid_loses_pending [OF demo_reachable this(1,2,5,3,4) refl, of 9] show ?thesis by blast
qed

end
