(* ===== verification/Stream_Delivery.thy ===== *)
theory Stream_Delivery
  imports Stream_Groups
begin

text \<open>
  What a consumer group guarantees over any sequence of operations: the reads of new entries hand out
  every entry once over all its consumers, skip none, and an entry that was handed out stays claimable
  until somebody acknowledges it.
\<close>

section \<open>Runs of a group\<close>

text \<open>The ids that an operation hands out to the readers of new entries of a group.\<close>

fun delivered :: "string \<Rightarrow> stream_op \<Rightarrow> stream_data \<Rightarrow> stream_id list" where
  "delivered grp (ReadNew grp' c count now_ms noack) s =
     (if grp' = grp then map fst (unwrap_or (fst (group_read_new grp' c count now_ms noack s)) []) else [])"
| "delivered grp _ s = []"

text \<open>The group is neither destroyed nor repositioned, and \<open>XSETID\<close> does not lower the last id.\<close>

definition keeps :: "string \<Rightarrow> stream_op \<Rightarrow> stream_data \<Rightarrow> bool" where
  "keeps grp op s \<longleftrightarrow> forward op s \<and>
     (case op of DestroyGroup n \<Rightarrow> n \<noteq> grp | SetGroupId n _ \<Rightarrow> n \<noteq> grp | SetLastId i _ _ \<Rightarrow> sd_last_id s \<le> i | _ \<Rightarrow> True)"

text \<open>Acknowledging, reading without acknowledgement and deleting a consumer give up pending entries.\<close>

fun forgets :: "string \<Rightarrow> stream_id \<Rightarrow> stream_op \<Rightarrow> bool" where
  "forgets grp i (Ack grp' ids) = (grp' = grp \<and> i \<in> set ids)"
| "forgets grp i (DelConsumer grp' c) = (grp' = grp)"
| "forgets grp i (ReadNew grp' c count now_ms noack) = (grp' = grp \<and> noack)"
| "forgets grp i _ = False"

inductive group_run :: "string \<Rightarrow> stream_data \<Rightarrow> stream_op list \<Rightarrow> stream_id list \<Rightarrow> stream_data \<Rightarrow> bool" for grp s where
  start: "group_run grp s [] [] s"
| continue: "group_run grp s ops ds s' \<Longrightarrow> keeps grp op s' \<Longrightarrow>
    group_run grp s (ops @ [op]) (ds @ delivered grp op s') (stream_step op s')"

section \<open>One step\<close>

lemma moves_owner:
  assumes "moves consumer D F g g'" "dm_get (cg_consumers g) consumer \<noteq> None" "owner g i \<noteq> None" "\<not> D i"
  shows "owner g' i \<noteq> None \<and> cg_last_delivered_id g' = cg_last_delivered_id g"
  using assms
proof induction
  case (dropped j g g')
  then have "j \<noteq> i" by auto
  with dropped show ?case by (simp add: drop_pending_owner drop_pending_consumers)
next
  case (taken g j now_ms t n g')
  then show ?case using transfer_owner [OF taken.prems(1), of now_ms t n j] by (simp split: if_splits)
qed simp

lemma moves_last:
  assumes "moves consumer D F g g'" "dm_get (cg_consumers g) consumer \<noteq> None"
  shows "cg_last_delivered_id g' = cg_last_delivered_id g"
  using assms
proof induction
  case (taken g j now_ms t n g')
  then show ?case using transfer_owner(3,4) [OF taken.prems(1), of now_ms t n j] by simp
qed (simp_all add: drop_pending_owner drop_pending_consumers)

lemma sorted_prefix:
  assumes "sorted_wrt (<) (xs :: 'a :: linorder list)" "x \<in> set xs" "take n xs \<noteq> []" "x \<le> last (take n xs)"
  shows "x \<in> set (take n xs)"
proof (rule ccontr)
  assume "x \<notin> set (take n xs)"
  then have "x \<in> set (drop n xs)" using assms(2) append_take_drop_id [of n xs] by (metis Un_iff set_append)
  moreover have "sorted_wrt (<) (take n xs @ drop n xs)" using assms(1) by simp
  ultimately have "last (take n xs) < x" unfolding sorted_wrt_append using last_in_set [OF assms(3)] by blast
  with assms(4) show False by simp
qed

lemma next_ids_complete:
  assumes "bt_ok es" "bt_get es i \<noteq> None" "cg_last_delivered_id g < i" "next_ids g es count \<noteq> []" "i \<le> last (next_ids g es count)"
  shows "i \<in> set (next_ids g es count)"
proof -
  obtain fvs where "(i, fvs) \<in> set es" using assms(2) bt_get_in_set [OF assms(1), of i] by blast
  with assms(3) have "(i, fvs) \<in> set (bt_after (cg_last_delivered_id g) es)" by (simp add: bt_after_def)
  from imageI [OF this, of fst] have i: "i \<in> set (map fst (bt_after (cg_last_delivered_id g) es))" by simp
  show ?thesis
  proof (cases count)
    case (Some n)
    then have "next_ids g es count = take n (map fst (bt_after (cg_last_delivered_id g) es))" by (simp add: collect_limited_def take_map)
    moreover have "sorted_wrt (<) (map fst (bt_after (cg_last_delivered_id g) es))"
      using limited_after(1) [OF assms(1), of "cg_last_delivered_id g" None] by (simp add: collect_limited_def)
    ultimately show ?thesis using sorted_prefix [OF _ i, of n] assms(4,5) by metis
  qed (use i in \<open>simp add: collect_limited_def\<close>)
qed

lemma next_ids_entries: "bt_ok es \<Longrightarrow> i \<in> set (next_ids g es count) \<Longrightarrow> bt_get es i \<noteq> None"
  using bt_get_in_set [of es i]
  by (cases count) (auto simp: collect_limited_def bt_after_def dest!: in_set_takeD)

lemma delivered_ids:
  assumes "stream_ok s" "dm_get (sd_groups s) grp = Some g"
  shows "\<exists>count. delivered grp op s = [] \<or> delivered grp op s = next_ids g (sd_entries s) count"
  using assms by (cases op) (auto simp: group_read_new_group)

lemma delivered_laws:
  assumes "stream_ok s" "dm_get (sd_groups s) grp = Some g"
  shows "sorted_wrt (<) (delivered grp op s)" "\<forall>i \<in> set (delivered grp op s). cg_last_delivered_id g < i \<and> i \<le> sd_last_id s"
    "bt_get (sd_entries s) i \<noteq> None \<Longrightarrow> cg_last_delivered_id g < i \<Longrightarrow> delivered grp op s \<noteq> [] \<Longrightarrow> i \<le> last (delivered grp op s) \<Longrightarrow>
     i \<in> set (delivered grp op s)"
proof -
  obtain count where d: "delivered grp op s = [] \<or> delivered grp op s = next_ids g (sd_entries s) count"
    using delivered_ids [OF assms] by blast
  have es: "bt_ok (sd_entries s)" using assms(1) by (simp add: stream_ok_def)
  note l = limited_after [OF es, of "cg_last_delivered_id g" count]
  show "sorted_wrt (<) (delivered grp op s)" using d l(1) by auto
  have "\<forall>i \<in> set (next_ids g (sd_entries s) count). i \<le> sd_last_id s"
    using next_ids_entries [OF es] assms(1) by (simp add: stream_ok_def)
  then show "\<forall>i \<in> set (delivered grp op s). cg_last_delivered_id g < i \<and> i \<le> sd_last_id s" using d l(2) by auto
  show "bt_get (sd_entries s) i \<noteq> None \<Longrightarrow> cg_last_delivered_id g < i \<Longrightarrow> delivered grp op s \<noteq> [] \<Longrightarrow> i \<le> last (delivered grp op s) \<Longrightarrow>
     i \<in> set (delivered grp op s)" using d next_ids_complete [OF es, of i g count] by auto
qed
lemma claimed_moves:
  assumes "dm_get (sd_groups s) grp = Some g"
  shows "\<exists>g'. dm_get (sd_groups (stream_step (Claim grp c ids opt now_ms) s)) grp = Some g' \<and>
    moves c (\<lambda>i. bt_get (sd_entries s) i = None) (\<lambda>_. True) (g\<lparr>cg_consumers := dm_or_insert c default_consumer (cg_consumers g)\<rparr>) g'"
    "\<exists>g'. dm_get (sd_groups (stream_step (AutoClaim grp c idle first count now_ms justid) s)) grp = Some g' \<and>
    moves c (\<lambda>i. bt_get (sd_entries s) i = None) (\<lambda>_. True) (g\<lparr>cg_consumers := dm_or_insert c default_consumer (cg_consumers g)\<rparr>) g'"
  using assms(1) claim_ids_moves [of opt ids "\<lambda>_. True" c "sd_entries s"] autoclaim_ids_moves [of c "sd_entries s" "\<lambda>_. True"]
  by (simp_all add: stream_claim_def autoclaim_def Let_def case_prod_unfold dm_simps)

lemma not_pending: "bt_get (cg_pending g) i = None \<Longrightarrow> owner g i = None"
  by (simp add: owner_def)

lemma ack_ids_owner:
  "owner (snd (ack_ids ids g)) i = (if i \<in> set ids then None else owner g i)"
  "cg_last_delivered_id (snd (ack_ids ids g)) = cg_last_delivered_id g"
  by (induction ids arbitrary: g) (auto simp: Let_def case_prod_unfold drop_pending_owner not_pending)

definition evolves :: "string \<Rightarrow> stream_op \<Rightarrow> stream_data \<Rightarrow> consumer_group \<Rightarrow> consumer_group \<Rightarrow> bool" where
  "evolves grp op s g g' \<longleftrightarrow>
     cg_last_delivered_id g' = (if delivered grp op s = [] then cg_last_delivered_id g else last (delivered grp op s)) \<and>
     (\<forall>i. bt_get (sd_entries s) i \<noteq> None \<and> \<not> forgets grp i op \<and> (owner g i \<noteq> None \<or> i \<in> set (delivered grp op s)) \<longrightarrow> owner g' i \<noteq> None)"

lemma evolves_same: "delivered grp op s = [] \<Longrightarrow> evolves grp op s g g"
  by (simp add: evolves_def)

lemma evolves_moves:
  assumes "moves c D F (g\<lparr>cg_consumers := dm_or_insert c default_consumer (cg_consumers g)\<rparr>) g'" "delivered grp op s = []"
    "\<And>i. D i \<Longrightarrow> bt_get (sd_entries s) i \<noteq> None \<Longrightarrow> forgets grp i op"
  shows "evolves grp op s g g'"
proof -
  have c: "dm_get (cg_consumers (g\<lparr>cg_consumers := dm_or_insert c default_consumer (cg_consumers g)\<rparr>)) c \<noteq> None" by (simp add: dm_simps)
  show ?thesis unfolding evolves_def using moves_last [OF assms(1) c] moves_owner [OF assms(1) c] assms(2,3) by fastforce
qed

lemma read_new_evolves:
  assumes "dm_get (sd_groups s) grp = Some g"
  shows "evolves grp (ReadNew grp c count now_ms noack) s g (read_new c count now_ms noack (sd_entries s) g)"
  unfolding evolves_def by (simp add: read_new_group group_read_new_group [OF assms])

lemma step_group:
  assumes ok: "stream_ok s" and get: "dm_get (sd_groups s) grp = Some g" and keep: "keeps grp op s"
  shows "\<exists>g'. dm_get (sd_groups (stream_step op s)) grp = Some g' \<and> evolves grp op s g g'"
proof (cases op)
  case (Delete ids)
  then show ?thesis using get shrinks_delete [of s ids] by (auto simp: shrinks_def evolves_same)
next
  case (Trim n)
  then show ?thesis using get shrinks_trim [of s n] by (auto simp: shrinks_def evolves_same)
next
  case (CreateGroup grp' i)
  then show ?thesis using get by (auto simp: create_group_def dm_simps evolves_same)
next
  case (SetGroupId grp' i)
  then show ?thesis using get keep by (auto simp: set_group_id_def keeps_def dm_simps evolves_same split: option.split)
next
  case (DestroyGroup grp')
  then show ?thesis using get keep by (auto simp: destroy_group_def keeps_def dm_simps evolves_same)
next
  case (CreateConsumer grp' c now_ms)
  then show ?thesis using get by (auto simp: create_consumer_def dm_simps evolves_same evolves_def split: option.split)
next
  case (DelConsumer grp' c)
  then show ?thesis using get by (auto simp: del_consumer_def dm_simps evolves_same evolves_def split: option.split)
next
  case (ReadNew grp' c count now_ms noack)
  show ?thesis
  proof (cases "grp' = grp")
    case True
    then show ?thesis using ReadNew read_new_evolves [OF get, of c count now_ms noack] by (simp add: group_read_new_group [OF get] dm_simps)
  next
    case False
    then show ?thesis using ReadNew get by (auto simp: group_read_new_def Let_def dm_simps evolves_same split: option.split)
  qed
next
  case (ReadHistory grp' c first count now_ms)
  then show ?thesis using get by (auto simp: group_read_history_def Let_def dm_simps evolves_same evolves_def split: option.split)
next
  case (Ack grp' ids)
  then show ?thesis using get by (auto simp: stream_ack_def Let_def case_prod_unfold dm_simps evolves_same evolves_def ack_ids_owner split: option.split)
next
  case (Claim grp' c ids opt now_ms)
  show ?thesis
  proof (cases "grp' = grp")
    case True
    then show ?thesis using Claim claimed_moves(1) [OF get] evolves_moves [of c _ _ g _ grp op s] by fastforce
  next
    case False
    then show ?thesis using Claim get by (auto simp: stream_claim_def Let_def case_prod_unfold dm_simps evolves_same split: option.split)
  qed
next
  case (AutoClaim grp' c idle first count now_ms justid)
  show ?thesis
  proof (cases "grp' = grp")
    case True
    then show ?thesis using AutoClaim claimed_moves(2) [OF get] evolves_moves [of c _ _ g _ grp op s] by fastforce
  next
    case False
    then show ?thesis using AutoClaim get by (auto simp: autoclaim_def Let_def case_prod_unfold dm_simps evolves_same split: option.split)
  qed
qed (use get in \<open>auto simp: stream_add_def set_last_id_def evolves_same\<close>)

lemma shrinks_entries:
  assumes "shrinks s s'"
  shows "(bt_get (sd_entries s') i \<noteq> None \<longrightarrow> bt_get (sd_entries s) i \<noteq> None \<or> sd_last_id s < i) \<and> sd_last_id s \<le> sd_last_id s'"
proof -
  have "bt_get (sd_entries s') i = bt_get (sd_entries s) i \<or> bt_get (sd_entries s') i = None" "sd_last_id s' = sd_last_id s"
    using assms by (simp_all add: shrinks_def)
  then show ?thesis by auto
qed

lemma step_entries:
  assumes "keeps grp op s"
  shows "(bt_get (sd_entries (stream_step op s)) i \<noteq> None \<longrightarrow> bt_get (sd_entries s) i \<noteq> None \<or> sd_last_id s < i) \<and>
    sd_last_id s \<le> sd_last_id (stream_step op s)"
proof (cases op)
  case (Delete ids)
  then show ?thesis using shrinks_entries [OF shrinks_delete] by simp
next
  case (Trim n)
  then show ?thesis using shrinks_entries [OF shrinks_trim] by simp
qed (use assms in \<open>auto simp: stream_add_def set_last_id_def keeps_def create_group_def set_group_id_def destroy_group_def
    create_consumer_def del_consumer_def group_read_new_def group_read_history_def stream_ack_def stream_claim_def autoclaim_def
    bt_get_insert Let_def case_prod_unfold split: option.splits if_splits\<close>)

section \<open>The guarantee\<close>

definition delivery_ok :: "string \<Rightarrow> stream_id \<Rightarrow> stream_op list \<Rightarrow> stream_id list \<Rightarrow> stream_data \<Rightarrow> consumer_group \<Rightarrow> bool" where
  "delivery_ok grp from ops ds s g \<longleftrightarrow>
     dm_get (sd_groups s) grp = Some g \<and> sorted_wrt (<) ds \<and> (\<forall>i \<in> set ds. from < i \<and> i \<le> cg_last_delivered_id g) \<and>
     from \<le> cg_last_delivered_id g \<and> cg_last_delivered_id g \<le> max from (sd_last_id s) \<and>
     (\<forall>i. bt_get (sd_entries s) i \<noteq> None \<and> from < i \<and> i \<le> cg_last_delivered_id g \<longrightarrow> i \<in> set ds) \<and>
     (\<forall>i \<in> set ds. bt_get (sd_entries s) i \<noteq> None \<longrightarrow> (\<exists>op \<in> set ops. forgets grp i op) \<or> owner g i \<noteq> None)"

lemma delivery_okD:
  assumes "delivery_ok grp from ops ds s g"
  shows "dm_get (sd_groups s) grp = Some g" "sorted_wrt (<) ds" "i \<in> set ds \<Longrightarrow> from < i" "i \<in> set ds \<Longrightarrow> i \<le> cg_last_delivered_id g"
    "from \<le> cg_last_delivered_id g" "cg_last_delivered_id g \<le> from \<or> cg_last_delivered_id g \<le> sd_last_id s"
    "bt_get (sd_entries s) i \<noteq> None \<Longrightarrow> from < i \<Longrightarrow> i \<le> cg_last_delivered_id g \<Longrightarrow> i \<in> set ds"
    "i \<in> set ds \<Longrightarrow> bt_get (sd_entries s) i \<noteq> None \<Longrightarrow> (\<exists>op \<in> set ops. forgets grp i op) \<or> owner g i \<noteq> None"
  using assms unfolding delivery_ok_def le_max_iff_disj by blast+

lemma delivery_ok_step:
  assumes ok: "stream_ok s" and run: "delivery_ok grp from ops ds s g" and keep: "keeps grp op s"
  shows "\<exists>g'. delivery_ok grp from (ops @ [op]) (ds @ delivered grp op s) (stream_step op s) g'"
proof -
  let ?d = "delivered grp op s" and ?l = "cg_last_delivered_id g"
  note r = delivery_okD [OF run] and law = delivered_laws [OF ok delivery_okD(1) [OF run], where op = op]
  obtain g' where g': "dm_get (sd_groups (stream_step op s)) grp = Some g'" and ev: "evolves grp op s g g'"
    using step_group [OF ok r(1) keep] by blast
  have ent: "bt_get (sd_entries (stream_step op s)) i \<noteq> None \<Longrightarrow> bt_get (sd_entries s) i \<noteq> None \<or> sd_last_id s < i"
    "sd_last_id s \<le> sd_last_id (stream_step op s)" for i using step_entries [OF keep] by blast+
  let ?l' = "cg_last_delivered_id g'"
  have last: "?l' = (if ?d = [] then ?l else last ?d)" using ev by (simp add: evolves_def)
  have d: "?l < i" "i \<le> sd_last_id s" "i \<le> ?l'" if "i \<in> set ?d" for i
    using law(2) sorted_last [of ?d i] law(1) that by (auto simp: last strict_sorted_iff)
  have mono: "?l \<le> ?l'" using d(1) [of "last ?d"] by (simp add: last less_imp_le)
  have l': "?l' \<le> from \<or> ?l' \<le> sd_last_id s" using d(2) [of "last ?d"] r(6) by (simp add: last)
  have old: "bt_get (sd_entries s) i \<noteq> None" if "bt_get (sd_entries (stream_step op s)) i \<noteq> None" "from < i" "i \<le> ?l'" for i
    using ent(1) [OF that(1)] that(2,3) l' by force
  have "sorted_wrt (<) (ds @ ?d)" using r(2) law(1) r(4) d(1) by (auto simp: sorted_wrt_append intro: le_less_trans)
  moreover have in_run: "from < i \<and> i \<le> ?l'" if "i \<in> set (ds @ ?d)" for i
    using that r(3) [of i] r(4) [of i] d [of i] mono r(5) by auto
  moreover have "from \<le> ?l'" "?l' \<le> max from (sd_last_id (stream_step op s))" using r(5) mono l' ent(2) by (auto simp: le_max_iff_disj)
  moreover have "i \<in> set (ds @ ?d)" if "bt_get (sd_entries (stream_step op s)) i \<noteq> None" "from < i" "i \<le> ?l'" for i
    using r(7) [OF old [OF that] that(2)] law(3) [OF old [OF that]] that(3) by (cases "i \<le> ?l") (auto simp: last split: if_splits)
  moreover have "(\<exists>op' \<in> set (ops @ [op]). forgets grp i op') \<or> owner g' i \<noteq> None"
    if "i \<in> set (ds @ ?d)" "bt_get (sd_entries (stream_step op s)) i \<noteq> None" for i
  proof -
    have e: "bt_get (sd_entries s) i \<noteq> None" using old [OF that(2)] in_run [OF that(1)] by blast
    then have "owner g i \<noteq> None \<or> i \<in> set ?d \<Longrightarrow> \<not> forgets grp i op \<Longrightarrow> owner g' i \<noteq> None" using ev unfolding evolves_def by blast
    with r(8) [OF _ e] that(1) show ?thesis by auto
  qed
  ultimately show ?thesis unfolding delivery_ok_def using g' by blast
qed

lemma group_run_ok:
  assumes "group_run grp s ops ds s'" "stream_ok s" "dm_get (sd_groups s) grp = Some g"
  shows "stream_ok s' \<and> (\<exists>g'. delivery_ok grp (cg_last_delivered_id g) ops ds s' g')"
  using assms
proof induction
  case start
  then show ?case by (auto simp: delivery_ok_def)
next
  case (continue ops ds s' op)
  then show ?case using delivery_ok_step [of s' grp "cg_last_delivered_id g" ops ds _ op] stream_step_ok [of s' op] by (auto simp: keeps_def)
qed

lemma reachable_ok: "reachable s \<Longrightarrow> stream_ok s"
  by (induction rule: reachable.induct) (auto intro: new_stream_ok stream_step_ok)

text \<open>
  C28: A group delivers every entry once and loses none.  Over any operations that do not destroy or
  reposition the group, the ids handed out to its readers of new entries strictly increase, whichever
  consumers read; every entry of the stream behind the starting point has been handed out or lies ahead of
  the group; and an entry that was handed out is still pending, so that a claim finds it, unless it was
  acknowledged, read without acknowledgement, or a consumer was deleted.
\<close>

theorem group_delivers_once:
  assumes "reachable s" "dm_get (sd_groups s) grp = Some g" "group_run grp s ops ds s'"
  shows "sorted_wrt (<) ds \<and> (\<exists>g'. dm_get (sd_groups s') grp = Some g' \<and>
    (\<forall>i. bt_get (sd_entries s') i \<noteq> None \<and> cg_last_delivered_id g < i \<longrightarrow>
      cg_last_delivered_id g' < i \<or>
      i \<in> set ds \<and> ((\<exists>op \<in> set ops. forgets grp i op) \<or> owner g' i \<noteq> None)))"
proof -
  obtain g' where "delivery_ok grp (cg_last_delivered_id g) ops ds s' g'"
    using group_run_ok [OF assms(3) reachable_ok [OF assms(1)] assms(2)] by blast
  note r = delivery_okD [OF this]
  show ?thesis using r(1,2,7,8) by (meson not_le)
qed

definition demo_new_group :: stream_data where
  "demo_new_group = fold stream_step [Add (StreamId 1 1) [(''k'', ''v'')], CreateGroup ''g'' MIN_ID] new_stream"

lemma demo_new_group_get: "\<exists>g. dm_get (sd_groups demo_new_group) ''g'' = Some g \<and> cg_last_delivered_id g = MIN_ID"
  by (simp add: demo_new_group_def new_stream_def stream_add_def create_group_def dm_simps)

lemma demo_new_group_read:
  "delivered ''g'' (ReadNew ''g'' ''alice'' None 5 False) demo_new_group = [StreamId 1 1] \<and>
   stream_step (ReadNew ''g'' ''alice'' None 5 False) demo_new_group = demo_stream"
proof
  show "delivered ''g'' (ReadNew ''g'' ''alice'' None 5 False) demo_new_group = [StreamId 1 1]"
    by (simp add: demo_new_group_def new_stream_def stream_add_def create_group_def group_read_new_def Let_def dm_get_def dm_insert_def
        collect_limited_def bt_after_def MIN_ID_def less_stream_id_def less_eq_stream_id_def)
  show "stream_step (ReadNew ''g'' ''alice'' None 5 False) demo_new_group = demo_stream"
    using demo_run by (simp add: demo_ops_def demo_new_group_def)
qed

theorem group_delivers_once_witness:
  "sorted_wrt (<) [StreamId 1 1] \<and> (\<exists>g'. dm_get (sd_groups demo_stream) ''g'' = Some g' \<and> owner g' (StreamId 1 1) \<noteq> None)"
proof -
  have "reachable demo_new_group" unfolding demo_new_group_def fold.simps comp_def id_apply by (intro operated created) simp_all
  moreover have "group_run ''g'' demo_new_group ([] @ [ReadNew ''g'' ''alice'' None 5 False]) ([] @ [StreamId 1 1]) demo_stream"
    using continue [OF start, of "''g''" "ReadNew ''g'' ''alice'' None 5 False" demo_new_group] demo_new_group_read by (simp add: keeps_def)
  ultimately obtain g' where g': "sorted_wrt (<) ([] @ [StreamId 1 1])" "dm_get (sd_groups demo_stream) ''g'' = Some g'"
      "bt_get (sd_entries demo_stream) (StreamId 1 1) \<noteq> None \<and> MIN_ID < StreamId 1 1 \<longrightarrow>
       cg_last_delivered_id g' < StreamId 1 1 \<or>
       (\<exists>op \<in> set ([] @ [ReadNew ''g'' ''alice'' None 5 False]). forgets ''g'' (StreamId 1 1) op) \<or> owner g' (StreamId 1 1) \<noteq> None"
    using demo_new_group_get group_delivers_once [of demo_new_group "''g''"] by metis
  moreover from g'(2) have "cg_last_delivered_id g' = StreamId 1 1" by (auto simp: demo_stream_def demo_group_def dm_get_def)
  moreover have "bt_get (sd_entries demo_stream) (StreamId 1 1) \<noteq> None" "MIN_ID < StreamId 1 1"
    by (simp_all add: demo_stream_def bt_get_def MIN_ID_def less_stream_id_def)
  ultimately show ?thesis by auto
qed

section \<open>The scan of a pending list ends and ids read back\<close>

lemma autoclaim_ids_returns:
  assumes "distinct ids" "\<forall>i \<in> set ids. owner g i \<noteq> None" "dm_get (cg_consumers g) consumer \<noteq> None"
  shows "fst (autoclaim_ids es consumer idle now_ms justid n ids g) \<noteq> Panicked"
  using assms
proof (induction ids arbitrary: g n)
  case (Cons i ids)
  have "\<forall>j \<in> set ids. owner (drop_pending i g) j \<noteq> None" "\<forall>j \<in> set ids. owner (transfer consumer now_ms t k i g) j \<noteq> None" for t k
    using Cons.prems by (auto simp: drop_pending_owner transfer_owner [OF Cons.prems(3)])
  moreover have "bt_get (cg_pending g) i \<noteq> None" using Cons.prems(2) by (metis list.set_intros(1) not_pending)
  ultimately show ?case
    using Cons.IH [of "drop_pending i g"] Cons.IH [of g] Cons.IH [of "transfer consumer now_ms t k i g" for t k] Cons.prems
      drop_pending_consumers [OF Cons.prems(3), of i] transfer_owner(4) [OF Cons.prems(3)]
    by (auto simp: Let_def split: option.split outcome.split prod.split) (metis fst_conv)+
qed simp

lemma autoclaim_returns:
  assumes "stream_ok s"
  shows "fst (autoclaim grp consumer idle first count now_ms justid s) \<noteq> Panicked"
proof (cases "dm_get (sd_groups s) grp")
  case (Some g)
  let ?g = "g\<lparr>cg_consumers := dm_or_insert consumer default_consumer (cg_consumers g)\<rparr>"
  have ok: "bt_ok (cg_pending g)" using stream_ok_get [OF assms Some] by (simp add: group_ok_def)
  have "distinct (map fst (bt_from first (cg_pending g)))" unfolding bt_from_def by (intro bt_ok_distinct bt_ok_filter ok)
  moreover have "\<forall>i \<in> set (map fst (bt_from first (cg_pending g))). owner ?g i \<noteq> None"
    using bt_get_in_set [OF ok] by (auto simp: bt_from_def owner_def)
  moreover have "dm_get (cg_consumers ?g) consumer \<noteq> None" by (simp add: dm_simps)
  ultimately have "fst (autoclaim_ids (sd_entries s) consumer idle now_ms justid (max count 1) (map fst (bt_from first (cg_pending g))) ?g) \<noteq> Panicked"
    by (rule autoclaim_ids_returns)
  then show ?thesis using Some by (simp add: autoclaim_def Let_def case_prod_unfold split: outcome.split)
qed (simp add: autoclaim_def)

lemma parse_id_roundtrip:
  assumes "id_ms i \<le> u64_max" "id_seq i \<le> u64_max"
  shows "parse_id (to_redis_string i) d = Some i"
proof -
  have "CHR ''-'' \<notin> set (nat_to_string (id_ms i))" using nat_to_radix_no_sign(1) [of 10 "id_ms i"] by (simp add: nat_to_string_def)
  then show ?thesis using assms by (simp add: parse_id_def to_redis_string_def split_once_append)
qed

end
