(* ===== verification/Spec2Isabelle.thy ===== *)
theory Spec2Isabelle
  imports Ledger_Races Ledger_Listing Ledger_Truncation Resp_Connection Stream_Delivery
begin

text \<open>
  Verification of calod, a server with two faces: a ledger of effects, which makes calls to the outside
  world execute at most once and replays their outcome, and a key-value store that speaks the Redis
  protocol.  The library follows the crates under \<open>src/calod/crates\<close>.

  \<^bold>\<open>How the parts fit together.\<close>  A worker asks the ledger to acquire an effect under an idempotency key;
  the ledger grants it (\<open>Execute\<close>), returns the stored outcome (\<open>Replay\<close>), asks to wait for the holder of
  the lease, or asks to reconcile.  Each accepted request is one mutation: it is appended to the write-ahead
  log and then applied to the indexes.  Snapshots and the log are read back when the ledger is opened.  A
  client of the key-value store sends frames that the parser cuts into values, the reader of its connection
  checks the login and forwards the commands; streams are one of the stored structures.

  \<^bold>\<open>Shared theories.\<close>  \<open>Calod_Prelude\<close> names the types and holds the map model with its contract, the
  locale \<open>hash_map\<close>.  \<open>Rust_Std\<close>, \<open>Rust_Text\<close> and \<open>Rust_Collections\<close> model what the sources use of the
  standard library: integers at their width, number parsing and printing, UTF-8, \<open>f64\<close> on its bits with
  exact rounding, ordered maps (locale \<open>ordered_map\<close>).  \<open>External\<close> lists the third-party functions of the
  ledger (SHA-256, CRC-32C, UUIDs, JSON numbers and strings) as the record \<open>ext\<close> with their assumed laws;
  \<open>search_ext\<close> (memchr, CPU features) and \<open>auth_ext\<close> (Argon2, XxHash64) do the same for the server.  Each
  assumption is met by a concrete instance that the witnesses use.

  \<^bold>\<open>Ledger data\<close> (\<open>calod-ledger/src/digest.rs\<close>, \<open>model.rs\<close>, \<open>error.rs\<close>, \<open>record.rs\<close>).  \<open>Digest\<close>: canonical
  JSON and input digests; the bytes do not depend on the order of keys and identify the input up to a hash
  collision.  \<open>Timestamp\<close>: the calendar arithmetic agrees with the Gregorian calendar.  \<open>Model\<close>: records,
  views, validation.  \<open>Hash_Chain\<close>: a verified timeline is tamper evident (locales \<open>hash_chain\<close>,
  \<open>committing_chain\<close>).  \<open>Ledger_Record\<close>: mutations and their encoding in the log.

  \<^bold>\<open>Write-ahead log\<close> (\<open>calod-storage/src/wal.rs\<close>).  \<open>Wal_Format\<close>: records, headers and the scan of a segment
  (locale \<open>framed_stream\<close>).  \<open>Wal\<close>: recovery, replay, the writer task with group commit, rolling and
  truncation over a directory whose files have durable and unsynced bytes.  \<open>Wal_Log\<close>, \<open>Wal_Durability\<close>,
  \<open>Wal_Truncate\<close>: records read back as written, an acknowledged append survives a crash, truncation drops
  whole old segments only.

  \<^bold>\<open>Ledger operations\<close> (\<open>calod-ledger/src/ledger.rs\<close>, \<open>snapshot.rs\<close>).  \<open>Indexes\<close>: the in-memory maps and how
  a mutation changes them.  \<open>Ledger\<close>, \<open>Ledger_Runs\<close>: one definition per request, every error branch included.
  \<open>Ledger_Invariant\<close>, \<open>Ledger_Steps\<close>: the invariant and that each request is one legal step of the lifecycle.
  \<open>Ledger_Progress\<close>: requests succeed on a healthy log.  \<open>Ledger_Safety\<close>: over any sequence of requests the
  invariant holds, the lifecycle is refined, a started effect is never granted again and a terminal outcome
  is replayed.  \<open>Ledger_Guarantees\<close>: fencing, leases, tenant isolation, conflicts, forks, retention.
  \<open>Ledger_Listing\<close>: following cursors ends and yields everything once (locale \<open>keyset\<close>).  \<open>Ledger_Snapshot\<close>,
  \<open>Ledger_Recovery\<close>, \<open>Ledger_Crash\<close>: snapshots, opening, and that a crash loses no acknowledged request.
  \<open>Ledger_Restart\<close>, \<open>Ledger_Truncation\<close>, \<open>Ledger_Races\<close>: interleavings and restarts in which the code loses
  or blocks data, each as a theorem.

  \<^bold>\<open>Redis protocol\<close> (\<open>calod-resp/src/parser\<close>, \<open>cld_srv/protocol.rs\<close>, \<open>auth.rs\<close>, \<open>connection.rs\<close>).
  \<open>Resp_Value\<close>: values and both encodings.  \<open>Resp_Scan\<close>: the vectorised search for the end of a line equals
  the plain one.  \<open>Resp_Parser\<close>, \<open>Resp_Laws\<close>, \<open>Resp_Roundtrip\<close>: every frame type, typed results, final
  verdicts, round trip (locale \<open>frame_parser\<close>).  \<open>Resp_Auth\<close>: passwords and the login cache.
  \<open>Resp_Connection\<close>: the reader of a connection; what it forwards does not depend on how the network splits
  the bytes, and nothing but login commands passes before a login.

  \<^bold>\<open>Streams\<close> (\<open>calod-core/src/store/stream.rs\<close>).  \<open>Stream_Data\<close>: entries, groups, consumers, pending lists.
  \<open>Stream_Groups\<close>: the operations as steps, the agreement of the pending records, and how setting a group back
  breaks it.  \<open>Stream_Delivery\<close>: a group hands out every entry once and forgets none.

  \<^bold>\<open>Bounds and fuel.\<close>  No definition takes fuel.  Loops are structural recursions or functions with a
  termination proof: the parser and the reader by the length of the buffer, replay by the segments left.
  Integers keep their width where the code computes with them (\<open>i64_add\<close>, \<open>u64_add\<close>, \<open>usize_checked_add\<close>);
  lengths of in-memory lists are natural numbers.

  \<^bold>\<open>Concurrency.\<close>  A request runs to its end in the sequential theorems.  Where the code drops a lock in the
  middle, its parts are separate definitions, and \<open>Ledger_Races\<close> and \<open>Ledger_Truncation\<close> interleave them.

  \<^bold>\<open>Not modelled.\<close>  The rest of the key-value store: \<open>calod_shard.rs\<close>, \<open>sharded_store.rs\<close> and the command table
  \<open>command.rs\<close> with its dispatch \<open>served_store.rs\<close> are some fifteen thousand lines of commands, of which only
  the stream structure is covered; the connection reader takes the command table as a parameter.  Sorted
  sets, geo indexes, HyperLogLog and JSON paths (floating-point geometry, probabilistic counting, third-party
  path crates).  The writer half of a connection, pools, pub/sub and TLS (runtime channels and sockets).  The
  HTTP layer \<open>calod-api\<close>, which parses a request and calls one ledger operation (framework extraction and
  routing).  Key-value snapshots (bincode of the whole store), configuration, metrics, start-up and the
  Python SDK.
\<close>

end
